(* ===== verification/Prelude.thy ===== *)
theory Prelude
  imports Main "HOL-Library.Word" "HOL-Library.Multiset" "HOL-Library.Sublist"
    "HOL-Library.Product_Lexorder"
begin

text \<open>
  Shared vocabulary of the development.

  \<^item> the Go scalar types the program uses (\<open>uuid.UUID\<close>, \<open>time.Time\<close>, \<open>time.Duration\<close>);
  \<^item> Go \<open>error\<close> values: sentinels, wrapped errors (\<open>fmt.Errorf\<close> with \<open>%w\<close>) and \<open>errors.Is\<close>;
  \<^item> \<open>strings.Contains\<close>;
  \<^item> the meaning of the SQL statements that storage.go and the admin tool are written in:
    a table is the list of its rows, and a statement is a filter, a map or a sort of that list;
  \<^item> the locale \<open>keyed_table\<close>: what a primary key gives the clients of a table.
\<close>

named_theorems sql_defs \<open>the meaning of the SQL statement forms\<close>
named_theorems op_defs \<open>the definitions of the storage operations\<close>

section \<open>Go scalars\<close>

text \<open>
  \<open>uuid.UUID\<close> is an array of 16 bytes; \<open>uuid.Nil\<close> is all zeros. A \<open>time.Time\<close> is an
  instant in nanoseconds, a \<open>time.Duration\<close> a number of nanoseconds.
\<close>

type_synonym uuid = "128 word"
type_synonym time = int
type_synonym duration = int

definition uuid_nil :: uuid where
  "uuid_nil = 0"

definition millisecond :: duration where
  "millisecond = 1000000"

definition second :: duration where
  "second = 1000000000"

definition minute :: duration where
  "minute = 60 * second"

section \<open>Errors\<close>

text \<open>
  The sentinels of storage.go and tenant.go, a driver or server error with its text, and an
  error wrapped with context.
\<close>

datatype err =
    ErrNotFound
  | ErrClaimConflict
  | ErrDuplicate
  | ErrUnauthorized
  | Driver string
  | Wrapped string err

type_synonym 'a res = "err + 'a"

fun errors_Is :: "err \<Rightarrow> err \<Rightarrow> bool" where
  "errors_Is (Wrapped m e) t = (Wrapped m e = t \<or> errors_Is e t)"
| "errors_Is e t = (e = t)"

fun is_ok :: "'a res \<Rightarrow> bool" where
  "is_ok (Inl e) = False"
| "is_ok (Inr x) = True"

lemma is_ok_iff: "is_ok r \<longleftrightarrow> (\<exists>x. r = Inr x)"
  by (cases r) auto

section \<open>Strings\<close>

text \<open>\<open>strings.Contains(s, sub)\<close>: some suffix of \<open>s\<close> starts with \<open>sub\<close>.\<close>

fun contains :: "string \<Rightarrow> string \<Rightarrow> bool" where
  "contains [] sub = (sub = [])"
| "contains (c # s) sub = (take (length sub) (c # s) = sub \<or> contains s sub)"

lemma contains_append_self: "contains (sub @ t) sub"
proof (cases "sub @ t")
  case (Cons c s)
  moreover have "take (length sub) (sub @ t) = sub" by simp
  ultimately show ?thesis by (metis contains.simps(2))
qed simp

lemma contains_prepend: "contains s sub \<Longrightarrow> contains (p @ s) sub"
  by (induction p) auto

lemma contains_infix: "contains (p @ sub @ t) sub"
  by (intro contains_prepend contains_append_self)

lemma contains_iff_sublist: "contains s sub \<longleftrightarrow> sublist sub s"
proof
  show "contains s sub \<Longrightarrow> sublist sub s"
  proof (induction s)
    case (Cons c s)
    then show ?case
      by (metis append_take_drop_id contains.simps(2) prefixI prefix_imp_sublist sublist_Cons_right)
  qed simp
  show "sublist sub s \<Longrightarrow> contains s sub"
    by (auto simp: sublist_def contains_infix)
qed

section \<open>Tables and SQL statements\<close>

text \<open>
  A table is the list of its rows. \<open>UPDATE t SET f WHERE p\<close> rewrites the rows that satisfy
  \<open>p\<close>; \<open>RowsAffected\<close> counts them; \<open>DELETE FROM t WHERE p\<close> keeps the others. A column that is
  \<open>NULL\<close> is \<open>None\<close>, and a comparison with \<open>NULL\<close> never selects a row.

  A \<open>SELECT\<close> reads the rows in an order the server chooses, the parameter \<open>scan\<close>; \<open>ORDER BY\<close>
  is a stable sort of what was scanned, so that every order of the ties is some scan order.
\<close>

definition sql_update :: "('r \<Rightarrow> bool) \<Rightarrow> ('r \<Rightarrow> 'r) \<Rightarrow> 'r list \<Rightarrow> 'r list" where
  "sql_update p f t = map (\<lambda>r. if p r then f r else r) t"

definition rows_affected :: "('r \<Rightarrow> bool) \<Rightarrow> 'r list \<Rightarrow> nat" where
  "rows_affected p t = length (filter p t)"

definition sql_delete :: "('r \<Rightarrow> bool) \<Rightarrow> 'r list \<Rightarrow> 'r list" where
  "sql_delete p t = filter (\<lambda>r. \<not> p r) t"

definition sql_select :: "('r list \<Rightarrow> 'r list) \<Rightarrow> ('r \<Rightarrow> bool) \<Rightarrow> 'r list \<Rightarrow> 'r list" where
  "sql_select scan p t = filter p (scan t)"

text \<open>\<open>ORDER BY k LIMIT n\<close> on the rows a \<open>SELECT\<close> produced.\<close>

definition order_limit :: "('r \<Rightarrow> 'k::linorder) \<Rightarrow> int \<Rightarrow> 'r list \<Rightarrow> 'r list" where
  "order_limit k n rows = take (nat n) (sort_key k rows)"

text \<open>An \<open>UPDATE\<close> whose \<open>SET\<close> expression may fail on a row: one failing row fails the statement.\<close>

definition sql_update_try ::
    "('r \<Rightarrow> bool) \<Rightarrow> ('r \<Rightarrow> 'r option) \<Rightarrow> 'r list \<Rightarrow> 'r list option" where
  "sql_update_try p f t =
     (if \<exists>r \<in> set t. p r \<and> f r = None then None
      else Some (map (\<lambda>r. if p r then the (f r) else r) t))"

text \<open>What is assumed of a scan: it returns the rows of the table, in some order.\<close>

definition scan_ok :: "('r list \<Rightarrow> 'r list) \<Rightarrow> bool" where
  "scan_ok scan \<longleftrightarrow> (\<forall>t. mset (scan t) = mset t)"

lemma scan_ok_id: "scan_ok (\<lambda>t. t)"
  by (simp add: scan_ok_def)

lemma scan_ok_rev: "scan_ok rev"
  by (simp add: scan_ok_def)

lemma set_scan: "scan_ok scan \<Longrightarrow> set (scan t) = set t"
  by (metis scan_ok_def set_mset_mset)

lemma length_scan: "scan_ok scan \<Longrightarrow> length (scan t) = length t"
  by (metis scan_ok_def size_mset)

lemma set_sql_select: "scan_ok scan \<Longrightarrow> set (sql_select scan p t) = {r \<in> set t. p r}"
  by (auto simp: sql_select_def set_scan)

lemma mset_sql_select:
  "scan_ok scan \<Longrightarrow> mset (sql_select scan p t) = filter_mset p (mset t)"
  by (metis sql_select_def scan_ok_def mset_filter)

lemma length_sql_select:
  "scan_ok scan \<Longrightarrow> length (sql_select scan p t) = rows_affected p t"
  by (metis mset_sql_select mset_filter rows_affected_def size_mset)

lemma set_order_limit_subset: "set (order_limit k n rows) \<subseteq> set rows"
  by (metis order_limit_def set_sort set_take_subset)

lemma length_order_limit: "length (order_limit k n rows) = min (length rows) (nat n)"
  by (simp add: order_limit_def)

lemma set_order_limit_all: "length rows \<le> nat n \<Longrightarrow> set (order_limit k n rows) = set rows"
  by (simp add: order_limit_def)

lemma sorted_order_limit: "sorted (map k (order_limit k n rows))"
  by (simp add: order_limit_def take_map [symmetric] sorted_wrt_take)

text \<open>\<open>LIMIT\<close> keeps the least rows: what it leaves out is not smaller than anything it returns.\<close>

lemma order_limit_least:
  assumes "x \<in> set rows" and "x \<notin> set (order_limit k n rows)"
    and "y \<in> set (order_limit k n rows)"
  shows "k y \<le> k x"
proof -
  let ?s = "sort_key k rows"
  have "x \<in> set (take (nat n) ?s) \<union> set (drop (nat n) ?s)"
    using assms(1) by (simp only: set_append [symmetric] append_take_drop_id set_sort)
  with assms(2) have x: "x \<in> set (drop (nat n) ?s)"
    by (simp add: order_limit_def)
  have "sorted (map k (take (nat n) ?s @ drop (nat n) ?s))"
    by (simp only: append_take_drop_id sorted_sort_key)
  then show ?thesis
    using assms(3) x by (auto simp: sorted_append order_limit_def simp del: append_take_drop_id)
qed

lemma set_sql_update:
  "set (sql_update p f t) = {r \<in> set t. \<not> p r} \<union> f ` {r \<in> set t. p r}"
  by (auto simp: sql_update_def)

lemma sql_update_noop: "\<forall>r \<in> set t. \<not> p r \<Longrightarrow> sql_update p f t = t"
  by (simp add: sql_update_def map_idI)

lemma rows_affected_0: "rows_affected p t = 0 \<longleftrightarrow> (\<forall>r \<in> set t. \<not> p r)"
  by (auto simp: rows_affected_def filter_empty_conv)

section \<open>Primary keys\<close>

definition lookup :: "('r \<Rightarrow> 'k) \<Rightarrow> 'k \<Rightarrow> 'r list \<Rightarrow> 'r option" where
  "lookup key k t = find (\<lambda>r. key r = k) t"

definition unique_key :: "('r \<Rightarrow> 'k) \<Rightarrow> 'r list \<Rightarrow> bool" where
  "unique_key key t \<longleftrightarrow> distinct (map key t)"

locale keyed_table =
  fixes key :: "'r \<Rightarrow> 'k"
begin

lemma lookup_Nil [simp]: "lookup key k [] = None"
  by (simp add: lookup_def)

lemma lookup_Cons [simp]:
  "lookup key k (r # t) = (if key r = k then Some r else lookup key k t)"
  by (simp add: lookup_def)

lemma lookup_append:
  "lookup key k (t @ u) = (case lookup key k t of None \<Rightarrow> lookup key k u | Some r \<Rightarrow> Some r)"
  by (induction t) auto

lemma lookup_SomeD: "lookup key k t = Some r \<Longrightarrow> r \<in> set t \<and> key r = k"
  by (induction t) (auto split: if_splits)

lemma lookup_None: "lookup key k t = None \<longleftrightarrow> k \<notin> key ` set t"
  by (induction t) auto

lemma lookup_unique: "unique_key key t \<Longrightarrow> r \<in> set t \<Longrightarrow> lookup key (key r) t = Some r"
  by (induction t) (auto simp: unique_key_def image_iff)

lemma lookup_iff: "unique_key key t \<Longrightarrow> lookup key k t = Some r \<longleftrightarrow> r \<in> set t \<and> key r = k"
  using lookup_unique lookup_SomeD by blast

lemma unique_eq: "unique_key key t \<Longrightarrow> r \<in> set t \<Longrightarrow> s \<in> set t \<Longrightarrow> key r = key s \<Longrightarrow> r = s"
  by (metis lookup_unique option.inject)

lemma filter_key: "unique_key key t \<Longrightarrow> r \<in> set t \<Longrightarrow> filter (\<lambda>x. key x = key r) t = [r]"
proof (induction t)
  case (Cons a t)
  then show ?case
    by (cases "a = r") (auto simp: unique_key_def filter_empty_conv image_iff)
qed simp

text \<open>An update that keeps the key acts on the row a lookup finds.\<close>

lemma lookup_update:
  "(\<And>r. key (f r) = key r) \<Longrightarrow>
    lookup key k (sql_update p f t) = map_option (\<lambda>r. if p r then f r else r) (lookup key k t)"
  by (induction t) (auto simp: sql_update_def)

lemma keys_update: "(\<And>r. key (f r) = key r) \<Longrightarrow> map key (sql_update p f t) = map key t"
  by (induction t) (auto simp: sql_update_def)

lemma unique_update:
  "(\<And>r. key (f r) = key r) \<Longrightarrow> unique_key key (sql_update p f t) \<longleftrightarrow> unique_key key t"
  by (simp only: unique_key_def keys_update)

lemma unique_insert: "unique_key key t \<Longrightarrow> lookup key (key r) t = None \<Longrightarrow> unique_key key (t @ [r])"
  by (auto simp: unique_key_def lookup_None)

lemma unique_delete: "unique_key key t \<Longrightarrow> unique_key key (sql_delete p t)"
  by (simp add: unique_key_def sql_delete_def distinct_map_filter)

lemma lookup_delete:
  "unique_key key t \<Longrightarrow>
    lookup key k (sql_delete p t) =
      (case lookup key k t of Some r \<Rightarrow> if p r then None else Some r | None \<Rightarrow> None)"
  using lookup_iff[OF unique_delete, of t k p] lookup_iff[of t k]
  by (auto simp: lookup_None sql_delete_def split: option.split dest: unique_eq)

text \<open>A statement that names the key touches at most one row.\<close>

lemma update_one:
  "unique_key key t \<Longrightarrow> rows_affected (\<lambda>r. key r = k \<and> p r) t \<le> 1"
proof (induction t)
  case (Cons r t)
  then have IH: "rows_affected (\<lambda>r. key r = k \<and> p r) t \<le> 1" by (simp add: unique_key_def)
  show ?case
  proof (cases "key r = k")
    case True
    with Cons.prems have "rows_affected (\<lambda>r. key r = k \<and> p r) t = 0"
      by (auto simp: rows_affected_0 unique_key_def image_iff)
    then show ?thesis by (simp add: rows_affected_def)
  next
    case False
    with IH show ?thesis by (simp add: rows_affected_def)
  qed
qed (simp add: rows_affected_def)

lemma exists_iff_lookup:
  "unique_key key t \<Longrightarrow>
    (\<exists>r \<in> set t. key r = k \<and> p r) \<longleftrightarrow> (\<exists>r. lookup key k t = Some r \<and> p r)"
  using lookup_iff by auto

lemma affected_0_iff_lookup:
  "unique_key key t \<Longrightarrow>
    rows_affected (\<lambda>r. key r = k \<and> p r) t = 0 \<longleftrightarrow>
      (case lookup key k t of None \<Rightarrow> True | Some r \<Rightarrow> \<not> p r)"
  by (auto simp: rows_affected_0 lookup_iff lookup_None split: option.split dest: unique_eq)

end

lemmas [sql_defs] = sql_update_def rows_affected_def sql_delete_def sql_select_def
  order_limit_def sql_update_try_def lookup_def

end
