(* ===== verification/GoInt.thy ===== *)
theory GoInt
  imports Prelude "HOL-Library.Log_Nat"
begin

text \<open>
  Go's 64-bit \<open>int\<close> arithmetic and the one float64 computation of the program.

  An \<open>int\<close> is an integer kept in range by \<open>wrap64\<close> wherever an operation can leave it.
  A float64 of magnitude between the subnormals and the overflow threshold is an integer with at
  most 53 significant bits times a power of two; \<open>round53\<close> rounds an integer to that form
  (to nearest, ties to even), so a product of two such numbers is rounded exactly as the hardware
  rounds it.
\<close>

section \<open>Wrap-around\<close>

definition wrap64 :: "int \<Rightarrow> int" where
  "wrap64 x = signed_take_bit 63 x"

lemma wrap64_id: "- (2 ^ 63) \<le> x \<Longrightarrow> x < 2 ^ 63 \<Longrightarrow> wrap64 x = x"
  by (simp add: wrap64_def signed_take_bit_int_eq_self)

lemma wrap64_range: "- (2 ^ 63) \<le> wrap64 x \<and> wrap64 x < 2 ^ 63"
  unfolding wrap64_def
  using signed_take_bit_int_greater_eq_minus_exp[of 63 x] signed_take_bit_int_less_exp[of 63 x]
  by simp

section \<open>Rounding to 53 bits\<close>

definition round53 :: "int \<Rightarrow> int" where
  "round53 n =
     (let e = nat (bitlen n - 53); q = n div 2 ^ e; r = n mod 2 ^ e
      in (if 2 ^ e < 2 * r \<or> (2 * r = 2 ^ e \<and> odd q) then q + 1 else q) * 2 ^ e)"

definition float64 :: "int \<Rightarrow> int" where
  "float64 x = sgn x * round53 \<bar>x\<bar>"

text \<open>
  The literal \<open>0.2\<close> is the double \<open>3602879701896397 / 2^54\<close>, a little more than a fifth.
  \<open>int(float64(d) * 0.2)\<close> multiplies, rounds, and truncates towards zero.
\<close>

definition fifth_of :: "int \<Rightarrow> int" where
  "fifth_of d =
     (let p = float64 (float64 d * 3602879701896397) in sgn p * (\<bar>p\<bar> div 2 ^ 54))"

lemma round53_bounds:
  assumes "0 \<le> n"
  defines "e \<equiv> nat (bitlen n - 53)"
  shows "(n div 2 ^ e) * 2 ^ e \<le> round53 n" and "round53 n \<le> (n div 2 ^ e) * 2 ^ e + 2 ^ e"
  by (auto simp: round53_def Let_def e_def algebra_simps)

lemma round53_small: "0 \<le> n \<Longrightarrow> n < 2 ^ 53 \<Longrightarrow> round53 n = n"
proof -
  assume n: "0 \<le> n" "n < 2 ^ 53"
  have "bitlen n \<le> 53"
    using n bitlen_le_iff_power[of n 53] by simp
  then show ?thesis by (simp add: round53_def)
qed

lemma round53_nonneg: "0 \<le> n \<Longrightarrow> 0 \<le> round53 n"
  by (rule order_trans[OF _ round53_bounds(1)]) (auto intro: mult_nonneg_nonneg simp: pos_imp_zdiv_nonneg_iff)

lemma bitlen_66: "0 \<le> n \<Longrightarrow> n < 2 ^ 66 \<Longrightarrow> nat (bitlen n - 53) \<le> 13"
  using bitlen_le_iff_power[of n 66] by simp

text \<open>Rounding never crosses a multiple of \<open>2 ^ 54\<close> downwards.\<close>

lemma round53_ge_multiple:
  assumes "0 \<le> n" "n < 2 ^ 66" "k * 2 ^ 54 \<le> n"
  shows "k * 2 ^ 54 \<le> round53 n"
proof -
  define e where "e = nat (bitlen n - 53)"
  have e: "e \<le> 13" using bitlen_66 assms by (simp add: e_def)
  then have split: "(2::int) ^ 54 = 2 ^ (54 - e) * 2 ^ e"
    by (simp flip: power_add)
  have "k * 2 ^ (54 - e) * 2 ^ e \<le> n"
    using assms(3) unfolding split by (simp add: mult.assoc)
  then have "k * 2 ^ (54 - e) \<le> n div 2 ^ e"
    using zdiv_mono1[of "k * 2 ^ (54 - e) * 2 ^ e" n "2 ^ e"] by simp
  then have "k * 2 ^ (54 - e) * 2 ^ e \<le> (n div 2 ^ e) * 2 ^ e"
    by (rule mult_right_mono) simp
  also have "\<dots> \<le> round53 n"
    using round53_bounds(1)[of n] assms(1) by (simp add: e_def)
  finally show ?thesis unfolding split by (simp add: mult.assoc)
qed

lemma round53_le:
  assumes "0 \<le> n" "n < 2 ^ 66"
  shows "round53 n \<le> n + 2 ^ 13"
proof -
  define e where "e = nat (bitlen n - 53)"
  have e: "e \<le> 13" using bitlen_66 assms by (simp add: e_def)
  have "round53 n \<le> (n div 2 ^ e) * 2 ^ e + 2 ^ e"
    using round53_bounds(2)[of n] assms(1) by (simp add: e_def)
  also have "(n div 2 ^ e) * 2 ^ e \<le> n"
    by (simp add: minus_mod_eq_div_mult [symmetric])
  also have "(2::int) ^ e \<le> 2 ^ 13"
    using e by (rule power_increasing) simp
  finally show ?thesis by simp
qed

text \<open>On the delays the program computes, the float expression is the integer fifth.\<close>

lemma fifth_of_eq:
  assumes "0 \<le> d" "d \<le> 3600"
  shows "fifth_of d = d div 5"
proof -
  let ?n = "d * 3602879701896397"
  have "round53 d = d" using assms by (intro round53_small) auto
  then have "float64 d = d" using assms by (auto simp: float64_def sgn_if)
  moreover have n0: "0 \<le> ?n" using assms by simp
  ultimately have p: "float64 (float64 d * 3602879701896397) = round53 ?n"
    using assms round53_small[of 0] by (cases "d = 0") (auto simp: float64_def sgn_if)
  have n: "?n < 2 ^ 66" using assms by simp
  have 5: "5 * ?n = d * 2 ^ 54 + d" by simp
  have "d div 5 * 2 ^ 54 \<le> ?n"
  proof -
    have "5 * (d div 5) \<le> d" by simp
    then have "5 * (d div 5 * 2 ^ 54) \<le> d * 2 ^ 54" by simp
    with 5 assms show ?thesis by linarith
  qed
  from round53_ge_multiple[OF n0 n this] have lo: "d div 5 * 2 ^ 54 \<le> round53 ?n" .
  have "round53 ?n \<le> ?n + 2 ^ 13" by (rule round53_le[OF n0 n])
  also have "?n + 2 ^ 13 < (d div 5 + 1) * 2 ^ 54"
  proof -
    have "d + 1 \<le> 5 * (d div 5) + 5" by presburger
    then have "(d + 1) * 2 ^ 54 \<le> (5 * (d div 5) + 5) * 2 ^ 54" by simp
    then have "d * 2 ^ 54 + 2 ^ 54 \<le> 5 * ((d div 5 + 1) * 2 ^ 54)" by (simp add: algebra_simps)
    with 5 assms show ?thesis by simp
  qed
  finally have hi: "round53 ?n < (d div 5 + 1) * 2 ^ 54" .
  have "round53 ?n div 2 ^ 54 = d div 5"
    by (rule int_div_pos_eq [of _ _ _ "round53 ?n - d div 5 * 2 ^ 54"])
      (use lo hi in \<open>auto simp: algebra_simps\<close>)
  moreover have "0 \<le> round53 ?n" by (rule round53_nonneg[OF n0])
  ultimately show ?thesis
    unfolding fifth_of_def Let_def p by (auto simp: sgn_if)
qed

lemma fifth_of_nonpos: "d \<le> 0 \<Longrightarrow> fifth_of d \<le> 0"
proof -
  assume d: "d \<le> 0"
  have "float64 d \<le> 0"
    using d round53_nonneg[of "\<bar>d\<bar>"] by (auto simp: float64_def sgn_if)
  then have "float64 (float64 d * 3602879701896397) \<le> 0"
    using round53_nonneg[of "\<bar>float64 d * 3602879701896397\<bar>"]
    by (auto simp: float64_def [of "float64 d * 3602879701896397"] sgn_if zero_less_mult_iff)
  then show ?thesis
    by (auto simp: fifth_of_def Let_def sgn_if pos_imp_zdiv_nonneg_iff)
qed

end
