(* ===== verification/GoText.thy ===== *)
theory GoText
  imports Prelude "HOL-Library.Char_ord"
begin

text \<open>
  The text functions of the Go standard library that the program uses: decimal printing (\<open>%d\<close>),
  \<open>strconv.Atoi\<close>, \<open>strings.SplitN(s, " ", 2)\<close>, \<open>strings.TrimSpace\<close> and \<open>strings.EqualFold\<close> (on ASCII),
  and the canonical form of HTTP header names.
\<close>

section \<open>Numbers\<close>

definition digit :: "nat \<Rightarrow> char" where
  "digit n = char_of (48 + n)"

fun nat_str :: "nat \<Rightarrow> string" where
  "nat_str n = (if n < 10 then [digit n] else nat_str (n div 10) @ [digit (n mod 10)])"

declare nat_str.simps [simp del]

definition int_str :: "int \<Rightarrow> string" where
  "int_str i = (if i < 0 then CHR ''-'' # nat_str (nat (- i)) else nat_str (nat i))"

definition digit_val :: "char \<Rightarrow> nat option" where
  "digit_val c = (let n = of_char c in if 48 \<le> n \<and> n \<le> (57 :: nat) then Some (n - 48) else None)"

fun digits_val :: "nat \<Rightarrow> string \<Rightarrow> nat option" where
  "digits_val acc [] = Some acc"
| "digits_val acc (c # cs) = Option.bind (digit_val c) (\<lambda>n. digits_val (10 * acc + n) cs)"

definition unsigned_val :: "string \<Rightarrow> nat option" where
  "unsigned_val s = (if s = [] then None else digits_val 0 s)"

text \<open>A sign, at least one digit, and a value of 64 bits.\<close>

definition Atoi :: "string \<Rightarrow> int option" where
  "Atoi s =
     (let (neg, ds) = (case s of
          [] \<Rightarrow> (False, [])
        | c # cs \<Rightarrow> if c = CHR ''-'' then (True, cs) else if c = CHR ''+'' then (False, cs) else (False, s))
      in case unsigned_val ds of
           None \<Rightarrow> None
         | Some n \<Rightarrow>
             let v = (if neg then - int n else int n) in
             if - (2 ^ 63) \<le> v \<and> v < 2 ^ 63 then Some v else None)"

section \<open>Case, spaces, headers\<close>

definition ascii_lower :: "char \<Rightarrow> char" where
  "ascii_lower c = (if CHR ''A'' \<le> c \<and> c \<le> CHR ''Z'' then char_of (of_char c + (32 :: nat)) else c)"

definition ascii_upper :: "char \<Rightarrow> char" where
  "ascii_upper c = (if CHR ''a'' \<le> c \<and> c \<le> CHR ''z'' then char_of (of_char c - (32 :: nat)) else c)"

definition EqualFold :: "string \<Rightarrow> string \<Rightarrow> bool" where
  "EqualFold a b \<longleftrightarrow> map ascii_lower a = map ascii_lower b"

text \<open>\<open>SplitN(s, " ", 2)\<close>: one part when there is no space, else what is before and after the first one.\<close>

definition SplitN2 :: "string \<Rightarrow> string list" where
  "SplitN2 s = (case dropWhile (\<lambda>c. c \<noteq> CHR '' '') s of
     [] \<Rightarrow> [s]
   | _ # rest \<Rightarrow> [takeWhile (\<lambda>c. c \<noteq> CHR '' '') s, rest])"

definition is_space :: "char \<Rightarrow> bool" where
  "is_space c \<longleftrightarrow> (let n = of_char c :: nat in n = 32 \<or> (9 \<le> n \<and> n \<le> 13))"

definition TrimSpace :: "string \<Rightarrow> string" where
  "TrimSpace s = rev (dropWhile is_space (rev (dropWhile is_space s)))"

text \<open>\<open>CanonicalMIMEHeaderKey\<close>: unchanged when a byte is not a token character, else upper case at the
  start and after a hyphen, lower case elsewhere.\<close>

definition is_token_char :: "char \<Rightarrow> bool" where
  "is_token_char c \<longleftrightarrow>
     (CHR ''a'' \<le> c \<and> c \<le> CHR ''z'') \<or> (CHR ''A'' \<le> c \<and> c \<le> CHR ''Z'') \<or> digit_val c \<noteq> None \<or>
     c \<in> set ''!#$%&*+-.^_|~'' \<or> of_char c = (39 :: nat) \<or> of_char c = (96 :: nat)"

fun canonical_from :: "bool \<Rightarrow> string \<Rightarrow> string" where
  "canonical_from up [] = []"
| "canonical_from up (c # cs) = (if up then ascii_upper c else ascii_lower c) # canonical_from (c = CHR ''-'') cs"

definition CanonicalHeaderKey :: "string \<Rightarrow> string" where
  "CanonicalHeaderKey s = (if list_all is_token_char s then canonical_from True s else s)"

section \<open>Lemmas\<close>

lemma EqualFold_refl [simp]: "EqualFold a a"
  by (simp add: EqualFold_def)

lemma EqualFold_length: "EqualFold a b \<Longrightarrow> length a = length b"
  unfolding EqualFold_def by (metis length_map)

lemma digit_val_digit: "n < 10 \<Longrightarrow> digit_val (digit n) = Some n"
  by (simp add: digit_val_def digit_def Let_def)

lemma digits_val_append:
  "digits_val acc (xs @ ys) = Option.bind (digits_val acc xs) (\<lambda>a. digits_val a ys)"
  by (induction acc xs rule: digits_val.induct) (auto split: bind_split)

lemma nat_str_nonempty: "nat_str n \<noteq> []"
  by (subst nat_str.simps) simp

lemma digits_val_nat_str: "digits_val 0 (nat_str n) = Some n"
proof (induction n rule: nat_str.induct)
  case (1 n)
  then show ?case
    by (subst nat_str.simps) (auto simp: digits_val_append digit_val_digit)
qed

lemma nat_str_no_sign: "c \<in> set (nat_str n) \<Longrightarrow> c \<noteq> CHR ''-'' \<and> c \<noteq> CHR ''+'' \<and> c \<noteq> CHR '':''"
proof (induction n rule: nat_str.induct)
  case (1 n)
  have d: "digit m \<noteq> CHR ''-'' \<and> digit m \<noteq> CHR ''+'' \<and> digit m \<noteq> CHR '':''" if "m < 10" for m
  proof -
    have "digit_val (CHR ''-'') = None" "digit_val (CHR ''+'') = None" "digit_val (CHR '':'') = None" by code_simp+
    then show ?thesis using digit_val_digit[OF that] by auto
  qed
  then show ?case using 1 by (subst (asm) nat_str.simps) (auto split: if_splits)
qed

lemma unsigned_nat_str: "unsigned_val (nat_str n) = Some n"
  by (simp add: unsigned_val_def nat_str_nonempty digits_val_nat_str)

lemma Atoi_int_str:
  assumes "- (2 ^ 63) \<le> i" "i < 2 ^ 63"
  shows "Atoi (int_str i) = Some i"
proof (cases "i < 0")
  case True
  then show ?thesis using assms by (simp add: Atoi_def int_str_def unsigned_nat_str)
next
  case False
  obtain c cs where c: "nat_str (nat i) = c # cs" using nat_str_nonempty by (cases "nat_str (nat i)") auto
  then have "c \<noteq> CHR ''-''" "c \<noteq> CHR ''+''" using nat_str_no_sign[of c "nat i"] by auto
  then show ?thesis
    using False assms c unsigned_nat_str[of "nat i"] by (simp add: Atoi_def int_str_def)
qed

lemma nat_str_inj: "nat_str m = nat_str n \<Longrightarrow> m = n"
  by (metis digits_val_nat_str option.inject)

lemma int_str_inj: "int_str i = int_str k \<Longrightarrow> i = k"
proof (cases "i < 0"; cases "k < 0")
  assume "int_str i = int_str k" "i < 0" "\<not> k < 0"
  then have "CHR ''-'' \<in> set (nat_str (nat k))" by (auto simp: int_str_def dest: sym)
  then show ?thesis using nat_str_no_sign by blast
next
  assume "int_str i = int_str k" "\<not> i < 0" "k < 0"
  then have "CHR ''-'' \<in> set (nat_str (nat i))" by (auto simp: int_str_def)
  then show ?thesis using nat_str_no_sign by blast
qed (auto simp: int_str_def dest: nat_str_inj)

lemma int_str_no_colon: "CHR '':'' \<notin> set (int_str i)"
  using nat_str_no_sign[of "CHR '':''"] by (auto simp: int_str_def)

end
