(* ===== verification/Json.thy ===== *)
theory Json
  imports GoText
begin

text \<open>
  JSON values and what \<open>encoding/json\<close> does when it decodes one into a struct. A body, a payload or a
  job template is modelled by its value; \<open>json.RawMessage\<close> keeps the value, absent (length 0) being
  \<open>None\<close>. A number literal without fraction and exponent is \<open>JInt\<close>, any other one \<open>JReal\<close> with its text.

  Decoding a struct goes through the members of the object in order; a member belongs to the field
  whose name it equals up to case (of ASCII letters), so a later duplicate overwrites an earlier one;
  unknown members are skipped; a value of the wrong type fails the call; \<open>null\<close> clears a pointer and
  leaves a plain field as it was.
\<close>

datatype json =
    JNull
  | JBool bool
  | JInt int
  | JReal string
  | JStr string
  | JArr "json list"
  | JObj "(string \<times> json) list"

section \<open>Members\<close>

definition occurrences :: "string \<Rightarrow> (string \<times> json) list \<Rightarrow> json list" where
  "occurrences name ms = map snd (filter (\<lambda>(k, v). EqualFold k name) ms)"

section \<open>Fields\<close>

fun dec_all :: "('a \<Rightarrow> json \<Rightarrow> 'a option) \<Rightarrow> json list \<Rightarrow> 'a \<Rightarrow> 'a option" where
  "dec_all dec [] x = Some x"
| "dec_all dec (v # vs) x = Option.bind (dec x v) (dec_all dec vs)"

text \<open>The value of the field \<open>name\<close> after decoding \<open>v\<close> into a struct where it held \<open>x\<close>.\<close>

fun field :: "('a \<Rightarrow> json \<Rightarrow> 'a option) \<Rightarrow> string \<Rightarrow> 'a \<Rightarrow> json \<Rightarrow> 'a option" where
  "field dec name x (JObj ms) = dec_all dec (occurrences name ms) x"
| "field dec name x JNull = Some x"
| "field dec name x _ = None"

fun dec_string :: "string \<Rightarrow> json \<Rightarrow> string option" where
  "dec_string x (JStr s) = Some s"
| "dec_string x JNull = Some x"
| "dec_string x _ = None"

fun dec_string_ptr :: "string option \<Rightarrow> json \<Rightarrow> string option option" where
  "dec_string_ptr x (JStr s) = Some (Some s)"
| "dec_string_ptr x JNull = Some None"
| "dec_string_ptr x _ = None"

text \<open>A pointer to an integer of \<open>w\<close> bits: \<open>*int16\<close>, \<open>*int\<close>.\<close>

fun dec_int_ptr :: "nat \<Rightarrow> int option \<Rightarrow> json \<Rightarrow> int option option" where
  "dec_int_ptr w x (JInt n) = (if - (2 ^ (w - 1)) \<le> n \<and> n < 2 ^ (w - 1) then Some (Some n) else None)"
| "dec_int_ptr w x JNull = Some None"
| "dec_int_ptr w x _ = None"

fun dec_raw :: "json option \<Rightarrow> json \<Rightarrow> json option option" where
  "dec_raw x v = Some (Some v)"

text \<open>\<open>map[string]string\<close>, as an association list with one entry per key; \<open>null\<close> decodes to the empty string.\<close>

fun put :: "string \<Rightarrow> string \<Rightarrow> (string \<times> string) list \<Rightarrow> (string \<times> string) list" where
  "put k v [] = [(k, v)]"
| "put k v ((k', v') # m) = (if k = k' then (k, v) # m else (k', v') # put k v m)"

fun dec_members :: "(string \<times> string) list \<Rightarrow> (string \<times> json) list \<Rightarrow> (string \<times> string) list option" where
  "dec_members m [] = Some m"
| "dec_members m ((k, v) # ms) = Option.bind (dec_string [] v) (\<lambda>s. dec_members (put k s m) ms)"

fun dec_string_map :: "(string \<times> string) list \<Rightarrow> json \<Rightarrow> (string \<times> string) list option" where
  "dec_string_map m (JObj ms) = dec_members m ms"
| "dec_string_map m JNull = Some []"
| "dec_string_map m _ = None"

section \<open>Lemmas\<close>

lemma occurrences_Nil [simp]: "occurrences name [] = []"
  by (simp add: occurrences_def)

lemma occurrences_Cons [simp]:
  "occurrences name ((k, v) # ms) = (if EqualFold k name then v # occurrences name ms else occurrences name ms)"
  by (simp add: occurrences_def)

lemma map_of_put: "map_of (put k v m) = (map_of m)(k \<mapsto> v)"
  by (induction k v m rule: put.induct) auto

lemma dec_members_keys: "dec_members m ms = Some m' \<Longrightarrow> fst ` set m' = fst ` set m \<union> fst ` set ms"
proof (induction m ms arbitrary: m' rule: dec_members.induct)
  case (2 m k v ms)
  have "fst ` set (put k s m) = insert k (fst ` set m)" for s
    by (metis dom_fun_upd dom_map_of_conv_image_fst map_of_put option.distinct(1))
  with 2 show ?case by (simp add: bind_eq_Some_conv) blast
qed simp

end
