(* ===== verification/Job.thy ===== *)
theory Job
  imports GoInt Json
begin

text \<open>
  internal/job/job.go: the states of a job, the job record, the retry rule and the backoff.

  \<open>State\<close> is the enum of the schema and of the Go constants, ordered as the schema declares it.
  The integer fields are Go \<open>int\<close>/\<open>int16\<close> values. \<open>rand.Intn\<close> is the parameter \<open>intn\<close>.
\<close>

section \<open>States\<close>

datatype State =
    StatePending | StateScheduled | StateClaimed | StateRunning
  | StateSucceeded | StateFailed | StateDead

fun state_string :: "State \<Rightarrow> string" where
  "state_string StatePending = ''pending''"
| "state_string StateScheduled = ''scheduled''"
| "state_string StateClaimed = ''claimed''"
| "state_string StateRunning = ''running''"
| "state_string StateSucceeded = ''succeeded''"
| "state_string StateFailed = ''failed''"
| "state_string StateDead = ''dead''"

definition all_states :: "State list" where
  "all_states = [StatePending, StateScheduled, StateClaimed, StateRunning,
     StateSucceeded, StateFailed, StateDead]"

text \<open>The cast of a string to the enum \<open>job_state\<close>; it fails on any other string.\<close>

definition parse_state :: "string \<Rightarrow> State option" where
  "parse_state s = find (\<lambda>st. state_string st = s) all_states"

lemma parse_state_string [simp]: "parse_state (state_string st) = Some st"
  by (cases st) (simp_all add: parse_state_def all_states_def)

lemma state_string_inj [simp]: "state_string a = state_string b \<longleftrightarrow> a = b"
  by (metis parse_state_string option.inject)

lemma set_all_states: "set all_states = UNIV"
  using State.exhaust by (auto simp: all_states_def)

instantiation State :: linorder
begin

fun rank :: "State \<Rightarrow> nat" where
  "rank StatePending = 0"
| "rank StateScheduled = 1"
| "rank StateClaimed = 2"
| "rank StateRunning = 3"
| "rank StateSucceeded = 4"
| "rank StateFailed = 5"
| "rank StateDead = 6"

definition less_eq_State :: "State \<Rightarrow> State \<Rightarrow> bool" where
  "less_eq_State a b \<longleftrightarrow> rank a \<le> rank b"

definition less_State :: "State \<Rightarrow> State \<Rightarrow> bool" where
  "less_State a b \<longleftrightarrow> rank a < rank b"

instance
proof
  fix a b :: State
  show "a \<le> b \<Longrightarrow> b \<le> a \<Longrightarrow> a = b"
    by (cases a; cases b) (simp_all add: less_eq_State_def)
qed (auto simp: less_eq_State_def less_State_def)

end

section \<open>The job record\<close>

definition PriorityHigh :: int where
  "PriorityHigh = 1"

definition PriorityNormal :: int where
  "PriorityNormal = 5"

definition PriorityLow :: int where
  "PriorityLow = 10"

record job =
  jID :: uuid
  jTenantID :: uuid
  jType :: string
  jPayload :: "json option"
  jPriority :: int
  jState :: State
  jRunAt :: time
  jClaimedAt :: "time option"
  jClaimedBy :: "string option"
  jClaimToken :: "uuid option"
  jDeadline :: "time option"
  jAttempt :: int
  jMaxRetries :: int
  jBackoffSeconds :: int
  jIdempotencyKey :: "string option"
  jLastError :: "string option"
  jCreatedAt :: time
  jCompletedAt :: "time option"

definition IsTerminal :: "job \<Rightarrow> bool" where
  "IsTerminal j \<longleftrightarrow> jState j = StateSucceeded \<or> jState j = StateDead"

definition ShouldRetry :: "job \<Rightarrow> bool" where
  "ShouldRetry j \<longleftrightarrow> jAttempt j < jMaxRetries j"

section \<open>Backoff\<close>

text \<open>\<open>for i := 0; i < attempt && delay < 3600; i++ { delay *= 2 }\<close>\<close>

function backoff_loop :: "int \<Rightarrow> int \<Rightarrow> int \<Rightarrow> int" where
  "backoff_loop i attempt delay =
     (if i < attempt \<and> delay < 3600
      then backoff_loop (i + 1) attempt (wrap64 (delay * 2)) else delay)"
  by pat_completeness auto
termination
  by (relation "measure (\<lambda>(i, attempt, delay). nat (attempt - i))") auto

declare backoff_loop.simps [simp del]

definition backoff_base :: "int \<Rightarrow> int \<Rightarrow> int" where
  "backoff_base attempt backoffSeconds =
     (let delay = backoff_loop 0 attempt backoffSeconds
      in if delay > 3600 then 3600 else delay)"

definition NextRetryAt :: "(int \<Rightarrow> int) \<Rightarrow> int \<Rightarrow> int \<Rightarrow> time \<Rightarrow> time" where
  "NextRetryAt intn attempt backoffSeconds now =
     (let delay = backoff_base attempt backoffSeconds;
          jitter = fifth_of delay;
          delay' = (if jitter > 0 then delay + (intn (2 * jitter + 1) - jitter) else delay)
      in now + wrap64 (delay' * second))"

text \<open>What \<open>rand.Intn(n)\<close> promises for positive \<open>n\<close>.\<close>

definition intn_ok :: "(int \<Rightarrow> int) \<Rightarrow> bool" where
  "intn_ok intn \<longleftrightarrow> (\<forall>n > 0. 0 \<le> intn n \<and> intn n < n)"

lemma backoff_loop_stop: "\<not> (i < attempt \<and> delay < 3600) \<Longrightarrow> backoff_loop i attempt delay = delay"
  by (subst backoff_loop.simps) auto

lemma pow2_nat_Suc: "i < n \<Longrightarrow> (2::int) ^ nat (n - i) = 2 * 2 ^ nat (n - (i + 1))"
  by (simp flip: power_Suc add: Suc_nat_eq_nat_zadd1)

text \<open>The loop stops doubling at the cap, so the capped result is that of doubling all the way.\<close>

lemma backoff_loop_closed:
  "0 \<le> delay \<Longrightarrow> min 3600 (backoff_loop i attempt delay) = min 3600 (delay * 2 ^ nat (attempt - i))"
proof (induction i attempt delay rule: backoff_loop.induct)
  case (1 i attempt delay)
  show ?case
  proof (cases "i < attempt \<and> delay < 3600")
    case True
    then have w: "wrap64 (delay * 2) = delay * 2"
      using "1.prems" by (intro wrap64_id) auto
    have "min 3600 (backoff_loop (i + 1) attempt (delay * 2)) =
        min 3600 (delay * 2 * 2 ^ nat (attempt - (i + 1)))"
      using "1.IH"[OF True] "1.prems" by (simp add: w)
    with True show ?thesis
      by (simp add: backoff_loop.simps[of i attempt delay] w pow2_nat_Suc mult.assoc)
  next
    case False
    have "delay * 1 \<le> delay * 2 ^ nat (attempt - i)"
      using "1.prems" by (intro mult_left_mono) auto
    with False show ?thesis by (auto simp: backoff_loop_stop not_less min_def)
  qed
qed

lemma backoff_base_closed:
  "0 \<le> b \<Longrightarrow> backoff_base attempt b = min 3600 (b * 2 ^ nat attempt)"
  using backoff_loop_closed[of b 0 attempt] by (auto simp: backoff_base_def Let_def min_def split: if_splits)

lemma backoff_base_range: "0 \<le> b \<Longrightarrow> 0 \<le> backoff_base attempt b \<and> backoff_base attempt b \<le> 3600"
  by (simp add: backoff_base_closed)

lemma backoff_base_pos: "0 < b \<Longrightarrow> 0 < backoff_base attempt b"
  by (simp add: backoff_base_closed)

lemma backoff_base_mono:
  "0 \<le> b \<Longrightarrow> m \<le> n \<Longrightarrow> backoff_base m b \<le> backoff_base n b"
  by (auto simp: backoff_base_closed min_le_iff_disj intro!: mult_left_mono power_increasing nat_mono)

text \<open>The jitter moves the delay by at most a fifth.\<close>

lemma NextRetryAt_eq:
  fixes attempt b :: int
  assumes "0 \<le> b" "intn_ok intn"
  defines "d \<equiv> backoff_base attempt b"
  obtains k where "NextRetryAt intn attempt b now = now + k * second"
    and "d - d div 5 \<le> k" and "k \<le> d + d div 5"
proof -
  have d: "0 \<le> d" "d \<le> 3600" using backoff_base_range assms by (auto simp: d_def)
  then have f: "fifth_of d = d div 5" by (rule fifth_of_eq)
  define k where
    "k = (if d div 5 > 0 then d + (intn (2 * (d div 5) + 1) - d div 5) else d)"
  have j: "0 \<le> d div 5" "d div 5 \<le> 720" using d by auto
  have "0 < 2 * (d div 5) + 1" using j by simp
  then have r: "0 \<le> intn (2 * (d div 5) + 1)" "intn (2 * (d div 5) + 1) < 2 * (d div 5) + 1"
    using assms(2) unfolding intn_ok_def by blast+
  have k: "d - d div 5 \<le> k" "k \<le> d + d div 5"
    using r j by (auto simp: k_def)
  have "wrap64 (k * second) = k * second"
    using k d j by (intro wrap64_id) (auto simp: second_def)
  then have "NextRetryAt intn attempt b now = now + k * second"
    unfolding NextRetryAt_def Let_def d_def [symmetric] f k_def by simp
  with k show thesis using that by blast
qed

section \<open>Properties\<close>

text \<open>C29. The exponential backoff is what its comment promises: for a non-negative base the retry
  time lies within a fifth of \<open>min 3600 (base * 2 ^ attempt)\<close> seconds from now, whatever
  number the random source returns; the doubling loop, the cap, the float64 jitter and the
  64-bit duration arithmetic introduce no other deviation.\<close>

theorem NextRetryAt_window:
  assumes "0 \<le> b" and "intn_ok intn"
  shows "now + (min 3600 (b * 2 ^ nat attempt) - min 3600 (b * 2 ^ nat attempt) div 5) * second
      \<le> NextRetryAt intn attempt b now \<and>
    NextRetryAt intn attempt b now
      \<le> now + (min 3600 (b * 2 ^ nat attempt) + min 3600 (b * 2 ^ nat attempt) div 5) * second"
proof -
  obtain k where "NextRetryAt intn attempt b now = now + k * second"
    and "backoff_base attempt b - backoff_base attempt b div 5 \<le> k"
    and "k \<le> backoff_base attempt b + backoff_base attempt b div 5"
    using NextRetryAt_eq[OF assms, of attempt now] by blast
  then show ?thesis
    by (simp add: backoff_base_closed[OF assms(1)] second_def)
qed

theorem NextRetryAt_window_witness:
  "intn_ok (\<lambda>n. n - 1) \<and> NextRetryAt (\<lambda>n. n - 1) 3 30 0 = 288 * second \<and>
   (192 * second \<le> NextRetryAt (\<lambda>n. n - 1) 3 30 0 \<and> NextRetryAt (\<lambda>n. n - 1) 3 30 0 \<le> 288 * second)"
proof -
  have i: "intn_ok (\<lambda>n. n - 1)" by (simp add: intn_ok_def)
  have "NextRetryAt (\<lambda>n. n - 1) 3 30 0 = 288 * second"
    by (simp add: NextRetryAt_def backoff_base_closed fifth_of_eq wrap64_id second_def Let_def)
  with i NextRetryAt_window[of 30 "\<lambda>n. n - 1" 0 3] show ?thesis by simp
qed

end
