(* ===== verification/Store.thy ===== *)
theory Store
  imports Job
begin

text \<open>
  internal/storage/storage.go: the tables and every operation on jobs, runs and the dead-letter
  table. Schedules, tenants and the dashboard queries are in the theory \<open>Store_Admin\<close>.

  An operation is a function of the database. What the server, the driver and the clock decide
  during one call is its first argument, a record \<open>env\<close>:
  \<^item> \<open>stmt_err e i\<close>: the error the driver reports for the \<open>i\<close>-th statement of the call (counting
    \<open>Begin\<close> and \<open>Commit\<close>), if it reports one; a cancelled context makes every statement fail;
  \<^item> \<open>applied e\<close>: whether a statement or commit that was reported as failed took effect anyway
    (the reply was lost);
  \<^item> \<open>go_now e\<close>, \<open>pg_now e\<close>: \<open>time.Now()\<close> in the process and \<open>NOW()\<close> in the server;
  \<^item> \<open>locked e\<close>: whether another transaction holds the row lock when \<open>SKIP LOCKED\<close> asks for it;
  \<^item> \<open>unique_msg e\<close>, \<open>value_msg e\<close>: the text of the error for a violated unique constraint and for a
    value a column, cast or expression does not accept.
\<close>

section \<open>Tables\<close>

record job_run =
  rID :: uuid
  rJobID :: uuid
  rTenantID :: uuid
  rAttempt :: int
  rStartedAt :: time
  rFinishedAt :: "time option"
  rState :: State
  rError :: "string option"
  rDurationMs :: "int option"

record dead_letter_row =
  dlJobID :: uuid
  dlTenantID :: uuid
  dlMovedAt :: time
  dlFinalError :: "string option"
  dlAttemptCount :: int
  dlOriginalJob :: job

record Schedule =
  sID :: uuid
  sTenantID :: uuid
  sName :: string
  sCron :: string
  sTimezone :: string
  sJobTemplate :: "json option"
  sEnabled :: bool
  sLastRunAt :: "time option"
  sNextRunAt :: time

record Tenant =
  tID :: uuid
  tName :: string
  tAPIKey :: string
  tRateLimit :: int
  tWeight :: int
  tStatus :: string

record db =
  jobs :: "job list"
  job_runs :: "job_run list"
  dead_letter :: "dead_letter_row list"
  schedules :: "Schedule list"
  tenants :: "Tenant list"

section \<open>Calls to the server\<close>

record env =
  stmt_err :: "nat \<Rightarrow> string option"
  applied :: bool
  go_now :: time
  pg_now :: time
  locked :: bool
  unique_msg :: string
  value_msg :: string

text \<open>A call in which every statement succeeds.\<close>

definition calm :: "env \<Rightarrow> bool" where
  "calm e \<longleftrightarrow> stmt_err e = (\<lambda>_. None)"

definition autocommit ::
    "env \<Rightarrow> nat \<Rightarrow> (err \<Rightarrow> err) \<Rightarrow> db \<Rightarrow> db \<times> 'a res \<Rightarrow> db \<times> 'a res" where
  "autocommit e i wrap d ok =
     (case stmt_err e i of
        None \<Rightarrow> ok
      | Some m \<Rightarrow> (if applied e then fst ok else d, Inl (wrap (Driver m))))"

text \<open>
  A statement inside a transaction: when it fails, the function returns and the deferred
  \<open>Rollback\<close> leaves the database as it was at \<open>Begin\<close>.
\<close>

definition in_tx ::
    "env \<Rightarrow> nat \<Rightarrow> (err \<Rightarrow> err) \<Rightarrow> db \<Rightarrow> db \<times> 'a res \<Rightarrow> db \<times> 'a res" where
  "in_tx e i wrap d rest =
     (case stmt_err e i of
        None \<Rightarrow> rest
      | Some m \<Rightarrow> (d, Inl (wrap (Driver m))))"

definition query :: "env \<Rightarrow> nat \<Rightarrow> (err \<Rightarrow> err) \<Rightarrow> 'a res \<Rightarrow> 'a res" where
  "query e i wrap r =
     (case stmt_err e i of None \<Rightarrow> r | Some m \<Rightarrow> Inl (wrap (Driver m)))"

definition int2_ok :: "int \<Rightarrow> bool" where
  "int2_ok x \<longleftrightarrow> - 32768 \<le> x \<and> x < 32768"

definition int4_ok :: "int \<Rightarrow> bool" where
  "int4_ok x \<longleftrightarrow> - 2147483648 \<le> x \<and> x < 2147483648"

definition in_flight :: "State \<Rightarrow> bool" where
  "in_flight s \<longleftrightarrow> s = StateClaimed \<or> s = StateRunning"

section \<open>Inserting and reading jobs\<close>

definition isUniqueViolation :: "string \<Rightarrow> bool" where
  "isUniqueViolation msg \<longleftrightarrow> contains msg ''23505''"

text \<open>The two unique constraints of the table: the primary key and (tenant, idempotency key).\<close>

definition unique_violated :: "db \<Rightarrow> job \<Rightarrow> bool" where
  "unique_violated d j \<longleftrightarrow>
     (\<exists>r \<in> set (jobs d). jID r = jID j \<or>
        (jTenantID r = jTenantID j \<and> jIdempotencyKey j \<noteq> None \<and> jIdempotencyKey r = jIdempotencyKey j))"

text \<open>The row an \<open>INSERT\<close> stores: the columns it does not list are \<open>NULL\<close>.\<close>

definition inserted_row :: "job \<Rightarrow> job" where
  "inserted_row j = j\<lparr>jClaimedAt := None, jClaimedBy := None, jClaimToken := None,
     jDeadline := None, jLastError := None, jCompletedAt := None\<rparr>"

definition insert_error :: "string \<Rightarrow> err" where
  "insert_error msg =
     (if isUniqueViolation msg then ErrDuplicate else Wrapped ''insert job'' (Driver msg))"

definition InsertJob :: "env \<Rightarrow> job \<Rightarrow> db \<Rightarrow> db \<times> unit res" where
  "InsertJob e j d =
     (let d' = d\<lparr>jobs := jobs d @ [inserted_row j]\<rparr> in
      if jPayload j = None \<or> \<not> (int2_ok (jPriority j) \<and> int4_ok (jAttempt j) \<and> int4_ok (jMaxRetries j) \<and>
            int4_ok (jBackoffSeconds j))
      then (d, Inl (insert_error (value_msg e)))
      else case stmt_err e 0 of
        Some m \<Rightarrow> (if applied e \<and> \<not> unique_violated d j then d' else d, Inl (insert_error m))
      | None \<Rightarrow>
          if unique_violated d j then (d, Inl (insert_error (unique_msg e)))
          else (d', Inr ()))"

definition GetJobByIdempotencyKey :: "env \<Rightarrow> uuid \<Rightarrow> string \<Rightarrow> db \<Rightarrow> job res" where
  "GetJobByIdempotencyKey e tenantID key d =
     query e 0 (\<lambda>x. x)
       (case find (\<lambda>j. jTenantID j = tenantID \<and> jIdempotencyKey j = Some key) (jobs d) of
          None \<Rightarrow> Inl ErrNotFound
        | Some j \<Rightarrow> Inr j)"

definition GetJob :: "env \<Rightarrow> uuid \<Rightarrow> db \<Rightarrow> job res" where
  "GetJob e ident d =
     query e 0 (Wrapped ''get job'')
       (case lookup jID ident (jobs d) of None \<Rightarrow> Inl ErrNotFound | Some j \<Rightarrow> Inr j)"

definition GetJobForTenant :: "env \<Rightarrow> uuid \<Rightarrow> uuid \<Rightarrow> db \<Rightarrow> job res" where
  "GetJobForTenant e ident tenantID d =
     query e 0 (Wrapped ''get job for tenant'')
       (case find (\<lambda>j. jID j = ident \<and> jTenantID j = tenantID) (jobs d) of
          None \<Rightarrow> Inl ErrNotFound
        | Some j \<Rightarrow> Inr j)"

section \<open>The claim protocol\<close>

text \<open>
  \<open>EXTRACT(EPOCH FROM (now - started_at))::INT * 1000\<close>: the seconds rounded to an integer (half
  away from zero), times 1000; out of the range of \<open>INT\<close> the statement fails.
\<close>

definition round_seconds :: "duration \<Rightarrow> int" where
  "round_seconds x = sgn x * ((2 * \<bar>x\<bar> + second) div (2 * second))"

definition duration_ms :: "time \<Rightarrow> time \<Rightarrow> int option" where
  "duration_ms now started =
     (let v = round_seconds (now - started) * 1000 in if int4_ok v then Some v else None)"

definition close_run ::
    "State \<Rightarrow> time \<Rightarrow> string option \<Rightarrow> job_run \<Rightarrow> job_run option" where
  "close_run st now msg r =
     map_option (\<lambda>ms. r\<lparr>rState := st, rFinishedAt := Some now, rDurationMs := Some ms,
         rError := (case msg of None \<Rightarrow> rError r | Some m \<Rightarrow> Some m)\<rparr>)
       (duration_ms now (rStartedAt r))"

definition claim_row :: "time \<Rightarrow> string \<Rightarrow> uuid \<Rightarrow> time \<Rightarrow> job \<Rightarrow> job" where
  "claim_row now workerID token deadline j =
     j\<lparr>jState := StateClaimed, jClaimedAt := Some now, jClaimedBy := Some workerID,
       jClaimToken := Some token, jDeadline := Some deadline\<rparr>"

definition new_run :: "uuid \<Rightarrow> time \<Rightarrow> job \<Rightarrow> job_run" where
  "new_run runID now j =
     \<lparr>rID = runID, rJobID = jID j, rTenantID = jTenantID j, rAttempt = jAttempt j, rStartedAt = now,
      rFinishedAt = None, rState = StateClaimed, rError = None, rDurationMs = None\<rparr>"

text \<open>The two writes of a claim: the \<open>UPDATE\<close> of the job and the \<open>INSERT\<close> of its run.\<close>

definition claimed_db :: "time \<Rightarrow> uuid \<Rightarrow> uuid \<Rightarrow> string \<Rightarrow> uuid \<Rightarrow> time \<Rightarrow> db \<Rightarrow> db" where
  "claimed_db now runID jobID workerID token deadline d =
     (let d1 = d\<lparr>jobs := sql_update (\<lambda>j. jID j = jobID) (claim_row now workerID token deadline) (jobs d)\<rparr>
      in d1\<lparr>job_runs := job_runs d1 @ map (new_run runID now) (filter (\<lambda>j. jID j = jobID) (jobs d1))\<rparr>)"

definition TryClaim ::
    "env \<Rightarrow> uuid \<Rightarrow> uuid \<Rightarrow> string \<Rightarrow> uuid \<Rightarrow> time \<Rightarrow> db \<Rightarrow> db \<times> (bool \<times> uuid) res" where
  "TryClaim e runID jobID workerID token deadline d =
     in_tx e 0 (Wrapped ''begin tx'') d (
     in_tx e 1 (Wrapped ''lock job row'') d (
     if locked e \<or> \<not> (\<exists>j \<in> set (jobs d). jID j = jobID \<and> jState j = StatePending)
     then (d, Inr (False, uuid_nil))
     else
       in_tx e 2 (Wrapped ''update claim'') d (
       in_tx e 3 (Wrapped ''insert job_run'') d (
       autocommit e 4 (Wrapped ''commit claim'') d
         (claimed_db (go_now e) runID jobID workerID token deadline d, Inr (True, runID))))))"

text \<open>The rows that a worker holding \<open>token\<close> may still write.\<close>

definition owns :: "uuid \<Rightarrow> uuid \<Rightarrow> job \<Rightarrow> bool" where
  "owns jobID token j \<longleftrightarrow> jID j = jobID \<and> jClaimToken j = Some token \<and> in_flight (jState j)"

definition MarkRunning :: "env \<Rightarrow> uuid \<Rightarrow> uuid \<Rightarrow> db \<Rightarrow> db \<times> unit res" where
  "MarkRunning e jobID token d =
     autocommit e 0 (Wrapped ''mark running'') d
       (d\<lparr>jobs := sql_update
            (\<lambda>j. jID j = jobID \<and> jClaimToken j = Some token \<and> jState j = StateClaimed)
            (\<lambda>j. j\<lparr>jState := StateRunning\<rparr>) (jobs d)\<rparr>, Inr ())"

definition ExtendDeadline :: "env \<Rightarrow> uuid \<Rightarrow> uuid \<Rightarrow> time \<Rightarrow> db \<Rightarrow> db \<times> unit res" where
  "ExtendDeadline e jobID token deadline d =
     autocommit e 0 (Wrapped ''extend deadline'') d
       (d\<lparr>jobs := sql_update (owns jobID token) (\<lambda>j. j\<lparr>jDeadline := Some deadline\<rparr>) (jobs d)\<rparr>, Inr ())"

definition complete_row :: "time \<Rightarrow> job \<Rightarrow> job" where
  "complete_row now j =
     j\<lparr>jState := StateSucceeded, jCompletedAt := Some now, jClaimToken := None, jDeadline := None\<rparr>"

definition CompleteJob :: "env \<Rightarrow> uuid \<Rightarrow> uuid \<Rightarrow> uuid \<Rightarrow> db \<Rightarrow> db \<times> unit res" where
  "CompleteJob e jobID runID token d =
     (let now = go_now e;
          d1 = d\<lparr>jobs := sql_update (owns jobID token) (complete_row now) (jobs d)\<rparr>
      in case stmt_err e 0 of
           Some m \<Rightarrow> (if applied e then d1 else d, Inl (Wrapped ''complete job'' (Driver m)))
         | None \<Rightarrow>
             if rows_affected (owns jobID token) (jobs d) = 0 then (d1, Inr ())
             else case sql_update_try (\<lambda>r. rID r = runID) (close_run StateSucceeded now None) (job_runs d1) of
                    None \<Rightarrow> (d1, Inl (Driver (value_msg e)))
                  | Some rs \<Rightarrow> autocommit e 1 (\<lambda>x. x) d1 (d1\<lparr>job_runs := rs\<rparr>, Inr ()))"

definition fail_row :: "State \<Rightarrow> int \<Rightarrow> string \<Rightarrow> time option \<Rightarrow> job \<Rightarrow> job" where
  "fail_row newState newAttempt errMsg runAt j =
     j\<lparr>jState := newState, jAttempt := newAttempt, jLastError := Some errMsg,
       jRunAt := (case runAt of None \<Rightarrow> jRunAt j | Some t \<Rightarrow> t), jClaimToken := None, jDeadline := None\<rparr>"

definition FailJob ::
    "env \<Rightarrow> uuid \<Rightarrow> uuid \<Rightarrow> uuid \<Rightarrow> string \<Rightarrow> time option \<Rightarrow> db \<Rightarrow> db \<times> unit res" where
  "FailJob e jobID runID token errMsg nextRunAt d =
     in_tx e 0 (Wrapped ''begin tx'') d (
     in_tx e 1 (Wrapped ''lock for fail'') d (
     case find (owns jobID token) (jobs d) of
       None \<Rightarrow> (d, Inr ())
     | Some cur \<Rightarrow>
         let now = go_now e;
             newAttempt = jAttempt cur + 1;
             newState = (if newAttempt \<ge> jMaxRetries cur then StateDead else StateFailed);
             runAt = (if newAttempt \<ge> jMaxRetries cur then None else nextRunAt);
             d1 = d\<lparr>jobs := sql_update (\<lambda>j. jID j = jobID)
                    (fail_row newState newAttempt errMsg runAt) (jobs d)\<rparr>
         in in_tx e 2 (Wrapped ''update failed job'') d (
            in_tx e 3 (Wrapped ''update job_run'') d (
            case sql_update_try (\<lambda>r. rID r = runID) (close_run newState now (Some errMsg)) (job_runs d1) of
              None \<Rightarrow> (d, Inl (Wrapped ''update job_run'' (Driver (value_msg e))))
            | Some rs \<Rightarrow> autocommit e 4 (\<lambda>x. x) d (d1\<lparr>job_runs := rs\<rparr>, Inr ())))))"

section \<open>Scheduler queries and transitions\<close>

definition GetDueJobs :: "env \<Rightarrow> (job list \<Rightarrow> job list) \<Rightarrow> int \<Rightarrow> db \<Rightarrow> job list res" where
  "GetDueJobs e scan limit d =
     query e 0 (Wrapped ''get due jobs'')
       (Inr (order_limit (\<lambda>j. (jPriority j, jRunAt j)) limit
          (sql_select scan (\<lambda>j. jState j = StateScheduled \<and> jRunAt j \<le> pg_now e) (jobs d))))"

definition GetFailedReadyJobs :: "env \<Rightarrow> (job list \<Rightarrow> job list) \<Rightarrow> int \<Rightarrow> db \<Rightarrow> job list res" where
  "GetFailedReadyJobs e scan limit d =
     query e 0 (Wrapped ''get failed ready jobs'')
       (Inr (order_limit (\<lambda>j. (jPriority j, jRunAt j)) limit
          (sql_select scan (\<lambda>j. jState j = StateFailed \<and> jRunAt j \<le> pg_now e) (jobs d))))"

definition expired :: "time \<Rightarrow> job \<Rightarrow> bool" where
  "expired now j \<longleftrightarrow> in_flight (jState j) \<and> (case jDeadline j of None \<Rightarrow> False | Some t \<Rightarrow> t < now)"

definition GetStaleClaims :: "env \<Rightarrow> (job list \<Rightarrow> job list) \<Rightarrow> db \<Rightarrow> job list res" where
  "GetStaleClaims e scan d =
     query e 0 (Wrapped ''get stale claims'') (Inr (sql_select scan (expired (pg_now e)) (jobs d)))"

definition reap_state :: "job \<Rightarrow> State" where
  "reap_state j = (if jAttempt j + 1 \<ge> jMaxRetries j then StateDead else StatePending)"

definition reap_row :: "job \<Rightarrow> job" where
  "reap_row j =
     j\<lparr>jState := reap_state j, jAttempt := jAttempt j + 1, jClaimToken := None, jClaimedAt := None,
       jClaimedBy := None, jDeadline := None, jLastError := Some ''worker heartbeat expired''\<rparr>"

definition RequeueStaleJob :: "env \<Rightarrow> uuid \<Rightarrow> db \<Rightarrow> db \<times> bool res" where
  "RequeueStaleJob e jobID d =
     in_tx e 0 (Wrapped ''begin tx'') d (
     in_tx e 1 (Wrapped ''close stale run'') d (
     case sql_update_try (\<lambda>r. rJobID r = jobID \<and> rFinishedAt r = None)
            (close_run StateFailed (go_now e) (Some ''worker heartbeat expired'')) (job_runs d) of
       None \<Rightarrow> (d, Inl (Wrapped ''close stale run'' (Driver (value_msg e))))
     | Some rs \<Rightarrow>
         let d1 = d\<lparr>job_runs := rs\<rparr>;
             p = (\<lambda>j. jID j = jobID \<and> expired (pg_now e) j);
             d2 = d1\<lparr>jobs := sql_update p reap_row (jobs d1)\<rparr>
         in in_tx e 2 (Wrapped ''requeue stale job'') d (
            case find p (jobs d) of
              None \<Rightarrow> autocommit e 3 (Wrapped ''commit empty requeue'') d (d1, Inr False)
            | Some j \<Rightarrow> autocommit e 3 (Wrapped ''commit requeue'') d (d2, Inr (reap_state j = StateDead)))))"

definition MoveToDeadLetter :: "env \<Rightarrow> uuid \<Rightarrow> db \<Rightarrow> db \<times> unit res" where
  "MoveToDeadLetter e jobID d =
     in_tx e 0 (Wrapped ''begin tx'') d (
     in_tx e 1 (Wrapped ''insert dead_letter'') d (
     autocommit e 2 (\<lambda>x. x) d
       (d\<lparr>dead_letter := dead_letter d @
            map (\<lambda>j. \<lparr>dlJobID = jID j, dlTenantID = jTenantID j, dlMovedAt = pg_now e,
                       dlFinalError = jLastError j, dlAttemptCount = jAttempt j, dlOriginalJob = j\<rparr>)
              (filter (\<lambda>j. jID j = jobID \<and> jState j = StateDead \<and>
                 jID j \<notin> dlJobID ` set (dead_letter d)) (jobs d))\<rparr>, Inr ())))"

record ListFilter =
  lfTenantID :: "uuid option"
  lfState :: "string option"
  lfLimit :: int
  lfOffset :: int

definition ListJobs :: "env \<Rightarrow> (job list \<Rightarrow> job list) \<Rightarrow> ListFilter \<Rightarrow> db \<Rightarrow> job list res" where
  "ListJobs e scan f d =
     (let limit = (if lfLimit f = 0 then 50 else lfLimit f) in
      if limit < 0 \<or> lfOffset f < 0 \<or> (case lfState f of None \<Rightarrow> False | Some s \<Rightarrow> parse_state s = None)
      then Inl (Wrapped ''list jobs'' (Driver (value_msg e)))
      else query e 0 (Wrapped ''list jobs'')
        (Inr (take (nat limit) (drop (nat (lfOffset f))
          (sort_key (\<lambda>j. - jCreatedAt j)
            (sql_select scan (\<lambda>j. (lfTenantID f = None \<or> lfTenantID f = Some (jTenantID j)) \<and>
               (case lfState f of None \<Rightarrow> True | Some s \<Rightarrow> parse_state s = Some (jState j)))
             (jobs d)))))))"

definition DeadState :: "string option" where
  "DeadState = Some (state_string StateDead)"

definition CancelJob :: "env \<Rightarrow> uuid \<Rightarrow> uuid \<Rightarrow> db \<Rightarrow> db \<times> unit res" where
  "CancelJob e jobID tenantID d =
     (let p = (\<lambda>j. jID j = jobID \<and> jTenantID j = tenantID \<and>
                  (jState j = StatePending \<or> jState j = StateScheduled))
      in autocommit e 0 (Wrapped ''cancel job'') d
           (d\<lparr>jobs := sql_delete p (jobs d)\<rparr>,
            if rows_affected p (jobs d) = 0 then Inl ErrNotFound else Inr ()))"

text \<open>The reset that both ReplayJob and the admin tool write.\<close>

definition reset_job :: "job \<Rightarrow> job" where
  "reset_job j = j\<lparr>jState := StatePending, jAttempt := 0, jLastError := None, jClaimToken := None,
     jClaimedAt := None, jClaimedBy := None, jDeadline := None\<rparr>"

text \<open>\<open>e'\<close> is the environment of the second call, the \<open>GetJob\<close> at the end.\<close>

definition ReplayJob :: "env \<Rightarrow> env \<Rightarrow> uuid \<Rightarrow> uuid \<Rightarrow> db \<Rightarrow> db \<times> job res" where
  "ReplayJob e e' jobID tenantID d =
     (let p = (\<lambda>j. jID j = jobID \<and> jTenantID j = tenantID \<and> jState j = StateDead);
          d1 = d\<lparr>jobs := sql_update p reset_job (jobs d)\<rparr>
      in autocommit e 0 (Wrapped ''replay job'') d
           (d1, if rows_affected p (jobs d) = 0 then Inl ErrNotFound else GetJob e' jobID d1))"

definition GetPendingJobs :: "env \<Rightarrow> (job list \<Rightarrow> job list) \<Rightarrow> int \<Rightarrow> db \<Rightarrow> job list res" where
  "GetPendingJobs e scan limit d =
     query e 0 (Wrapped ''get pending jobs'')
       (Inr (order_limit (\<lambda>j. (jPriority j, jRunAt j)) limit
          (sql_select scan (\<lambda>j. jState j = StatePending \<and> jRunAt j \<le> pg_now e - minute) (jobs d))))"

definition PromoteScheduledToPending :: "env \<Rightarrow> uuid \<Rightarrow> db \<Rightarrow> db \<times> unit res" where
  "PromoteScheduledToPending e jobID d =
     autocommit e 0 (Wrapped ''promote scheduled job'') d
       (d\<lparr>jobs := sql_update (\<lambda>j. jID j = jobID \<and> jState j = StateScheduled)
            (\<lambda>j. j\<lparr>jState := StatePending\<rparr>) (jobs d)\<rparr>, Inr ())"

definition PromoteFailedToPending :: "env \<Rightarrow> uuid \<Rightarrow> db \<Rightarrow> db \<times> unit res" where
  "PromoteFailedToPending e jobID d =
     autocommit e 0 (Wrapped ''promote failed job'') d
       (d\<lparr>jobs := sql_update (\<lambda>j. jID j = jobID \<and> jState j = StateFailed)
            (\<lambda>j. j\<lparr>jState := StatePending, jRunAt := pg_now e\<rparr>) (jobs d)\<rparr>, Inr ())"

section \<open>Sample data\<close>

text \<open>A healthy server at a given time, a job and an empty database, for the examples.\<close>

definition demo_env :: "time \<Rightarrow> env" where
  "demo_env t = \<lparr>stmt_err = (\<lambda>_. None), applied = False, go_now = t, pg_now = t, locked = False,
     unique_msg = ''SQLSTATE 23505'', value_msg = ''out of range''\<rparr>"

definition demo_job :: "uuid \<Rightarrow> job" where
  "demo_job i = \<lparr>jID = i, jTenantID = 1, jType = ''webhook'', jPayload = Some JNull, jPriority = 5,
     jState = StatePending, jRunAt = 0, jClaimedAt = None, jClaimedBy = None, jClaimToken = None,
     jDeadline = None, jAttempt = 0, jMaxRetries = 2, jBackoffSeconds = 1, jIdempotencyKey = Some ''k'',
     jLastError = None, jCreatedAt = 0, jCompletedAt = None\<rparr>"

definition demo_empty :: db where
  "demo_empty = \<lparr>jobs = [], job_runs = [], dead_letter = [], schedules = [], tenants = []\<rparr>"

lemmas [op_defs] = InsertJob_def TryClaim_def MarkRunning_def ExtendDeadline_def CompleteJob_def
  FailJob_def RequeueStaleJob_def MoveToDeadLetter_def CancelJob_def ReplayJob_def
  PromoteScheduledToPending_def PromoteFailedToPending_def

end
