(* ===== verification/Queue.thy ===== *)
theory Queue
  imports Job
begin

text \<open>
  internal/queue/queue.go: the priority queues, the dequeue loop and the weighted shuffle.

  Redis is a service, so its commands are parameters: a record \<open>redis\<close> of functions on the
  server's state \<open>'r\<close>. \<open>lists_ok R L\<close> states what the documentation promises of the list commands,
  \<open>L s k\<close> being the list stored at key \<open>k\<close> (leftmost element first); a command that reports an error
  other than nil may or may not have been executed. The uuid package is a parameter too: \<open>ustr\<close> is
  \<open>String\<close>, \<open>uparse\<close> is \<open>Parse\<close>.
\<close>

section \<open>The Redis commands\<close>

datatype redis_error = RedisNil | RedisErr string

record 'r redis =
  LPush :: "string \<Rightarrow> string \<Rightarrow> 'r \<Rightarrow> 'r \<times> (redis_error + int)"
  LMoveRL :: "string \<Rightarrow> string \<Rightarrow> 'r \<Rightarrow> 'r \<times> (redis_error + string)"
  LRem0 :: "string \<Rightarrow> string \<Rightarrow> 'r \<Rightarrow> 'r \<times> (redis_error + int)"
  LLen :: "string \<Rightarrow> 'r \<Rightarrow> 'r \<times> (redis_error + int)"
  SetEx :: "string \<Rightarrow> string \<Rightarrow> duration \<Rightarrow> 'r \<Rightarrow> 'r \<times> (redis_error + unit)"
  Incr :: "string \<Rightarrow> 'r \<Rightarrow> 'r \<times> (redis_error + int)"
  Expire :: "string \<Rightarrow> duration \<Rightarrow> 'r \<Rightarrow> 'r \<times> (redis_error + bool)"
  Del :: "string \<Rightarrow> 'r \<Rightarrow> 'r \<times> (redis_error + int)"

definition pushed :: "string \<Rightarrow> string \<Rightarrow> (string \<Rightarrow> string list) \<Rightarrow> string \<Rightarrow> string list" where
  "pushed k v m = m(k := v # m k)"

definition moved :: "string \<Rightarrow> string \<Rightarrow> (string \<Rightarrow> string list) \<Rightarrow> string \<Rightarrow> string list" where
  "moved src dst m =
     (let m' = m(src := butlast (m src)) in m'(dst := last (m src) # m' dst))"

definition lists_ok :: "'r redis \<Rightarrow> ('r \<Rightarrow> string \<Rightarrow> string list) \<Rightarrow> bool" where
  "lists_ok R L \<longleftrightarrow>
     (\<forall>k v s s' r. LPush R k v s = (s', r) \<longrightarrow>
        L s' = pushed k v (L s) \<or> (L s' = L s \<and> isl r)) \<and>
     (\<forall>k q s s' v. LMoveRL R k q s = (s', Inr v) \<longrightarrow>
        L s k \<noteq> [] \<and> v = last (L s k) \<and> L s' = moved k q (L s)) \<and>
     (\<forall>k q s s'. LMoveRL R k q s = (s', Inl RedisNil) \<longrightarrow> L s k = [] \<and> L s' = L s) \<and>
     (\<forall>k q s s' m. LMoveRL R k q s = (s', Inl (RedisErr m)) \<longrightarrow>
        L s' = L s \<or> (L s k \<noteq> [] \<and> L s' = moved k q (L s))) \<and>
     (\<forall>k v s s' r. LRem0 R k v s = (s', r) \<longrightarrow>
        L s' = (L s)(k := removeAll v (L s k)) \<or> (L s' = L s \<and> isl r)) \<and>
     (\<forall>k s s' n. LLen R k s = (s', Inr n) \<longrightarrow> n = int (length (L s k))) \<and>
     (\<forall>k s s' r. LLen R k s = (s', r) \<longrightarrow> L s' = L s) \<and>
     (\<forall>k v t s s' r. SetEx R k v t s = (s', r) \<longrightarrow> L s' = L s)"

text \<open>Commands that never report an error, as on a healthy connection.\<close>

definition no_errors :: "'r redis \<Rightarrow> bool" where
  "no_errors R \<longleftrightarrow>
     (\<forall>k v s. \<exists>s' n. LPush R k v s = (s', Inr n)) \<and>
     (\<forall>k q s m. snd (LMoveRL R k q s) \<noteq> Inl (RedisErr m)) \<and>
     (\<forall>k v s. \<exists>s' n. LRem0 R k v s = (s', Inr n))"

section \<open>Keys\<close>

definition HeartbeatTTL :: duration where
  "HeartbeatTTL = 15 * second"

definition processingPrefix :: string where
  "processingPrefix = ''processing:''"

definition heartbeatPrefix :: string where
  "heartbeatPrefix = ''heartbeat:''"

definition pollInterval :: duration where
  "pollInterval = 100 * millisecond"

definition priorityBuckets :: "string list" where
  "priorityBuckets = [''queue:1'', ''queue:5'', ''queue:10'']"

definition bucketForPriority :: "int \<Rightarrow> string" where
  "bucketForPriority priority =
     (if priority \<le> PriorityHigh then ''queue:1''
      else if priority \<le> PriorityNormal then ''queue:5''
      else ''queue:10'')"

definition queue_key :: "(uuid \<Rightarrow> string) \<Rightarrow> string \<Rightarrow> uuid \<Rightarrow> string" where
  "queue_key ustr bucket tenantID = bucket @ '':'' @ ustr tenantID"

record TenantWeight =
  twID :: uuid
  twWeight :: int

section \<open>Enqueue, heartbeat, removal\<close>

definition Enqueue ::
    "'r redis \<Rightarrow> (uuid \<Rightarrow> string) \<Rightarrow> uuid \<Rightarrow> uuid \<Rightarrow> int \<Rightarrow> 'r \<Rightarrow> 'r \<times> (redis_error + unit)" where
  "Enqueue R ustr tenantID jobID priority s =
     (let key = queue_key ustr (bucketForPriority priority) tenantID
      in case LPush R key (ustr jobID) s of
           (s', Inl x) \<Rightarrow> (s', Inl x)
         | (s', Inr n) \<Rightarrow> (s', Inr ()))"

definition Heartbeat ::
    "'r redis \<Rightarrow> (uuid \<Rightarrow> string) \<Rightarrow> uuid \<Rightarrow> string \<Rightarrow> 'r \<Rightarrow> 'r \<times> (redis_error + unit)" where
  "Heartbeat R ustr jobID token s = SetEx R (heartbeatPrefix @ ustr jobID) token HeartbeatTTL s"

definition RemoveFromProcessing ::
    "'r redis \<Rightarrow> (uuid \<Rightarrow> string) \<Rightarrow> string \<Rightarrow> uuid \<Rightarrow> 'r \<Rightarrow> 'r \<times> (redis_error + unit)" where
  "RemoveFromProcessing R ustr workerID jobID s =
     (case LRem0 R (processingPrefix @ workerID) (ustr jobID) s of
        (s', Inl x) \<Rightarrow> (s', Inl x)
      | (s', Inr n) \<Rightarrow> (s', Inr ()))"

section \<open>The weighted shuffle\<close>

text \<open>
  \<open>pick r cum remaining\<close> is the inner loop: the first tenant whose cumulative weight exceeds the
  draw, with the tenants that stay. \<open>rand.Intn\<close> is the parameter \<open>intn i n\<close>, the result of the
  \<open>i\<close>-th call with bound \<open>n\<close>; it panics when the bound is not positive. The outer loop runs until
  no tenant remains, so its termination is a theorem: \<open>None\<close> stands for a loop that never ends.
\<close>

datatype 'a panics = Panic | Returns 'a

fun pick :: "int \<Rightarrow> int \<Rightarrow> TenantWeight list \<Rightarrow> (TenantWeight \<times> TenantWeight list) option" where
  "pick r cum [] = None"
| "pick r cum (t # ts) =
     (if r < cum + twWeight t then Some (t, ts)
      else map_option (\<lambda>(u, us). (u, t # us)) (pick r (cum + twWeight t) ts))"

definition total_weight :: "TenantWeight list \<Rightarrow> int" where
  "total_weight ts = sum_list (map twWeight ts)"

partial_function (option) shuffle_loop ::
    "(nat \<Rightarrow> int \<Rightarrow> int) \<Rightarrow> nat \<Rightarrow> TenantWeight list \<Rightarrow> uuid list \<Rightarrow> uuid list panics option" where
  "shuffle_loop intn i remaining out =
     (if remaining = [] then Some (Returns out)
      else let total = total_weight remaining in
        if total \<le> 0 then Some Panic
        else case pick (intn i total) 0 remaining of
               None \<Rightarrow> shuffle_loop intn (Suc i) remaining out
             | Some (t, rest) \<Rightarrow> shuffle_loop intn (Suc i) rest (out @ [twID t]))"

definition weightedShuffle :: "(nat \<Rightarrow> int \<Rightarrow> int) \<Rightarrow> TenantWeight list \<Rightarrow> uuid list panics option" where
  "weightedShuffle intn ts = shuffle_loop intn 0 ts []"

definition draws_ok :: "(nat \<Rightarrow> int \<Rightarrow> int) \<Rightarrow> bool" where
  "draws_ok intn \<longleftrightarrow> (\<forall>i. intn_ok (intn i))"

section \<open>Dequeue\<close>

text \<open>
  One pass over the keys in the order tenants, then buckets: the first key that yields a parsable
  id ends it. An entry that does not parse has been moved to the processing list and is passed over;
  an error other than nil ends the call.
\<close>

datatype dequeue_result = Got uuid | Nothing | Failed string | Cancelled | Panicked

fun try_keys ::
    "'r redis \<Rightarrow> (string \<Rightarrow> uuid option) \<Rightarrow> string \<Rightarrow> string list \<Rightarrow> 'r \<Rightarrow> 'r \<times> dequeue_result option" where
  "try_keys R uparse dest [] s = (s, None)"
| "try_keys R uparse dest (key # keys) s =
     (case LMoveRL R key dest s of
        (s', Inr v) \<Rightarrow>
          (case uparse v of
             Some x \<Rightarrow> (s', Some (Got x))
           | None \<Rightarrow> try_keys R uparse dest keys s')
      | (s', Inl RedisNil) \<Rightarrow> try_keys R uparse dest keys s'
      | (s', Inl (RedisErr m)) \<Rightarrow> (s', Some (Failed m)))"

definition poll_keys :: "(uuid \<Rightarrow> string) \<Rightarrow> uuid list \<Rightarrow> string list" where
  "poll_keys ustr order = concat (map (\<lambda>t. map (\<lambda>b. queue_key ustr b t) priorityBuckets) order)"

text \<open>
  What one iteration of the polling loop observes: the clock at the loop test, whether the context
  is done at the first and at the second \<open>select\<close>, and the random draws of its shuffle.
\<close>

record poll =
  pClock :: time
  pDone :: bool
  pDraws :: "nat \<Rightarrow> int \<Rightarrow> int"
  pDoneAfter :: bool

text \<open>
  \<open>None\<close>: the call has not returned after the given iterations (or its shuffle never ends).
\<close>

fun dequeue_loop ::
    "'r redis \<Rightarrow> (uuid \<Rightarrow> string) \<Rightarrow> (string \<Rightarrow> uuid option) \<Rightarrow> string \<Rightarrow> TenantWeight list \<Rightarrow> time \<Rightarrow>
     poll list \<Rightarrow> 'r \<Rightarrow> ('r \<times> dequeue_result) option" where
  "dequeue_loop R ustr uparse dest tenants deadline [] s = None"
| "dequeue_loop R ustr uparse dest tenants deadline (p # ps) s =
     (if \<not> pClock p < deadline then Some (s, Nothing)
      else if pDone p then Some (s, Cancelled)
      else
        (case (if tenants = [] then Some (Returns []) else weightedShuffle (pDraws p) tenants) of
           None \<Rightarrow> None
         | Some Panic \<Rightarrow> Some (s, Panicked)
         | Some (Returns order) \<Rightarrow>
             (case try_keys R uparse dest (poll_keys ustr order) s of
                (s', Some r) \<Rightarrow> Some (s', r)
              | (s', None) \<Rightarrow>
                  if pDoneAfter p then Some (s', Cancelled)
                  else dequeue_loop R ustr uparse dest tenants deadline ps s')))"

definition Dequeue ::
    "'r redis \<Rightarrow> (uuid \<Rightarrow> string) \<Rightarrow> (string \<Rightarrow> uuid option) \<Rightarrow> time \<Rightarrow> poll list \<Rightarrow>
     string \<Rightarrow> TenantWeight list \<Rightarrow> duration \<Rightarrow> 'r \<Rightarrow> ('r \<times> dequeue_result) option" where
  "Dequeue R ustr uparse start polls workerID tenants timeout s =
     dequeue_loop R ustr uparse (processingPrefix @ workerID) tenants (start + timeout) polls s"

section \<open>A reference server and a reference printer\<close>

text \<open>
  Concrete instances of the parameters, for the witnesses: an in-memory server whose commands do
  what the contract says and never fail, and a printer of ids that can be parsed back.
\<close>

record mem =
  mLists :: "string \<Rightarrow> string list"
  mCounters :: "string \<Rightarrow> int"

definition mem_redis :: "mem redis" where
  "mem_redis = \<lparr>
     LPush = (\<lambda>k v m. (m\<lparr>mLists := pushed k v (mLists m)\<rparr>, Inr (int (Suc (length (mLists m k)))))),
     LMoveRL = (\<lambda>k q m. if mLists m k = [] then (m, Inl RedisNil)
                  else (m\<lparr>mLists := moved k q (mLists m)\<rparr>, Inr (last (mLists m k)))),
     LRem0 = (\<lambda>k v m. (m\<lparr>mLists := (mLists m)(k := removeAll v (mLists m k))\<rparr>,
                Inr (int (count_list (mLists m k) v)))),
     LLen = (\<lambda>k m. (m, Inr (int (length (mLists m k))))),
     SetEx = (\<lambda>k v t m. (m, Inr ())),
     Incr = (\<lambda>k m. (m\<lparr>mCounters := (mCounters m)(k := mCounters m k + 1)\<rparr>, Inr (mCounters m k + 1))),
     Expire = (\<lambda>k t m. (m, Inr True)),
     Del = (\<lambda>k m. (m\<lparr>mLists := (mLists m)(k := [])\<rparr>, Inr 1))\<rparr>"

definition mem_empty :: mem where
  "mem_empty = \<lparr>mLists = (\<lambda>_. []), mCounters = (\<lambda>_. 0)\<rparr>"

definition uuid_ok :: "(uuid \<Rightarrow> string) \<Rightarrow> (string \<Rightarrow> uuid option) \<Rightarrow> bool" where
  "uuid_ok ustr uparse \<longleftrightarrow> (\<forall>u. uparse (ustr u) = Some u)"

definition ref_ustr :: "uuid \<Rightarrow> string" where
  "ref_ustr u = replicate (unat u) (CHR ''u'')"

definition ref_uparse :: "string \<Rightarrow> uuid option" where
  "ref_uparse s = Some (of_nat (length s))"

lemma mem_redis_lists_ok: "lists_ok mem_redis mLists"
  by (simp add: lists_ok_def mem_redis_def)

lemma mem_redis_no_errors: "no_errors mem_redis"
  by (simp add: no_errors_def mem_redis_def)

lemma ref_uuid_ok: "uuid_ok ref_ustr ref_uparse"
  by (simp add: uuid_ok_def ref_ustr_def ref_uparse_def)

section \<open>The list commands\<close>

lemma LPush_cases:
  "lists_ok R L \<Longrightarrow> LPush R k v s = (s', r) \<Longrightarrow>
    L s' = pushed k v (L s) \<or> (L s' = L s \<and> isl r)"
  unfolding lists_ok_def by metis

lemma LMove_got:
  "lists_ok R L \<Longrightarrow> LMoveRL R k q s = (s', Inr v) \<Longrightarrow>
    L s k \<noteq> [] \<and> v = last (L s k) \<and> L s' = moved k q (L s)"
  unfolding lists_ok_def by metis

lemma LMove_nil:
  "lists_ok R L \<Longrightarrow> LMoveRL R k q s = (s', Inl RedisNil) \<Longrightarrow> L s k = [] \<and> L s' = L s"
  unfolding lists_ok_def by metis

lemma LMove_err:
  "lists_ok R L \<Longrightarrow> LMoveRL R k q s = (s', Inl (RedisErr m)) \<Longrightarrow>
    L s' = L s \<or> (L s k \<noteq> [] \<and> L s' = moved k q (L s))"
  unfolding lists_ok_def by metis

lemma LRem_cases:
  "lists_ok R L \<Longrightarrow> LRem0 R k v s = (s', r) \<Longrightarrow>
    L s' = (L s)(k := removeAll v (L s k)) \<or> (L s' = L s \<and> isl r)"
  unfolding lists_ok_def by metis

text \<open>With a healthy connection an enqueue is a push; with errors it is a push or nothing.\<close>

lemma Enqueue_push:
  assumes "lists_ok R L" "no_errors R"
  obtains s' where "Enqueue R ustr t j p s = (s', Inr ())"
    and "L s' = pushed (queue_key ustr (bucketForPriority p) t) (ustr j) (L s)"
proof -
  obtain s' n where "LPush R (queue_key ustr (bucketForPriority p) t) (ustr j) s = (s', Inr n)"
    using assms(2) unfolding no_errors_def by blast
  with LPush_cases[OF assms(1) this] show thesis
    using that by (simp add: Enqueue_def)
qed

lemma Enqueue_lists:
  assumes "lists_ok R L"
  shows "L (fst (Enqueue R ustr t j p s)) = L s \<or>
    L (fst (Enqueue R ustr t j p s)) = pushed (queue_key ustr (bucketForPriority p) t) (ustr j) (L s)"
proof -
  obtain s' r where l: "LPush R (queue_key ustr (bucketForPriority p) t) (ustr j) s = (s', r)"
    by (cases "LPush R (queue_key ustr (bucketForPriority p) t) (ustr j) s")
  then have "fst (Enqueue R ustr t j p s) = s'"
    by (simp add: Enqueue_def split: sum.split)
  with LPush_cases[OF assms l] show ?thesis by auto
qed

lemma bucket_in_buckets: "bucketForPriority p \<in> set priorityBuckets"
  by (simp add: bucketForPriority_def priorityBuckets_def)

lemma queue_key_inj:
  assumes "b \<in> set priorityBuckets" "b' \<in> set priorityBuckets"
    and "queue_key ustr b t = queue_key ustr b' t'"
  shows "b = b' \<and> ustr t = ustr t'"
  using assms by (auto simp: priorityBuckets_def queue_key_def)

lemma queue_key_not_processing: "b \<in> set priorityBuckets \<Longrightarrow> queue_key ustr b t \<noteq> processingPrefix @ w"
  by (auto simp: priorityBuckets_def queue_key_def processingPrefix_def)

lemma uuid_ok_inj: "uuid_ok ustr uparse \<Longrightarrow> ustr a = ustr b \<longleftrightarrow> a = b"
  by (metis uuid_ok_def option.inject)

section \<open>The shuffle\<close>

lemma pick_mset: "pick r cum ts = Some (t, rest) \<Longrightarrow> mset ts = add_mset t (mset rest)"
  by (induction r cum ts arbitrary: t rest rule: pick.induct) (auto split: if_splits)

lemma pick_in: "pick r cum ts = Some (t, rest) \<Longrightarrow> t \<in> set ts"
  using pick_mset by (metis insertI1 set_mset_add_mset_insert set_mset_mset)

lemma pick_None: "pick r cum ts = None \<Longrightarrow> ts = [] \<or> cum + total_weight ts \<le> r"
  by (induction r cum ts rule: pick.induct) (auto simp: total_weight_def split: if_splits)

lemma total_weight_pos: "ts \<noteq> [] \<Longrightarrow> \<forall>t \<in> set ts. 0 < twWeight t \<Longrightarrow> 0 < total_weight ts"
proof (induction ts)
  case (Cons t ts)
  then show ?case by (cases ts) (auto simp: total_weight_def intro: add_pos_pos)
qed simp

lemma shuffle_loop_permutes:
  assumes "\<forall>t \<in> set ts. 0 < twWeight t" "draws_ok intn"
  shows "\<exists>os. shuffle_loop intn i ts out = Some (Returns (out @ os)) \<and> mset os = mset (map twID ts)"
  using assms
proof (induction ts arbitrary: i out rule: length_induct)
  case (1 ts)
  show ?case
  proof (cases "ts = []")
    case True
    then show ?thesis by (simp add: shuffle_loop.simps)
  next
    case False
    have pos: "0 < total_weight ts" using False "1.prems"(1) by (rule total_weight_pos)
    then have "intn i (total_weight ts) < total_weight ts"
      using "1.prems"(2) by (simp add: draws_ok_def intn_ok_def)
    with pick_None[of _ 0 ts] False
    obtain t rest where p: "pick (intn i (total_weight ts)) 0 ts = Some (t, rest)"
      by (cases "pick (intn i (total_weight ts)) 0 ts") fastforce+
    from pick_mset[OF p] have m: "mset ts = add_mset t (mset rest)" .
    then have "length rest < length ts" by (metis lessI size_add_mset size_mset)
    moreover have "\<forall>t \<in> set rest. 0 < twWeight t"
      using "1.prems"(1) m by (metis insert_iff set_mset_add_mset_insert set_mset_mset)
    ultimately obtain os where
      os: "shuffle_loop intn (Suc i) rest (out @ [twID t]) = Some (Returns ((out @ [twID t]) @ os))"
        "mset os = mset (map twID rest)"
      using "1.IH" "1.prems"(2) by blast
    have "shuffle_loop intn i ts out = Some (Returns (out @ twID t # os))"
      using False pos p os(1) by (subst shuffle_loop.simps) simp
    moreover have "mset (twID t # os) = mset (map twID ts)"
      using os(2) m by simp
    ultimately show ?thesis by blast
  qed
qed

lemma weightedShuffle_permutes:
  assumes "\<forall>t \<in> set ts. 0 < twWeight t" "draws_ok intn"
  obtains os where "weightedShuffle intn ts = Some (Returns os)" "mset os = mset (map twID ts)"
  using shuffle_loop_permutes[OF assms, of 0 "[]"] by (auto simp: weightedShuffle_def)

text \<open>The draws that select a tenant form an interval as long as its weight.\<close>

definition draws_for :: "int \<Rightarrow> TenantWeight list \<Rightarrow> TenantWeight \<Rightarrow> int set" where
  "draws_for cum ts t =
     {r. cum \<le> r \<and> r < cum + total_weight ts \<and> (\<exists>rest. pick r cum ts = Some (t, rest))}"

lemma draws_for_Cons:
  assumes "0 \<le> twWeight u" "\<forall>t \<in> set us. 0 \<le> twWeight t"
  shows "draws_for cum (u # us) t =
    (if t = u then {cum ..< cum + twWeight u} else {}) \<union> draws_for (cum + twWeight u) us t"
proof -
  have "0 \<le> total_weight us"
    using assms(2) unfolding total_weight_def by (induction us) auto
  then show ?thesis
    using assms(1) unfolding draws_for_def by (auto simp: total_weight_def)
qed

lemma draws_for_notin: "t \<notin> set ts \<Longrightarrow> draws_for cum ts t = {}"
  by (auto simp: draws_for_def dest: pick_in)

lemma card_draws_for:
  assumes "distinct ts" "\<forall>t \<in> set ts. 0 < twWeight t" "t \<in> set ts"
  shows "card (draws_for cum ts t) = nat (twWeight t)"
  using assms
proof (induction ts arbitrary: cum)
  case (Cons u us)
  have "draws_for cum (u # us) t =
      (if t = u then {cum ..< cum + twWeight u} else {}) \<union> draws_for (cum + twWeight u) us t"
    using Cons.prems(2) by (intro draws_for_Cons) auto
  then show ?case
    using Cons draws_for_notin[of t us] by (cases "t = u") auto
qed simp

end
