(* ===== verification/Cli.thy ===== *)
theory Cli
  imports Store Queue
begin

text \<open>
  cmd/sluice-cli/main.go: the commands that change or report the state of the system. \<open>fatalf\<close> prints
  a message and exits with status 1: the result \<open>Fatal\<close>. A command that returns from \<open>main\<close> exits
  with status 0: \<open>Exit0\<close> with what it printed. Redis and the uuid package are parameters as in the
  theory \<open>Queue\<close>.
\<close>

datatype 'a cli_result = Fatal string | Exit0 'a

section \<open>The statements of the commands\<close>

definition cli_reset :: "env \<Rightarrow> uuid \<Rightarrow> db \<Rightarrow> db \<times> unit res" where
  "cli_reset e jobID d =
     autocommit e 0 (\<lambda>x. x) d
       (d\<lparr>jobs := sql_update (\<lambda>j. jID j = jobID \<and> jState j = StateDead) reset_job (jobs d)\<rparr>, Inr ())"

definition force_failed :: "job \<Rightarrow> job" where
  "force_failed j = j\<lparr>jState := StateDead, jLastError := Some ''force-failed by operator'',
     jClaimToken := None, jDeadline := None\<rparr>"

definition can_force_fail :: "State \<Rightarrow> bool" where
  "can_force_fail st \<longleftrightarrow> st \<in> {StateClaimed, StateRunning, StatePending, StateFailed}"

text \<open>The update of \<open>cmdForceFail\<close> and the number of rows it affected.\<close>

definition cli_force_fail :: "env \<Rightarrow> uuid \<Rightarrow> db \<Rightarrow> db \<times> nat res" where
  "cli_force_fail e jobID d =
     (let p = (\<lambda>j. jID j = jobID \<and> can_force_fail (jState j)) in
      autocommit e 0 (\<lambda>x. x) d
        (d\<lparr>jobs := sql_update p force_failed (jobs d)\<rparr>, Inr (rows_affected p (jobs d))))"

section \<open>The commands\<close>

definition cmdReplay ::
    "'r redis \<Rightarrow> (uuid \<Rightarrow> string) \<Rightarrow> (string \<Rightarrow> uuid option) \<Rightarrow> env \<Rightarrow> env \<Rightarrow> string list \<Rightarrow>
     db \<times> 'r \<Rightarrow> (db \<times> 'r) \<times> string cli_result" where
  "cmdReplay R ustr uparse e e' args st =
     (case st of (d, s) \<Rightarrow>
      case args of
        [] \<Rightarrow> (st, Fatal ''usage: pulse-cli replay <job-id>'')
      | a # _ \<Rightarrow>
        (case uparse a of
           None \<Rightarrow> (st, Fatal ''invalid job id'')
         | Some jobID \<Rightarrow>
           (case GetJob e jobID d of
              Inl _ \<Rightarrow> (st, Fatal ''get job'')
            | Inr j \<Rightarrow>
              if jState j \<noteq> StateDead
              then (st, Fatal ''only dead jobs can be replayed'')
              else (case cli_reset e' jobID d of
                      (d', Inl _) \<Rightarrow> ((d', s), Fatal ''reset job state'')
                    | (d', Inr _) \<Rightarrow>
                        (case Enqueue R ustr (jTenantID j) jobID (jPriority j) s of
                           (s', Inl _) \<Rightarrow> ((d', s'), Fatal ''enqueue'')
                         | (s', Inr _) \<Rightarrow> ((d', s'), Exit0 (''replayed job '' @ ustr jobID)))))))"

definition cmdForceFail ::
    "(uuid \<Rightarrow> string) \<Rightarrow> (string \<Rightarrow> uuid option) \<Rightarrow> env \<Rightarrow> string list \<Rightarrow> db \<Rightarrow> db \<times> string cli_result" where
  "cmdForceFail ustr uparse e args d =
     (case args of
        [] \<Rightarrow> (d, Fatal ''usage: pulse-cli force-fail <job-id>'')
      | a # _ \<Rightarrow>
        (case uparse a of
           None \<Rightarrow> (d, Fatal ''invalid job id'')
         | Some jobID \<Rightarrow>
           (case cli_force_fail e jobID d of
              (d', Inl _) \<Rightarrow> (d', Fatal ''force-fail'')
            | (d', Inr n) \<Rightarrow>
                if n = 0 then (d', Fatal (''job '' @ ustr jobID @ '' not found or already terminal''))
                else (d', Exit0 (''force-failed job '' @ ustr jobID)))))"

text \<open>The depths \<open>cmdQueueDepth\<close> prints: one \<open>LLEN\<close> per label, \<open>-1\<close> when it fails.\<close>

fun depths_of :: "'r redis \<Rightarrow> (string \<times> string) list \<Rightarrow> 'r \<Rightarrow> 'r \<times> (string \<times> int) list" where
  "depths_of R [] s = (s, [])"
| "depths_of R ((label, key) # rest) s =
     (case LLen R key s of (s', r) \<Rightarrow>
      case depths_of R rest s' of (s'', out) \<Rightarrow>
        (s'', (label, case r of Inl _ \<Rightarrow> - 1 | Inr n \<Rightarrow> n) # out))"

definition cmdQueueDepth :: "'r redis \<Rightarrow> 'r \<Rightarrow> 'r \<times> (string \<times> int) list cli_result" where
  "cmdQueueDepth R s =
     (case depths_of R [(''high'', ''queue:1''), (''normal'', ''queue:5''), (''low'', ''queue:10'')] s of
        (s', out) \<Rightarrow> (s', Exit0 out))"

section \<open>Properties\<close>

lemma LLen_lists: "lists_ok R L \<Longrightarrow> LLen R k s = (s', r) \<Longrightarrow> L s' = L s"
  unfolding lists_ok_def by metis

lemma LLen_value: "lists_ok R L \<Longrightarrow> LLen R k s = (s', Inr n) \<Longrightarrow> n = int (length (L s k))"
  unfolding lists_ok_def by metis

lemma depths_of_empty:
  assumes "lists_ok R L" "\<forall>(l, k) \<in> set qs. L s k = []"
  shows "\<forall>(l, n) \<in> set (snd (depths_of R qs s)). n \<le> 0"
  using assms(2)
proof (induction qs arbitrary: s)
  case (Cons q qs)
  obtain l k where q: "q = (l, k)" by force
  obtain s' r where m: "LLen R k s = (s', r)" by (cases "LLen R k s")
  have "L s' = L s" by (rule LLen_lists[OF assms(1) m])
  then have "\<forall>(l, n) \<in> set (snd (depths_of R qs s')). n \<le> 0"
    using Cons.prems by (intro Cons.IH) simp
  moreover have "(case r of Inl _ \<Rightarrow> - 1 | Inr n \<Rightarrow> n) \<le> 0"
    using LLen_value[OF assms(1), of k s s'] m Cons.prems q by (cases r) auto
  ultimately show ?case using m q by (auto split: prod.split)
qed simp

fun enqueue_all ::
    "'r redis \<Rightarrow> (uuid \<Rightarrow> string) \<Rightarrow> (uuid \<times> uuid \<times> int) list \<Rightarrow> 'r \<Rightarrow> 'r" where
  "enqueue_all R ustr [] s = s"
| "enqueue_all R ustr ((t, j, p) # xs) s = enqueue_all R ustr xs (fst (Enqueue R ustr t j p s))"

lemma enqueue_all_bare:
  assumes "lists_ok R L" "b \<in> set priorityBuckets"
  shows "L (enqueue_all R ustr xs s) b = L s b"
proof (induction xs arbitrary: s)
  case (Cons x xs)
  obtain t j p where x: "x = (t, j, p)" by (cases x)
  have "queue_key ustr (bucketForPriority p) t \<noteq> b"
    using assms(2) by (auto simp: queue_key_def bucketForPriority_def priorityBuckets_def)
  then have "L (fst (Enqueue R ustr t j p s)) b = L s b"
    using Enqueue_lists[OF assms(1), of ustr t j p s] by (auto simp: pushed_def)
  with Cons show ?case by (simp add: x)
qed simp

text \<open>\<open>queue-depth\<close> never reports a waiting job: it reads the keys \<open>queue:1\<close>, \<open>queue:5\<close> and
  \<open>queue:10\<close>, but every queue the program writes carries the tenant's id in its key, so whatever
  has been enqueued, each depth it prints is zero (or -1 when the command fails).\<close>

lemma cmdQueueDepth_blind:
  assumes "lists_ok R L" and "\<forall>b \<in> set priorityBuckets. L s b = []"
  shows "\<exists>s' out. cmdQueueDepth R (enqueue_all R ustr xs s) = (s', Exit0 out) \<and> (\<forall>(l, n) \<in> set out. n \<le> 0)"
proof -
  let ?qs = "[(''high'', ''queue:1''), (''normal'', ''queue:5''), (''low'', ''queue:10'')]"
  have "\<forall>(l, k) \<in> set ?qs. L (enqueue_all R ustr xs s) k = []"
    using enqueue_all_bare[OF assms(1)] assms(2) by (auto simp: priorityBuckets_def)
  from depths_of_empty[OF assms(1) this] show ?thesis
    by (auto simp: cmdQueueDepth_def simp del: depths_of.simps split: prod.split)
qed

end
