(* ===== verification/Trace.thy ===== *)
theory Trace
  imports Main
begin

text \<open>
  Sequences of operations on a shared state, reachability, and two interfaces on top of them:
  \<^item> \<open>invariant_of\<close>: a predicate that holds at the start and that every permitted operation keeps;
  \<^item> \<open>claim_lock\<close>: a store in which an item has at most one owner token, tokens are acquired only
    when the item is free, and only certain operations take a token away. Its clients may rely on
    mutual exclusion over whole sequences of operations.
\<close>

fun run :: "('o \<Rightarrow> 's \<Rightarrow> 's) \<Rightarrow> 'o list \<Rightarrow> 's \<Rightarrow> 's" where
  "run step [] s = s"
| "run step (x # xs) s = run step xs (step x s)"

fun run_ok :: "('s \<Rightarrow> 'o \<Rightarrow> bool) \<Rightarrow> ('o \<Rightarrow> 's \<Rightarrow> 's) \<Rightarrow> 'o list \<Rightarrow> 's \<Rightarrow> bool" where
  "run_ok ok step [] s = True"
| "run_ok ok step (x # xs) s = (ok s x \<and> run_ok ok step xs (step x s))"

inductive reach :: "('s \<Rightarrow> bool) \<Rightarrow> ('s \<Rightarrow> 'o \<Rightarrow> bool) \<Rightarrow> ('o \<Rightarrow> 's \<Rightarrow> 's) \<Rightarrow> 's \<Rightarrow> bool"
  for init ok step where
  reach_init: "init s \<Longrightarrow> reach init ok step s"
| reach_step: "reach init ok step s \<Longrightarrow> ok s x \<Longrightarrow> reach init ok step (step x s)"

lemma run_append: "run step (xs @ ys) s = run step ys (run step xs s)"
  by (induction xs arbitrary: s) auto

lemma run_ok_append:
  "run_ok ok step (xs @ ys) s \<longleftrightarrow> run_ok ok step xs s \<and> run_ok ok step ys (run step xs s)"
  by (induction xs arbitrary: s) auto

lemma reach_run: "reach init ok step s \<Longrightarrow> run_ok ok step xs s \<Longrightarrow> reach init ok step (run step xs s)"
  by (induction xs arbitrary: s) (auto intro: reach_step)

lemma reach_iff_run:
  "reach init ok step s \<longleftrightarrow> (\<exists>s0 xs. init s0 \<and> run_ok ok step xs s0 \<and> s = run step xs s0)"
proof
  show "reach init ok step s \<Longrightarrow> \<exists>s0 xs. init s0 \<and> run_ok ok step xs s0 \<and> s = run step xs s0"
  proof (induction rule: reach.induct)
    case (reach_init s)
    then show ?case by (metis run.simps(1) run_ok.simps(1))
  next
    case (reach_step s x)
    then obtain s0 xs where "init s0" "run_ok ok step xs s0" "s = run step xs s0" by blast
    with reach_step.hyps(2)
    have "run_ok ok step (xs @ [x]) s0 \<and> step x s = run step (xs @ [x]) s0"
      by (simp add: run_append run_ok_append)
    with \<open>init s0\<close> show ?case by blast
  qed
qed (auto intro: reach_run reach_init)

locale invariant_of =
  fixes init :: "'s \<Rightarrow> bool" and ok :: "'s \<Rightarrow> 'o \<Rightarrow> bool" and step :: "'o \<Rightarrow> 's \<Rightarrow> 's"
    and inv :: "'s \<Rightarrow> bool"
  assumes inv_init: "init s \<Longrightarrow> inv s"
    and inv_step: "inv s \<Longrightarrow> ok s x \<Longrightarrow> inv (step x s)"
begin

lemma reach_inv: "reach init ok step s \<Longrightarrow> inv s"
  by (induction rule: reach.induct) (auto intro: inv_init inv_step)

lemma run_inv: "inv s \<Longrightarrow> run_ok ok step xs s \<Longrightarrow> inv (run step xs s)"
  by (induction xs arbitrary: s) (auto intro: inv_step)

end

locale claim_lock = invariant_of init ok step inv
  for init :: "'s \<Rightarrow> bool" and ok :: "'s \<Rightarrow> 'o \<Rightarrow> bool" and step :: "'o \<Rightarrow> 's \<Rightarrow> 's"
    and inv :: "'s \<Rightarrow> bool" +
  fixes owner :: "'s \<Rightarrow> 'i \<Rightarrow> 't option"
    and acquires :: "'s \<Rightarrow> 'o \<Rightarrow> 'i \<Rightarrow> bool"
    and releases :: "'s \<Rightarrow> 'o \<Rightarrow> 'i \<Rightarrow> bool"
  assumes acquire_free: "inv s \<Longrightarrow> acquires s x i \<Longrightarrow> owner s i = None"
    and owner_kept: "inv s \<Longrightarrow> ok s x \<Longrightarrow> owner s i = Some t \<Longrightarrow> \<not> releases s x i \<Longrightarrow>
      owner (step x s) i = Some t"
begin

text \<open>As long as nothing releases an owned item, the owner stays and nobody acquires it.\<close>

lemma owner_kept_run:
  assumes "inv s" "run_ok ok step xs s" "owner s i = Some t"
    and "\<And>ys y zs. xs = ys @ y # zs \<Longrightarrow> \<not> releases (run step ys s) y i"
  shows "owner (run step xs s) i = Some t"
  using assms
proof (induction xs arbitrary: s)
  case (Cons x xs)
  have "\<not> releases s x i" using Cons.prems(4)[of "[]" x xs] by simp
  then have o: "owner (step x s) i = Some t" using Cons.prems by (auto intro: owner_kept)
  have "\<not> releases (run step ys (step x s)) y i" if "xs = ys @ y # zs" for ys y zs
    using Cons.prems(4)[of "x # ys" y zs] that by simp
  then show ?case
    using Cons.IH[of "step x s"] Cons.prems o by (auto intro: inv_step)
qed simp

lemma exclusive:
  assumes "inv s" "run_ok ok step xs s" "owner s i = Some t"
    and "acquires (run step xs s) x i"
  shows "\<exists>ys y zs. xs = ys @ y # zs \<and> releases (run step ys s) y i"
proof (rule ccontr)
  assume "\<not> ?thesis"
  then have "owner (run step xs s) i = Some t"
    using owner_kept_run[OF assms(1-3)] by blast
  moreover have "owner (run step xs s) i = None"
    using acquire_free[OF run_inv[OF assms(1,2)] assms(4)] .
  ultimately show False by simp
qed

end

end
