(* ===== verification/Lifecycle.thy ===== *)
theory Lifecycle
  imports Store Cli Trace
begin

text \<open>
  The life of a job, as a specification (\<open>job_step\<close>: what may happen to one row) and as the
  composition of the storage operations (\<open>apply_op\<close>), with the proof that the second implements the
  first, and the invariants of the database that follow.
\<close>

interpretation jt: keyed_table jID .

interpretation rt: keyed_table rID .

interpretation dt: keyed_table dlJobID .

section \<open>Specification: the transitions of one job\<close>

text \<open>
  \<open>job_step T rp j j'\<close>: one transition of a job. \<open>T\<close> holds the claim tokens a claim may take, \<open>rp\<close>
  tells whether dead jobs may be replayed.
\<close>

inductive job_step :: "uuid set \<Rightarrow> bool \<Rightarrow> job \<Rightarrow> job \<Rightarrow> bool" for T rp where
  claim: "jState j = StatePending \<Longrightarrow> tok \<in> T \<Longrightarrow>
    job_step T rp j (claim_row now w tok dl j)"
| start: "jState j = StateClaimed \<Longrightarrow> job_step T rp j (j\<lparr>jState := StateRunning\<rparr>)"
| beat: "in_flight (jState j) \<Longrightarrow> job_step T rp j (j\<lparr>jDeadline := Some dl\<rparr>)"
| succeed: "in_flight (jState j) \<Longrightarrow>
    job_step T rp j (complete_row now j)"
| fail: "in_flight (jState j) \<Longrightarrow> jAttempt j + 1 < jMaxRetries j \<Longrightarrow>
    job_step T rp j (fail_row StateFailed (jAttempt j + 1) m t j)"
| exhaust: "in_flight (jState j) \<Longrightarrow> jMaxRetries j \<le> jAttempt j + 1 \<Longrightarrow>
    job_step T rp j (fail_row StateDead (jAttempt j + 1) m None j)"
| reap: "in_flight (jState j) \<Longrightarrow> job_step T rp j (reap_row j)"
| due: "jState j = StateScheduled \<Longrightarrow> job_step T rp j (j\<lparr>jState := StatePending\<rparr>)"
| retry: "jState j = StateFailed \<Longrightarrow> job_step T rp j (j\<lparr>jState := StatePending, jRunAt := t\<rparr>)"
| replay: "rp \<Longrightarrow> jState j = StateDead \<Longrightarrow> job_step T rp j (reset_job j)"
| kill: "can_force_fail (jState j) \<Longrightarrow> job_step T rp j (force_failed j)"

inductive_cases job_stepE: "job_step T rp j j'"

lemmas row_defs = claim_row_def complete_row_def fail_row_def reap_row_def reap_state_def
  reset_job_def force_failed_def

lemma row_keys [simp]:
  "jID (claim_row now w t dl j) = jID j" "jID (complete_row now j) = jID j"
  "jID (fail_row st n m ra j) = jID j" "jID (reap_row j) = jID j" "jID (reset_job j) = jID j"
  "jID (force_failed j) = jID j"
  by (simp_all add: row_defs)

text \<open>What is true of every row at rest.\<close>

definition job_wf :: "job \<Rightarrow> bool" where
  "job_wf j \<longleftrightarrow>
     (jClaimToken j \<noteq> None \<longleftrightarrow> in_flight (jState j)) \<and>
     (jDeadline j \<noteq> None \<longleftrightarrow> in_flight (jState j)) \<and>
     (in_flight (jState j) \<longrightarrow> jClaimedAt j \<noteq> None \<and> jClaimedBy j \<noteq> None) \<and>
     (jCompletedAt j \<noteq> None \<longleftrightarrow> jState j = StateSucceeded) \<and>
     (jState j = StateDead \<longrightarrow> jLastError j \<noteq> None) \<and>
     0 \<le> jAttempt j \<and>
     (if jState j = StateDead then jAttempt j \<le> max 1 (jMaxRetries j)
      else jAttempt j = 0 \<or> jAttempt j < jMaxRetries j)"

lemma job_step_wf: "job_step T rp j j' \<Longrightarrow> job_wf j \<Longrightarrow> job_wf j'"
  by (induction rule: job_step.induct)
    (auto simp: job_wf_def in_flight_def row_defs can_force_fail_def)

lemma job_step_frame:
  "job_step T rp j j' \<Longrightarrow> jID j' = jID j \<and> jTenantID j' = jTenantID j \<and> jType j' = jType j \<and>
    jPayload j' = jPayload j \<and> jPriority j' = jPriority j \<and> jMaxRetries j' = jMaxRetries j \<and>
    jBackoffSeconds j' = jBackoffSeconds j \<and> jIdempotencyKey j' = jIdempotencyKey j \<and>
    jCreatedAt j' = jCreatedAt j"
  by (induction rule: job_step.induct) (auto simp: row_defs)

lemma job_step_token:
  "job_step T rp j j' \<Longrightarrow> jClaimToken j' = Some t \<Longrightarrow> jClaimToken j = Some t \<or> t \<in> T"
  by (induction rule: job_step.induct) (auto simp: row_defs)

lemma job_step_terminal:
  "job_step T rp j j' \<Longrightarrow> jState j = StateSucceeded \<Longrightarrow> False"
  "job_step T False j j' \<Longrightarrow> jState j = StateDead \<Longrightarrow> False"
  by (auto elim!: job_stepE simp: in_flight_def can_force_fail_def)

section \<open>Tables\<close>

text \<open>A statement that names job \<open>i\<close> changes that row only, by a transition.\<close>

definition rows_step :: "uuid set \<Rightarrow> bool \<Rightarrow> uuid \<Rightarrow> job list \<Rightarrow> job list \<Rightarrow> bool" where
  "rows_step T rp i = list_all2 (\<lambda>r r'. r' = r \<or> (jID r = i \<and> job_step T rp r r'))"

lemma rows_step_refl [simp, intro]: "rows_step T rp i t t"
  by (simp add: rows_step_def list_all2_refl)

lemma rows_step_update:
  "(\<And>r. r \<in> set t \<Longrightarrow> p r \<Longrightarrow> jID r = i \<and> job_step T rp r (f r)) \<Longrightarrow> rows_step T rp i t (sql_update p f t)"
  unfolding rows_step_def sql_update_def by (induction t) auto

lemma rows_step_keys: "rows_step T rp i t t' \<Longrightarrow> map jID t' = map jID t"
  unfolding rows_step_def by (induction rule: list_all2_induct) (auto dest: job_step_frame)

lemma rows_step_unique: "rows_step T rp i t t' \<Longrightarrow> unique_key jID t \<Longrightarrow> unique_key jID t'"
  by (simp add: unique_key_def rows_step_keys)

lemma rows_step_lookup:
  "rows_step T rp i t t' \<Longrightarrow> lookup jID k t = Some r \<Longrightarrow>
    \<exists>r'. lookup jID k t' = Some r' \<and> (r' = r \<or> (k = i \<and> job_step T rp r r'))"
  unfolding rows_step_def
  by (induction rule: list_all2_induct) (auto dest: job_step_frame split: if_splits)

lemma rows_step_in:
  "rows_step T rp i t t' \<Longrightarrow> r' \<in> set t' \<Longrightarrow>
    \<exists>r \<in> set t. r' = r \<or> (jID r = i \<and> job_step T rp r r')"
  unfolding rows_step_def by (induction rule: list_all2_induct) auto

section \<open>The operations as steps\<close>

datatype op =
    Op_InsertJob env job
  | Op_TryClaim env uuid uuid string uuid time
  | Op_MarkRunning env uuid uuid
  | Op_ExtendDeadline env uuid uuid time
  | Op_CompleteJob env uuid uuid uuid
  | Op_FailJob env uuid uuid uuid string "time option"
  | Op_RequeueStaleJob env uuid
  | Op_MoveToDeadLetter env uuid
  | Op_CancelJob env uuid uuid
  | Op_ReplayJob env env uuid uuid
  | Op_PromoteScheduledToPending env uuid
  | Op_PromoteFailedToPending env uuid
  | Op_CliReset env uuid
  | Op_CliForceFail env uuid

fun apply_op :: "op \<Rightarrow> db \<Rightarrow> db" where
  "apply_op (Op_InsertJob e j) d = fst (InsertJob e j d)"
| "apply_op (Op_TryClaim e r i w t dl) d = fst (TryClaim e r i w t dl d)"
| "apply_op (Op_MarkRunning e i t) d = fst (MarkRunning e i t d)"
| "apply_op (Op_ExtendDeadline e i t dl) d = fst (ExtendDeadline e i t dl d)"
| "apply_op (Op_CompleteJob e i r t) d = fst (CompleteJob e i r t d)"
| "apply_op (Op_FailJob e i r t m n) d = fst (FailJob e i r t m n d)"
| "apply_op (Op_RequeueStaleJob e i) d = fst (RequeueStaleJob e i d)"
| "apply_op (Op_MoveToDeadLetter e i) d = fst (MoveToDeadLetter e i d)"
| "apply_op (Op_CancelJob e i tn) d = fst (CancelJob e i tn d)"
| "apply_op (Op_ReplayJob e e' i tn) d = fst (ReplayJob e e' i tn d)"
| "apply_op (Op_PromoteScheduledToPending e i) d = fst (PromoteScheduledToPending e i d)"
| "apply_op (Op_PromoteFailedToPending e i) d = fst (PromoteFailedToPending e i d)"
| "apply_op (Op_CliReset e i) d = fst (cli_reset e i d)"
| "apply_op (Op_CliForceFail e i) d = fst (cli_force_fail e i d)"

text \<open>
  What the callers guarantee: new jobs start at attempt 0, pending or scheduled; ids made by
  \<open>uuid.New\<close> (job ids, run ids, claim tokens) are not in use.
\<close>

fun op_ok :: "db \<Rightarrow> op \<Rightarrow> bool" where
  "op_ok d (Op_InsertJob e j) =
     ((jState j = StatePending \<or> jState j = StateScheduled) \<and> jAttempt j = 0 \<and>
      jID j \<notin> rJobID ` set (job_runs d))"
| "op_ok d (Op_TryClaim e r i w t dl) =
     (r \<notin> rID ` set (job_runs d) \<and> Some t \<notin> jClaimToken ` set (jobs d))"
| "op_ok d _ = True"

fun op_job :: "op \<Rightarrow> uuid" where
  "op_job (Op_InsertJob e j) = jID j"
| "op_job (Op_TryClaim e r i w t dl) = i"
| "op_job (Op_MarkRunning e i t) = i"
| "op_job (Op_ExtendDeadline e i t dl) = i"
| "op_job (Op_CompleteJob e i r t) = i"
| "op_job (Op_FailJob e i r t m n) = i"
| "op_job (Op_RequeueStaleJob e i) = i"
| "op_job (Op_MoveToDeadLetter e i) = i"
| "op_job (Op_CancelJob e i tn) = i"
| "op_job (Op_ReplayJob e e' i tn) = i"
| "op_job (Op_PromoteScheduledToPending e i) = i"
| "op_job (Op_PromoteFailedToPending e i) = i"
| "op_job (Op_CliReset e i) = i"
| "op_job (Op_CliForceFail e i) = i"

fun op_tokens :: "op \<Rightarrow> uuid set" where
  "op_tokens (Op_TryClaim e r i w t dl) = {t}"
| "op_tokens _ = {}"

fun is_replay :: "op \<Rightarrow> bool" where
  "is_replay (Op_ReplayJob e e' i tn) = True"
| "is_replay (Op_CliReset e i) = True"
| "is_replay _ = False"

lemma autocommit_fst:
  "P d \<Longrightarrow> P (fst ok) \<Longrightarrow> P (fst (autocommit e i w d ok))"
  by (simp add: autocommit_def split: option.split)

lemma in_tx_fst:
  "P d \<Longrightarrow> P (fst rest) \<Longrightarrow> P (fst (in_tx e i w d rest))"
  by (simp add: in_tx_def split: option.split)

lemma autocommit_calm [simp]: "calm e \<Longrightarrow> autocommit e i w d ok = ok"
  by (simp add: autocommit_def calm_def)

lemma in_tx_calm [simp]: "calm e \<Longrightarrow> in_tx e i w d rest = rest"
  by (simp add: in_tx_def calm_def)

lemma query_calm [simp]: "calm e \<Longrightarrow> query e i w r = r"
  by (simp add: query_def calm_def)

section \<open>The operations implement the specification\<close>

lemma same_row:
  "unique_key jID t \<Longrightarrow> r \<in> set t \<Longrightarrow> r' \<in> set t \<Longrightarrow> jID r = jID r' \<Longrightarrow> r = r'"
  by (rule jt.unique_eq)

text \<open>What each operation can have done to the database, whatever failed on the way.\<close>

lemma TryClaim_cases:
  obtains (same) "fst (TryClaim e r i w t dl d) = d"
  | (claimed) j where "j \<in> set (jobs d)" "jID j = i" "jState j = StatePending" "\<not> locked e"
      "fst (TryClaim e r i w t dl d) = claimed_db (go_now e) r i w t dl d"
proof -
  have "fst (TryClaim e r i w t dl d) = d \<or>
      (\<exists>j \<in> set (jobs d). jID j = i \<and> jState j = StatePending) \<and> \<not> locked e \<and>
      fst (TryClaim e r i w t dl d) = claimed_db (go_now e) r i w t dl d"
    unfolding TryClaim_def by (auto simp: in_tx_def autocommit_def split: option.splits)
  then show thesis using same claimed by blast
qed

lemma CompleteJob_cases:
  obtains (same) "fst (CompleteJob e i r t d) = d"
  | (completed) rs where "fst (CompleteJob e i r t d) =
        d\<lparr>jobs := sql_update (owns i t) (complete_row (go_now e)) (jobs d), job_runs := rs\<rparr>"
      "rs = job_runs d \<or>
        sql_update_try (\<lambda>x. rID x = r) (close_run StateSucceeded (go_now e) None) (job_runs d) = Some rs"
proof -
  have "fst (CompleteJob e i r t d) = d \<or> (\<exists>rs. fst (CompleteJob e i r t d) =
        d\<lparr>jobs := sql_update (owns i t) (complete_row (go_now e)) (jobs d), job_runs := rs\<rparr> \<and>
      (rs = job_runs d \<or>
        sql_update_try (\<lambda>x. rID x = r) (close_run StateSucceeded (go_now e) None) (job_runs d) = Some rs))"
    unfolding CompleteJob_def Let_def
    by (auto simp: autocommit_def split: option.splits intro: exI[of _ "job_runs d"])
  then show thesis using same completed by blast
qed

lemma FailJob_cases:
  obtains (same) "fst (FailJob e i r t m n d) = d"
  | (failed) cur st rs where "cur \<in> set (jobs d)" "owns i t cur"
      "st = (if jMaxRetries cur \<le> jAttempt cur + 1 then StateDead else StateFailed)"
      "fst (FailJob e i r t m n d) =
        d\<lparr>jobs := sql_update (\<lambda>j. jID j = i)
            (fail_row st (jAttempt cur + 1) m (if st = StateDead then None else n)) (jobs d), job_runs := rs\<rparr>"
      "sql_update_try (\<lambda>x. rID x = r) (close_run st (go_now e) (Some m)) (job_runs d) = Some rs"
proof -
  show thesis
  proof (cases "find (owns i t) (jobs d)")
    case None
    then have "fst (FailJob e i r t m n d) = d"
      by (simp add: FailJob_def in_tx_def split: option.split)
    then show thesis by (rule same)
  next
    case (Some cur)
    then have cur: "cur \<in> set (jobs d)" "owns i t cur" by (auto simp: find_Some_iff)
    define st where "st = (if jMaxRetries cur \<le> jAttempt cur + 1 then StateDead else StateFailed)"
    have "fst (FailJob e i r t m n d) = d \<or> (\<exists>rs. fst (FailJob e i r t m n d) =
        d\<lparr>jobs := sql_update (\<lambda>j. jID j = i)
            (fail_row st (jAttempt cur + 1) m (if st = StateDead then None else n)) (jobs d), job_runs := rs\<rparr> \<and>
        sql_update_try (\<lambda>x. rID x = r) (close_run st (go_now e) (Some m)) (job_runs d) = Some rs)"
      unfolding FailJob_def Let_def Some st_def
      by (auto simp: in_tx_def autocommit_def split: option.splits)
    with cur st_def show thesis using same failed by blast
  qed
qed

lemma RequeueStaleJob_cases:
  obtains (same) "fst (RequeueStaleJob e i d) = d"
  | (reaped) rs where "fst (RequeueStaleJob e i d) =
        d\<lparr>jobs := sql_update (\<lambda>j. jID j = i \<and> expired (pg_now e) j) reap_row (jobs d), job_runs := rs\<rparr>"
      "sql_update_try (\<lambda>x. rJobID x = i \<and> rFinishedAt x = None)
        (close_run StateFailed (go_now e) (Some ''worker heartbeat expired'')) (job_runs d) = Some rs"
proof -
  have noop: "sql_update (\<lambda>j. jID j = i \<and> expired (pg_now e) j) reap_row (jobs d) = jobs d"
    if "find (\<lambda>j. jID j = i \<and> expired (pg_now e) j) (jobs d) = None"
    using that by (auto simp: find_None_iff intro: sql_update_noop)
  have "fst (RequeueStaleJob e i d) = d \<or> (\<exists>rs. fst (RequeueStaleJob e i d) =
        d\<lparr>jobs := sql_update (\<lambda>j. jID j = i \<and> expired (pg_now e) j) reap_row (jobs d), job_runs := rs\<rparr> \<and>
      sql_update_try (\<lambda>x. rJobID x = i \<and> rFinishedAt x = None)
        (close_run StateFailed (go_now e) (Some ''worker heartbeat expired'')) (job_runs d) = Some rs)"
    unfolding RequeueStaleJob_def Let_def
    by (auto simp: in_tx_def autocommit_def noop split: option.splits)
  then show thesis using same reaped by blast
qed

lemma cases_1:
  "fst (MarkRunning e i t d) \<in> {d, d\<lparr>jobs := sql_update
     (\<lambda>j. jID j = i \<and> jClaimToken j = Some t \<and> jState j = StateClaimed) (\<lambda>j. j\<lparr>jState := StateRunning\<rparr>) (jobs d)\<rparr>}"
  "fst (ExtendDeadline e i t dl d) \<in> {d, d\<lparr>jobs := sql_update (owns i t) (\<lambda>j. j\<lparr>jDeadline := Some dl\<rparr>) (jobs d)\<rparr>}"
  "fst (ReplayJob e e' i tn d) \<in> {d, d\<lparr>jobs := sql_update
     (\<lambda>j. jID j = i \<and> jTenantID j = tn \<and> jState j = StateDead) reset_job (jobs d)\<rparr>}"
  "fst (PromoteScheduledToPending e i d) \<in> {d, d\<lparr>jobs := sql_update
     (\<lambda>j. jID j = i \<and> jState j = StateScheduled) (\<lambda>j. j\<lparr>jState := StatePending\<rparr>) (jobs d)\<rparr>}"
  "fst (PromoteFailedToPending e i d) \<in> {d, d\<lparr>jobs := sql_update
     (\<lambda>j. jID j = i \<and> jState j = StateFailed) (\<lambda>j. j\<lparr>jState := StatePending, jRunAt := pg_now e\<rparr>) (jobs d)\<rparr>}"
  "fst (cli_reset e i d) \<in> {d, d\<lparr>jobs := sql_update
     (\<lambda>j. jID j = i \<and> jState j = StateDead) reset_job (jobs d)\<rparr>}"
  "fst (cli_force_fail e i d) \<in> {d, d\<lparr>jobs := sql_update
     (\<lambda>j. jID j = i \<and> can_force_fail (jState j)) force_failed (jobs d)\<rparr>}"
  by (simp_all add: MarkRunning_def ExtendDeadline_def ReplayJob_def PromoteScheduledToPending_def
      PromoteFailedToPending_def cli_reset_def cli_force_fail_def autocommit_def Let_def split: option.split)

lemma cases_insert:
  "fst (InsertJob e j d) \<noteq> d \<Longrightarrow>
    fst (InsertJob e j d) = d\<lparr>jobs := jobs d @ [inserted_row j]\<rparr> \<and> \<not> unique_violated d j"
  by (auto simp: InsertJob_def Let_def split: option.splits if_splits)

lemma cases_cancel:
  "fst (CancelJob e i tn d) \<in> {d, d\<lparr>jobs := sql_delete (\<lambda>j. jID j = i \<and> jTenantID j = tn \<and>
     (jState j = StatePending \<or> jState j = StateScheduled)) (jobs d)\<rparr>}"
  by (simp add: CancelJob_def autocommit_def Let_def split: option.split)

lemma cases_dead_letter:
  "jobs (fst (MoveToDeadLetter e i d)) = jobs d \<and> job_runs (fst (MoveToDeadLetter e i d)) = job_runs d"
  by (simp add: MoveToDeadLetter_def in_tx_def autocommit_def split: option.split)

lemma TryClaim_rows:
  assumes "unique_key jID (jobs d)"
  shows "rows_step {t} rp i (jobs d) (jobs (fst (TryClaim e r i w t dl d)))"
proof (cases rule: TryClaim_cases[of e r i w t dl d])
  case (claimed j)
  then have "\<And>x. x \<in> set (jobs d) \<Longrightarrow> jID x = i \<Longrightarrow> jState x = StatePending"
    using same_row[OF assms] by blast
  with claimed(5) show ?thesis
    by (auto simp: claimed_db_def intro!: rows_step_update job_step.claim)
qed simp

lemma FailJob_rows:
  assumes "unique_key jID (jobs d)"
  shows "rows_step {} rp i (jobs d) (jobs (fst (FailJob e i r t m n d)))"
proof (cases rule: FailJob_cases[of e i r t m n d])
  case (failed cur st rs)
  then have "x = cur" if "x \<in> set (jobs d)" "jID x = i" for x
    using same_row[OF assms] that by (auto simp: owns_def)
  moreover have "job_step {} rp cur (fail_row st (jAttempt cur + 1) m (if st = StateDead then None else n) cur)"
    using failed(2,3) by (auto simp: owns_def intro: job_step.fail job_step.exhaust)
  ultimately show ?thesis
    unfolding failed(4) by (auto intro!: rows_step_update)
qed simp

lemma CompleteJob_rows: "rows_step {} rp i (jobs d) (jobs (fst (CompleteJob e i r t d)))"
proof (cases rule: CompleteJob_cases[of e i r t d])
  case (completed rs)
  then show ?thesis by (auto simp: owns_def intro!: rows_step_update job_step.succeed)
qed simp

lemma RequeueStaleJob_rows: "rows_step {} rp i (jobs d) (jobs (fst (RequeueStaleJob e i d)))"
proof (cases rule: RequeueStaleJob_cases[of e i d])
  case (reaped rs)
  then show ?thesis by (auto simp: expired_def intro!: rows_step_update job_step.reap)
qed simp

lemma rows_either:
  "x \<in> {d, d\<lparr>jobs := sql_update p f (jobs d)\<rparr>} \<Longrightarrow>
    (\<And>r. p r \<Longrightarrow> jID r = i \<and> job_step T rp r (f r)) \<Longrightarrow> rows_step T rp i (jobs d) (jobs x)"
  using rows_step_update[of "jobs d" p i T rp f] by auto

lemma MarkRunning_rows: "rows_step {} rp i (jobs d) (jobs (fst (MarkRunning e i t d)))"
  by (rule rows_either[OF cases_1(1)]) (auto intro: job_step.start)

lemma ExtendDeadline_rows: "rows_step {} rp i (jobs d) (jobs (fst (ExtendDeadline e i t dl d)))"
  by (rule rows_either[OF cases_1(2)]) (auto simp: owns_def intro: job_step.beat)

lemma ReplayJob_rows: "rows_step {} True i (jobs d) (jobs (fst (ReplayJob e e' i tn d)))"
  by (rule rows_either[OF cases_1(3)]) (auto intro: job_step.replay)

lemma PromoteScheduled_rows: "rows_step {} rp i (jobs d) (jobs (fst (PromoteScheduledToPending e i d)))"
  by (rule rows_either[OF cases_1(4)]) (auto intro: job_step.due)

lemma PromoteFailed_rows: "rows_step {} rp i (jobs d) (jobs (fst (PromoteFailedToPending e i d)))"
  by (rule rows_either[OF cases_1(5)]) (auto intro: job_step.retry)

lemma cli_reset_rows: "rows_step {} True i (jobs d) (jobs (fst (cli_reset e i d)))"
  by (rule rows_either[OF cases_1(6)]) (auto intro: job_step.replay)

lemma cli_force_fail_rows: "rows_step {} rp i (jobs d) (jobs (fst (cli_force_fail e i d)))"
  by (rule rows_either[OF cases_1(7)]) (auto intro: job_step.kill)

lemmas op_rows = TryClaim_rows FailJob_rows CompleteJob_rows RequeueStaleJob_rows MarkRunning_rows
  ExtendDeadline_rows ReplayJob_rows PromoteScheduled_rows PromoteFailed_rows cli_reset_rows
  cli_force_fail_rows

text \<open>The operations that add or remove rows.\<close>

fun is_insert :: "op \<Rightarrow> bool" where
  "is_insert (Op_InsertJob e j) = True"
| "is_insert _ = False"

fun is_cancel :: "op \<Rightarrow> bool" where
  "is_cancel (Op_CancelJob e i tn) = True"
| "is_cancel _ = False"

lemma apply_op_rows:
  assumes "unique_key jID (jobs d)" "\<not> is_insert x" "\<not> is_cancel x"
  shows "rows_step (op_tokens x) (is_replay x) (op_job x) (jobs d) (jobs (apply_op x d))"
  using assms by (cases x) (simp_all add: op_rows cases_dead_letter)

section \<open>The invariant of the database\<close>

definition keys_unique :: "job list \<Rightarrow> bool" where
  "keys_unique t \<longleftrightarrow> (\<forall>r \<in> set t. \<forall>s \<in> set t. \<forall>k.
     jTenantID r = jTenantID s \<and> jIdempotencyKey r = Some k \<and> jIdempotencyKey s = Some k \<longrightarrow> jID r = jID s)"

definition tokens_unique :: "job list \<Rightarrow> bool" where
  "tokens_unique t \<longleftrightarrow> (\<forall>r \<in> set t. \<forall>s \<in> set t. \<forall>k.
     jClaimToken r = Some k \<and> jClaimToken s = Some k \<longrightarrow> jID r = jID s)"

definition db_inv :: "db \<Rightarrow> bool" where
  "db_inv d \<longleftrightarrow>
     unique_key jID (jobs d) \<and> (\<forall>j \<in> set (jobs d). job_wf j) \<and>
     keys_unique (jobs d) \<and> tokens_unique (jobs d) \<and>
     unique_key rID (job_runs d) \<and> unique_key dlJobID (dead_letter d)"

definition jobs_inv :: "job list \<Rightarrow> bool" where
  "jobs_inv t \<longleftrightarrow> unique_key jID t \<and> (\<forall>j \<in> set t. job_wf j) \<and> keys_unique t \<and> tokens_unique t"

lemma db_inv_alt:
  "db_inv d \<longleftrightarrow> jobs_inv (jobs d) \<and> unique_key rID (job_runs d) \<and> unique_key dlJobID (dead_letter d)"
  by (auto simp: db_inv_def jobs_inv_def)

lemma jobs_inv_rows:
  assumes "jobs_inv t" "rows_step T rp i t t'" "\<forall>tok \<in> T. Some tok \<notin> jClaimToken ` set t"
  shows "jobs_inv t'"
proof -
  note src = rows_step_in[OF assms(2)]
  have "unique_key jID t'" using assms(1,2) rows_step_unique by (auto simp: jobs_inv_def)
  moreover have "\<forall>j \<in> set t'. job_wf j"
    using src assms(1) job_step_wf by (auto simp: jobs_inv_def) blast
  moreover have "keys_unique t'"
    unfolding keys_unique_def
  proof (intro ballI allI impI)
    fix r' s' k assume rs: "r' \<in> set t'" "s' \<in> set t'"
      and k: "jTenantID r' = jTenantID s' \<and> jIdempotencyKey r' = Some k \<and> jIdempotencyKey s' = Some k"
    obtain r s where "r \<in> set t" "jID r = jID r'" "jTenantID r = jTenantID r'" "jIdempotencyKey r = jIdempotencyKey r'"
      "s \<in> set t" "jID s = jID s'" "jTenantID s = jTenantID s'" "jIdempotencyKey s = jIdempotencyKey s'"
      using src[OF rs(1)] src[OF rs(2)] job_step_frame by metis
    with k assms(1) show "jID r' = jID s'" unfolding jobs_inv_def keys_unique_def by metis
  qed
  moreover have "tokens_unique t'"
    unfolding tokens_unique_def
  proof (intro ballI allI impI)
    fix r' s' tok assume rs: "r' \<in> set t'" "s' \<in> set t'"
      and "jClaimToken r' = Some tok \<and> jClaimToken s' = Some tok"
    then have tok: "jClaimToken r' = Some tok" "jClaimToken s' = Some tok" by auto
    obtain r where r: "r \<in> set t" "jID r = jID r'" "jClaimToken r = Some tok \<or> (jID r = i \<and> tok \<in> T)"
      using src[OF rs(1)] job_step_frame job_step_token tok(1) by metis
    obtain s where s: "s \<in> set t" "jID s = jID s'" "jClaimToken s = Some tok \<or> (jID s = i \<and> tok \<in> T)"
      using src[OF rs(2)] job_step_frame job_step_token tok(2) by metis
    have "jClaimToken x = Some tok \<Longrightarrow> x \<in> set t \<Longrightarrow> tok \<notin> T" for x
      using assms(3) by (metis image_eqI)
    with r s have "jClaimToken r = Some tok \<and> jClaimToken s = Some tok \<or> jID r = jID s" by metis
    then show "jID r' = jID s'"
      using r(1,2) s(1,2) assms(1) unfolding jobs_inv_def tokens_unique_def by metis
  qed
  ultimately show ?thesis by (simp add: jobs_inv_def)
qed

lemma keys_unique_snoc:
  "keys_unique t \<Longrightarrow>
    \<forall>r \<in> set t. jIdempotencyKey j \<noteq> None \<and> jTenantID r = jTenantID j \<longrightarrow> jIdempotencyKey r \<noteq> jIdempotencyKey j \<Longrightarrow>
    keys_unique (t @ [j])"
  unfolding keys_unique_def by (simp add: ball_Un) (metis option.distinct(1))

lemma tokens_unique_snoc: "tokens_unique t \<Longrightarrow> jClaimToken j = None \<Longrightarrow> tokens_unique (t @ [j])"
  unfolding tokens_unique_def by (simp add: ball_Un)

lemma jobs_inv_insert:
  assumes "jobs_inv (jobs d)" "\<not> unique_violated d j"
    and "jState j = StatePending \<or> jState j = StateScheduled" "jAttempt j = 0"
  shows "jobs_inv (jobs d @ [inserted_row j])"
proof -
  have wf: "job_wf (inserted_row j)"
    using assms(3,4) by (auto simp: job_wf_def inserted_row_def in_flight_def)
  have row: "jID (inserted_row j) = jID j" "jTenantID (inserted_row j) = jTenantID j"
      "jIdempotencyKey (inserted_row j) = jIdempotencyKey j" "jClaimToken (inserted_row j) = None"
    by (simp_all add: inserted_row_def)
  have "jID j \<notin> jID ` set (jobs d)"
    using assms(2) by (auto simp: unique_violated_def)
  then have "unique_key jID (jobs d @ [inserted_row j])"
    using assms(1) by (simp add: jobs_inv_def unique_key_def row)
  moreover have "keys_unique (jobs d @ [inserted_row j])"
    using assms(1,2) by (intro keys_unique_snoc) (auto simp: jobs_inv_def unique_violated_def row)
  moreover have "tokens_unique (jobs d @ [inserted_row j])"
    using assms(1) by (intro tokens_unique_snoc) (simp_all add: jobs_inv_def row)
  ultimately show ?thesis using wf assms(1) by (simp add: jobs_inv_def)
qed

lemma jobs_inv_subset:
  "jobs_inv t \<Longrightarrow> jobs_inv (sql_delete p t)"
  using jt.unique_delete[of t p]
  by (auto simp: jobs_inv_def keys_unique_def tokens_unique_def sql_delete_def)

lemma sql_update_try_map:
  "sql_update_try p f t = Some t' \<Longrightarrow> (\<And>r r'. f r = Some r' \<Longrightarrow> g r' = g r) \<Longrightarrow> map g t' = map g t"
  by (auto simp: sql_update_try_def split: if_splits)

lemma close_run_frame:
  "close_run st now m r = Some r' \<Longrightarrow> rID r' = rID r \<and> rJobID r' = rJobID r \<and> rTenantID r' = rTenantID r \<and>
    rAttempt r' = rAttempt r \<and> rStartedAt r' = rStartedAt r"
  by (auto simp: close_run_def)

lemma closed_runs_ids:
  "sql_update_try p (close_run st now m) t = Some t' \<Longrightarrow> map rID t' = map rID t \<and> map rJobID t' = map rJobID t"
  using sql_update_try_map[where g = rID] sql_update_try_map[where g = rJobID] close_run_frame by blast

text \<open>What an operation does to the table of runs: a claim appends one, nothing else adds or removes.\<close>

lemma claimed_runs:
  assumes "unique_key jID (jobs d)" "j \<in> set (jobs d)" "jID j = i"
  shows "job_runs (claimed_db now r i w t dl d) = job_runs d @ [new_run r now (claim_row now w t dl j)]"
proof -
  have "filter (\<lambda>x. jID x = i) (sql_update (\<lambda>x. jID x = i) (claim_row now w t dl) u) =
      map (claim_row now w t dl) (filter (\<lambda>x. jID x = i) u)" for u
    by (induction u) (auto simp: sql_update_def claim_row_def)
  moreover have "filter (\<lambda>x. jID x = i) (jobs d) = [j]"
    using jt.filter_key[OF assms(1,2)] assms(3) by simp
  ultimately show ?thesis by (simp add: claimed_db_def)
qed

fun is_claim :: "op \<Rightarrow> bool" where
  "is_claim (Op_TryClaim e r i w t dl) = True"
| "is_claim _ = False"

lemma runs_either: "x \<in> {d, d\<lparr>jobs := t\<rparr>} \<Longrightarrow> job_runs x = job_runs d \<and> dead_letter x = dead_letter d"
  by auto

lemma runs_other:
  assumes "\<not> is_claim x"
  shows "map rID (job_runs (apply_op x d)) = map rID (job_runs d) \<and>
    map rJobID (job_runs (apply_op x d)) = map rJobID (job_runs d)"
proof (cases x)
  case (Op_InsertJob e j)
  then show ?thesis using cases_insert[of e j d] by fastforce
next
  case (Op_CompleteJob e i r t)
  then show ?thesis
    by (cases rule: CompleteJob_cases[of e i r t d]) (auto dest: closed_runs_ids)
next
  case (Op_FailJob e i r t m n)
  then show ?thesis
    by (cases rule: FailJob_cases[of e i r t m n d]) (auto dest: closed_runs_ids)
next
  case (Op_RequeueStaleJob e i)
  then show ?thesis
    by (cases rule: RequeueStaleJob_cases[of e i d]) (auto dest: closed_runs_ids)
next
  case (Op_MoveToDeadLetter e i)
  then show ?thesis by (simp add: cases_dead_letter)
next
  case (Op_CancelJob e i tn)
  then show ?thesis using runs_either[OF cases_cancel[of e i tn d]] by simp
qed (use assms in \<open>simp_all add: runs_either[OF cases_1(1)] runs_either[OF cases_1(2)]
    runs_either[OF cases_1(3)] runs_either[OF cases_1(4)] runs_either[OF cases_1(5)]
    runs_either[OF cases_1(6)] runs_either[OF cases_1(7)]\<close>)

lemma runs_claim [consumes 1, case_names none one]:
  assumes "unique_key jID (jobs d)"
  obtains (none) "fst (TryClaim e r i w t dl d) = d"
  | (one) j where "j \<in> set (jobs d)" "jID j = i" "jState j = StatePending"
      "job_runs (fst (TryClaim e r i w t dl d)) = job_runs d @ [new_run r (go_now e) (claim_row (go_now e) w t dl j)]"
      "jobs (fst (TryClaim e r i w t dl d)) = sql_update (\<lambda>j. jID j = i) (claim_row (go_now e) w t dl) (jobs d)"
proof (cases rule: TryClaim_cases[of e r i w t dl d])
  case (claimed j)
  then show thesis
    using one claimed_runs[OF assms claimed(1,2)] by (simp add: claimed_db_def)
qed (rule none)

lemma dead_letter_other:
  assumes "\<And>e i. x \<noteq> Op_MoveToDeadLetter e i"
  shows "dead_letter (apply_op x d) = dead_letter d"
proof (cases x)
  case (Op_InsertJob e j)
  then show ?thesis using cases_insert[of e j d] by fastforce
next
  case (Op_TryClaim e r i w t dl)
  then show ?thesis
    by (cases rule: TryClaim_cases[of e r i w t dl d]) (auto simp: claimed_db_def)
next
  case (Op_CompleteJob e i r t)
  then show ?thesis by (cases rule: CompleteJob_cases[of e i r t d]) auto
next
  case (Op_FailJob e i r t m n)
  then show ?thesis by (cases rule: FailJob_cases[of e i r t m n d]) auto
next
  case (Op_RequeueStaleJob e i)
  then show ?thesis by (cases rule: RequeueStaleJob_cases[of e i d]) auto
next
  case (Op_CancelJob e i tn)
  then show ?thesis using runs_either[OF cases_cancel[of e i tn d]] by simp
qed (use assms in \<open>simp_all add: runs_either[OF cases_1(1)] runs_either[OF cases_1(2)]
    runs_either[OF cases_1(3)] runs_either[OF cases_1(4)] runs_either[OF cases_1(5)]
    runs_either[OF cases_1(6)] runs_either[OF cases_1(7)]\<close>)

lemma MoveToDeadLetter_unique:
  assumes "unique_key jID (jobs d)" "unique_key dlJobID (dead_letter d)"
  shows "unique_key dlJobID (dead_letter (fst (MoveToDeadLetter e i d)))"
proof -
  have "distinct (map jID (filter (\<lambda>j. jID j = i \<and> jState j = StateDead \<and> jID j \<notin> dlJobID ` set (dead_letter d)) (jobs d)))"
    using assms(1) by (simp add: unique_key_def distinct_map_filter)
  with assms(2) show ?thesis
    unfolding MoveToDeadLetter_def in_tx_def autocommit_def
    by (auto simp: unique_key_def comp_def split: option.split)
qed

lemma apply_op_jobs_inv:
  assumes "jobs_inv (jobs d)" "op_ok d x"
  shows "jobs_inv (jobs (apply_op x d))"
proof (cases "is_insert x \<or> is_cancel x")
  case False
  have "\<forall>tok \<in> op_tokens x. Some tok \<notin> jClaimToken ` set (jobs d)"
    using assms(2) by (cases x) auto
  with False assms(1) show ?thesis
    by (intro jobs_inv_rows[OF assms(1) apply_op_rows]) (auto simp: jobs_inv_def)
next
  case True
  then show ?thesis
  proof (cases x)
    case (Op_InsertJob e j)
    then show ?thesis
      using cases_insert[of e j d] jobs_inv_insert[of d j] assms by fastforce
  next
    case (Op_CancelJob e i tn)
    then show ?thesis
      using cases_cancel[of e i tn d] jobs_inv_subset[OF assms(1)] assms(1) by auto
  qed auto
qed

definition db_init :: "db \<Rightarrow> bool" where
  "db_init d \<longleftrightarrow> jobs d = [] \<and> job_runs d = [] \<and> dead_letter d = []"

lemma db_inv_init: "db_init d \<Longrightarrow> db_inv d"
  by (simp add: db_init_def db_inv_def unique_key_def keys_unique_def tokens_unique_def)

lemma db_inv_step:
  assumes "db_inv d" "op_ok d x"
  shows "db_inv (apply_op x d)"
proof -
  have u: "unique_key jID (jobs d)" using assms(1) by (simp add: db_inv_def)
  have "jobs_inv (jobs (apply_op x d))"
    using assms by (auto simp: db_inv_alt intro: apply_op_jobs_inv)
  moreover have "unique_key rID (job_runs (apply_op x d))"
  proof (cases "is_claim x")
    case True
    then obtain e r i w t dl where x: "x = Op_TryClaim e r i w t dl" by (cases x) auto
    from u show ?thesis
    proof (cases rule: runs_claim[where e = e and r = r and i = i and w = w and t = t and dl = dl])
      case (one j)
      then show ?thesis
        using assms x by (auto simp: db_inv_def unique_key_def new_run_def)
    qed (use assms x in \<open>simp add: db_inv_def\<close>)
  next
    case False
    then show ?thesis using runs_other[of x d] assms(1) by (simp add: db_inv_def unique_key_def)
  qed
  moreover have "unique_key dlJobID (dead_letter (apply_op x d))"
  proof (cases "\<exists>e i. x = Op_MoveToDeadLetter e i")
    case True
    then show ?thesis using MoveToDeadLetter_unique[OF u] assms(1) by (auto simp: db_inv_def)
  next
    case False
    then show ?thesis using dead_letter_other[of x d] assms(1) by (simp add: db_inv_def)
  qed
  ultimately show ?thesis by (simp add: db_inv_alt)
qed

interpretation lc: invariant_of db_init op_ok apply_op db_inv
  by unfold_locales (fact db_inv_init, fact db_inv_step)

end
