(* ===== verification/Store_Admin.thy ===== *)
theory Store_Admin
  imports Store
begin

text \<open>
  internal/storage/storage.go, second half: schedules, the lookup of tenants, and the queries of
  the dashboard. The collation that \<open>ORDER BY name\<close> uses is the server's, the parameter \<open>coll\<close>.
\<close>

section \<open>Schedules\<close>

text \<open>The primary key and the constraint \<open>UNIQUE (tenant_id, name)\<close>.\<close>

definition schedule_clash :: "db \<Rightarrow> Schedule \<Rightarrow> bool" where
  "schedule_clash d s \<longleftrightarrow>
     (\<exists>r \<in> set (schedules d). sID r = sID s \<or> (sTenantID r = sTenantID s \<and> sName r = sName s))"

definition schedule_error :: "string \<Rightarrow> err" where
  "schedule_error msg =
     (if isUniqueViolation msg then Wrapped ''schedule name already exists'' ErrDuplicate
      else Wrapped ''insert schedule'' (Driver msg))"

definition InsertSchedule :: "env \<Rightarrow> Schedule \<Rightarrow> db \<Rightarrow> db \<times> unit res" where
  "InsertSchedule e s d =
     (let d' = d\<lparr>schedules := schedules d @ [s\<lparr>sLastRunAt := None\<rparr>]\<rparr> in
      if sJobTemplate s = None then (d, Inl (schedule_error (value_msg e)))
      else case stmt_err e 0 of
        Some m \<Rightarrow> (if applied e \<and> \<not> schedule_clash d s then d' else d, Inl (schedule_error m))
      | None \<Rightarrow>
          if schedule_clash d s then (d, Inl (schedule_error (unique_msg e)))
          else (d', Inr ()))"

definition GetSchedule :: "env \<Rightarrow> uuid \<Rightarrow> db \<Rightarrow> Schedule res" where
  "GetSchedule e ident d =
     query e 0 (Wrapped ''scan schedule'')
       (case lookup sID ident (schedules d) of None \<Rightarrow> Inl ErrNotFound | Some s \<Rightarrow> Inr s)"

definition ListSchedules ::
    "env \<Rightarrow> (Schedule list \<Rightarrow> Schedule list) \<Rightarrow> (string \<Rightarrow> 'k::linorder) \<Rightarrow> uuid \<Rightarrow> db \<Rightarrow> Schedule list res" where
  "ListSchedules e scan coll tenantID d =
     query e 0 (Wrapped ''list schedules'')
       (Inr (sort_key (\<lambda>s. coll (sName s)) (sql_select scan (\<lambda>s. sTenantID s = tenantID) (schedules d))))"

definition DeleteSchedule :: "env \<Rightarrow> uuid \<Rightarrow> uuid \<Rightarrow> db \<Rightarrow> db \<times> unit res" where
  "DeleteSchedule e ident tenantID d =
     (let p = (\<lambda>s. sID s = ident \<and> sTenantID s = tenantID)
      in autocommit e 0 (Wrapped ''delete schedule'') d
           (d\<lparr>schedules := sql_delete p (schedules d)\<rparr>,
            if rows_affected p (schedules d) = 0 then Inl ErrNotFound else Inr ()))"

definition schedule_due :: "time \<Rightarrow> Schedule \<Rightarrow> bool" where
  "schedule_due now s \<longleftrightarrow> sEnabled s \<and> sNextRunAt s \<le> now"

definition GetDueSchedules ::
    "env \<Rightarrow> (Schedule list \<Rightarrow> Schedule list) \<Rightarrow> int \<Rightarrow> db \<Rightarrow> Schedule list res" where
  "GetDueSchedules e scan limit d =
     query e 0 (Wrapped ''get due schedules'')
       (Inr (order_limit sNextRunAt limit (sql_select scan (schedule_due (pg_now e)) (schedules d))))"

definition UpdateScheduleAfterRun :: "env \<Rightarrow> uuid \<Rightarrow> time \<Rightarrow> time \<Rightarrow> db \<Rightarrow> db \<times> unit res" where
  "UpdateScheduleAfterRun e ident lastRunAt nextRunAt d =
     autocommit e 0 (\<lambda>x. x) d
       (d\<lparr>schedules := sql_update (\<lambda>s. sID s = ident)
            (\<lambda>s. s\<lparr>sLastRunAt := Some lastRunAt, sNextRunAt := nextRunAt\<rparr>) (schedules d)\<rparr>, Inr ())"

section \<open>Tenants\<close>

definition active :: "Tenant \<Rightarrow> bool" where
  "active t \<longleftrightarrow> tStatus t = ''active''"

definition GetTenantByAPIKey :: "env \<Rightarrow> string \<Rightarrow> db \<Rightarrow> Tenant res" where
  "GetTenantByAPIKey e apiKey d =
     query e 0 (Wrapped ''get tenant'')
       (case find (\<lambda>t. tAPIKey t = apiKey \<and> active t) (tenants d) of
          None \<Rightarrow> Inl ErrNotFound
        | Some t \<Rightarrow> Inr t)"

definition GetTenants :: "env \<Rightarrow> (Tenant list \<Rightarrow> Tenant list) \<Rightarrow> db \<Rightarrow> Tenant list res" where
  "GetTenants e scan d =
     query e 0 (Wrapped ''get tenants'') (Inr (sql_select scan active (tenants d)))"

section \<open>Dashboard queries\<close>

text \<open>The Go map from state to count; a state that no job has is not in it.\<close>

definition CountJobsByState :: "env \<Rightarrow> db \<Rightarrow> (string \<times> nat) list res" where
  "CountJobsByState e d =
     query e 0 (Wrapped ''count jobs by state'')
       (Inr (map (\<lambda>st. (state_string st, rows_affected (\<lambda>j. jState j = st) (jobs d)))
          (filter (\<lambda>st. rows_affected (\<lambda>j. jState j = st) (jobs d) \<noteq> 0) all_states)))"

record JobRun =
  jrRunID :: uuid
  jrJobID :: uuid
  jrTenantID :: uuid
  jrJobType :: string
  jrAttempt :: int
  jrState :: string
  jrDurationMs :: "int option"
  jrStartedAt :: time
  jrFinishedAt :: "time option"
  jrError :: "string option"

definition run_view :: "job_run \<Rightarrow> job \<Rightarrow> JobRun" where
  "run_view r j =
     \<lparr>jrRunID = rID r, jrJobID = rJobID r, jrTenantID = rTenantID r, jrJobType = jType j,
      jrAttempt = rAttempt r, jrState = state_string (rState r), jrDurationMs = rDurationMs r,
      jrStartedAt = rStartedAt r, jrFinishedAt = rFinishedAt r, jrError = rError r\<rparr>"

definition joined_runs :: "db \<Rightarrow> JobRun list" where
  "joined_runs d =
     concat (map (\<lambda>r. map (run_view r) (filter (\<lambda>j. jID j = rJobID r) (jobs d))) (job_runs d))"

definition ListRecentRuns :: "env \<Rightarrow> (JobRun list \<Rightarrow> JobRun list) \<Rightarrow> int \<Rightarrow> db \<Rightarrow> JobRun list res" where
  "ListRecentRuns e scan limit d =
     (if limit < 0 then Inl (Wrapped ''list recent runs'' (Driver (value_msg e)))
      else query e 0 (Wrapped ''list recent runs'')
        (Inr (order_limit (\<lambda>r. - jrStartedAt r) limit (scan (joined_runs d)))))"

record DeadLetterEntry =
  deJobID :: uuid
  deTenantID :: uuid
  deAttemptCount :: int
  deFinalError :: "string option"
  deMovedAt :: time

definition dead_letter_view :: "dead_letter_row \<Rightarrow> DeadLetterEntry" where
  "dead_letter_view r =
     \<lparr>deJobID = dlJobID r, deTenantID = dlTenantID r, deAttemptCount = dlAttemptCount r,
      deFinalError = dlFinalError r, deMovedAt = dlMovedAt r\<rparr>"

definition ListDeadLetter ::
    "env \<Rightarrow> (dead_letter_row list \<Rightarrow> dead_letter_row list) \<Rightarrow> int \<Rightarrow> db \<Rightarrow> DeadLetterEntry list res" where
  "ListDeadLetter e scan limit d =
     (if limit < 0 then Inl (Wrapped ''list dead letter'' (Driver (value_msg e)))
      else query e 0 (Wrapped ''list dead letter'')
        (Inr (map dead_letter_view
           (order_limit (\<lambda>r. - dlMovedAt r) limit (sql_select scan (\<lambda>_. True) (dead_letter d))))))"

lemmas [op_defs] = InsertSchedule_def DeleteSchedule_def UpdateScheduleAfterRun_def

section \<open>Lemmas\<close>

lemma sum_states: "(\<Sum>st \<leftarrow> all_states. rows_affected (\<lambda>j. jState j = st) t) = length t"
proof (induction t)
  case (Cons j t)
  have "(\<Sum>st \<leftarrow> all_states. if jState j = st then Suc 0 else 0) = 1"
    by (cases "jState j") (simp_all add: all_states_def)
  then show ?case using Cons
    by (cases "jState j") (simp_all add: all_states_def rows_affected_def)
qed (simp add: all_states_def rows_affected_def)

lemma sum_list_filter_0: "sum_list (map f (filter (\<lambda>x. 0 < f x) xs)) = sum_list (map (f :: _ \<Rightarrow> nat) xs)"
  by (induction xs) auto

lemma GetTenantByAPIKey_cases:
  assumes "GetTenantByAPIKey e k d = Inr t"
  shows "t \<in> set (tenants d) \<and> tAPIKey t = k \<and> active t"
  using assms by (auto simp: GetTenantByAPIKey_def query_def find_Some_iff split: option.splits)

section \<open>Properties\<close>

text \<open>The state counts of the dashboard are complete: every job is counted exactly once, under
  the state it has.\<close>

lemma CountJobsByState_total:
  assumes "CountJobsByState e d = Inr counts"
  shows "sum_list (map snd counts) = length (jobs d) \<and> distinct (map fst counts) \<and>
    (\<forall>st n. (state_string st, n) \<in> set counts \<longrightarrow> n = rows_affected (\<lambda>j. jState j = st) (jobs d) \<and> 0 < n)"
proof -
  let ?n = "\<lambda>st. rows_affected (\<lambda>j. jState j = st) (jobs d)"
  have c: "counts = map (\<lambda>st. (state_string st, ?n st)) (filter (\<lambda>st. ?n st \<noteq> 0) all_states)"
    using assms by (auto simp: CountJobsByState_def query_def split: option.splits)
  have inj: "state_string a = state_string b \<Longrightarrow> a = b" for a b
    by (cases a; cases b) simp_all
  have "sum_list (map snd counts) = length (jobs d)"
    using sum_states[of "jobs d"] by (simp add: c comp_def sum_list_filter_0)
  moreover have "distinct (map fst counts)"
    unfolding c by (auto simp: comp_def distinct_map all_states_def inj_on_def dest: inj)
  moreover have "\<forall>st n. (state_string st, n) \<in> set counts \<longrightarrow> n = ?n st \<and> 0 < n"
    using inj by (auto simp: c)
  ultimately show ?thesis by blast
qed

end
