(* ===== verification/Outcomes.thy ===== *)
theory Outcomes
  imports Lifecycle Store_Admin
begin

text \<open>
  What each storage operation does, read through the primary keys: the row a later lookup finds, the
  rows that stay, and the value returned, on a healthy server and, where the code promises
  atomicity, on a failing one.
\<close>

section \<open>Lookups after an update\<close>

lemma find_key: "unique_key key t \<Longrightarrow> find (\<lambda>r. key r = k \<and> p r) t =
    (case lookup key k t of None \<Rightarrow> None | Some r \<Rightarrow> if p r then Some r else None)"
proof (induction t)
  case (Cons a t)
  then have IH: "find (\<lambda>r. key r = k \<and> p r) t =
    (case lookup key k t of None \<Rightarrow> None | Some r \<Rightarrow> if p r then Some r else None)"
    by (simp add: unique_key_def)
  show ?case
  proof (cases "key a = k")
    case True
    then have "\<forall>r \<in> set t. key r \<noteq> k" using Cons.prems by (auto simp: unique_key_def image_iff)
    then have "find (\<lambda>r. key r = k \<and> p r) t = None" by (auto simp: find_None_iff)
    with True show ?thesis by (simp add: lookup_def)
  next
    case False
    with IH show ?thesis by (simp add: lookup_def)
  qed
qed (simp add: lookup_def)

lemma find_snoc: "\<forall>x \<in> set t. \<not> p x \<Longrightarrow> find p (t @ [r]) = (if p r then Some r else None)"
  by (induction t) auto

lemma find_owns: "unique_key jID t \<Longrightarrow> find (owns i tok) t =
    (case lookup jID i t of None \<Rightarrow> None
     | Some j \<Rightarrow> if jClaimToken j = Some tok \<and> in_flight (jState j) then Some j else None)"
  unfolding owns_def by (rule find_key)

lemma lookup_row_update:
  "(\<And>r. jID (f r) = jID r) \<Longrightarrow>
    lookup jID k (sql_update (\<lambda>j. jID j = i \<and> p j) f t) =
      (case lookup jID k t of None \<Rightarrow> None | Some j \<Rightarrow> Some (if k = i \<and> p j then f j else j))"
  by (auto simp: jt.lookup_update dest: jt.lookup_SomeD split: option.split)

lemma lookup_key_update:
  "(\<And>r. jID (f r) = jID r) \<Longrightarrow>
    lookup jID k (sql_update (\<lambda>j. jID j = i) f t) =
      (case lookup jID k t of None \<Rightarrow> None | Some j \<Rightarrow> Some (if k = i then f j else j))"
  by (auto simp: jt.lookup_update dest: jt.lookup_SomeD split: option.split)

lemma lookup_owns_update:
  "(\<And>r. jID (f r) = jID r) \<Longrightarrow>
    lookup jID k (sql_update (owns i tok) f t) =
      (case lookup jID k t of None \<Rightarrow> None
       | Some j \<Rightarrow> Some (if k = i \<and> jClaimToken j = Some tok \<and> in_flight (jState j) then f j else j))"
  unfolding owns_def by (rule lookup_row_update)

lemma close_run_Some:
  "duration_ms now (rStartedAt r) = Some ms \<Longrightarrow>
    close_run st now msg r = Some (r\<lparr>rState := st, rFinishedAt := Some now, rDurationMs := Some ms,
      rError := (case msg of None \<Rightarrow> rError r | Some m \<Rightarrow> Some m)\<rparr>)"
  by (simp add: close_run_def)

text \<open>Closing the run with a given id.\<close>

lemma close_one_run:
  assumes "unique_key rID t" "lookup rID r t = Some x" "close_run st now msg x = Some y"
  shows "\<exists>t'. sql_update_try (\<lambda>x. rID x = r) (close_run st now msg) t = Some t' \<and>
    (\<forall>k. lookup rID k t' = (if k = r then Some y else lookup rID k t))"
proof -
  let ?t' = "map (\<lambda>x. if rID x = r then the (close_run st now msg x) else x) t"
  have x: "x \<in> set t" "rID x = r" using rt.lookup_SomeD[OF assms(2)] by auto
  have only: "z = x" if "z \<in> set t" "rID z = r" for z
    using rt.unique_eq[OF assms(1) that(1) x(1)] that(2) x(2) by simp
  have id: "rID y = r" using close_run_frame[OF assms(3)] x(2) by simp
  have "sql_update_try (\<lambda>x. rID x = r) (close_run st now msg) t = Some ?t'"
    using only assms(3) by (auto simp: sql_update_try_def)
  moreover have "lookup rID k ?t' = (if k = r then Some y else lookup rID k t)" for k
  proof -
    have eq: "?t' = map (\<lambda>x. if rID x = r then y else x) t"
      using only assms(3) by (intro map_cong) auto
    have "lookup rID k (map (\<lambda>x. if rID x = r then y else x) t) =
        (if k = r then map_option (\<lambda>_. y) (lookup rID k t) else lookup rID k t)"
      using id by (induction t) auto
    then show ?thesis unfolding eq using assms(2) by simp
  qed
  ultimately show ?thesis by blast
qed

section \<open>Claims, completions, failures\<close>

lemma TryClaim_outcome:
  assumes "calm e" "\<not> locked e" "unique_key jID (jobs d)" "lookup jID i (jobs d) = Some j"
    "jState j = StatePending"
  shows "\<exists>d'. TryClaim e r i w t dl d = (d', Inr (True, r)) \<and>
    (\<forall>k. lookup jID k (jobs d') = (if k = i then Some (claim_row (go_now e) w t dl j) else lookup jID k (jobs d))) \<and>
    job_runs d' = job_runs d @ [new_run r (go_now e) (claim_row (go_now e) w t dl j)]"
proof -
  have j: "j \<in> set (jobs d)" "jID j = i" using jt.lookup_SomeD[OF assms(4)] by auto
  then have "TryClaim e r i w t dl d = (claimed_db (go_now e) r i w t dl d, Inr (True, r))"
    using assms by (auto simp: TryClaim_def)
  then show ?thesis
    using claimed_runs[OF assms(3) j] assms(4)
    by (auto simp: claimed_db_def lookup_key_update claim_row_def split: option.split)
qed

text \<open>C27. A claim is all or nothing. Whatever fails (including a lost reply to the commit), either
  nothing has changed and no claim is reported, or the job was pending and now carries the
  worker, the token and the deadline, and exactly one open run has been added for it; a claim
  reported as successful is always of the second kind.\<close>

theorem TryClaim_atomic:
  assumes "unique_key jID (jobs d)" "TryClaim e r i w t dl d = (d', res)"
  shows "(d' = d \<and> (\<forall>x. res \<noteq> Inr (True, x))) \<or>
    (\<exists>j. lookup jID i (jobs d) = Some j \<and> jState j = StatePending \<and>
       (\<forall>k. lookup jID k (jobs d') = (if k = i then Some (j\<lparr>jState := StateClaimed,
          jClaimedAt := Some (go_now e), jClaimedBy := Some w, jClaimToken := Some t, jDeadline := Some dl\<rparr>)
          else lookup jID k (jobs d))) \<and>
       job_runs d' = job_runs d @ [\<lparr>rID = r, rJobID = i, rTenantID = jTenantID j, rAttempt = jAttempt j,
          rStartedAt = go_now e, rFinishedAt = None, rState = StateClaimed, rError = None, rDurationMs = None\<rparr>] \<and>
       (res = Inr (True, r) \<or> isl res))"
proof (cases rule: TryClaim_cases[of e r i w t dl d])
  case same
  have "res \<noteq> Inr (True, x)" if "d' = d" for x
  proof
    assume "res = Inr (True, x)"
    then have "claimed_db (go_now e) r i w t dl d = d" "\<exists>j \<in> set (jobs d). jID j = i"
      using assms(2) that unfolding TryClaim_def
      by (auto simp: in_tx_def autocommit_def split: option.splits if_splits)
    then obtain j where "j \<in> set (jobs d)" "jID j = i" "job_runs (claimed_db (go_now e) r i w t dl d) = job_runs d"
      by auto
    then show False using claimed_runs[OF assms(1), of j i] by simp
  qed
  then show ?thesis using same assms(2) by simp
next
  case (claimed j)
  have l: "lookup jID i (jobs d) = Some j" using jt.lookup_unique[OF assms(1) claimed(1)] claimed(2) by simp
  have "res = Inr (True, r) \<or> isl res"
    using assms(2) claimed(1-4) unfolding TryClaim_def
    by (auto simp: in_tx_def autocommit_def split: option.splits if_splits)
  moreover have "d' = claimed_db (go_now e) r i w t dl d" using claimed(5) assms(2) by simp
  ultimately show ?thesis
    using claimed_runs[OF assms(1) claimed(1,2)] l claimed(2,3)
    by (intro disjI2 exI[of _ j])
      (auto simp: claimed_db_def lookup_key_update claim_row_def new_run_def split: option.split)
qed

theorem TryClaim_atomic_witness:
  "let d = demo_empty\<lparr>jobs := [demo_job 7]\<rparr>; (d', res) = TryClaim (demo_env 5) 3 7 ''w'' 4 60 d in
   res = Inr (True, 3) \<and> lookup jID 7 (jobs d') = Some ((demo_job 7)\<lparr>jState := StateClaimed,
     jClaimedAt := Some 5, jClaimedBy := Some ''w'', jClaimToken := Some 4, jDeadline := Some 60\<rparr>) \<and>
   length (job_runs d') = 1"
proof -
  let ?d = "demo_empty\<lparr>jobs := [demo_job 7]\<rparr>"
  obtain d' res where r: "TryClaim (demo_env 5) 3 7 ''w'' 4 60 ?d = (d', res)" by (rule prod.exhaust)
  have u: "unique_key jID (jobs ?d)" and s: "snd (TryClaim (demo_env 5) 3 7 ''w'' 4 60 ?d) = Inr (True, 3)"
    and l: "lookup jID 7 (jobs ?d) = Some (demo_job 7)" and z: "job_runs ?d = []" "go_now (demo_env 5) = 5"
    by code_simp+
  have "res = Inr (True, 3)" using r s by simp
  with TryClaim_atomic[OF u r] r l z show ?thesis by auto
qed

text \<open>Recording a failure: the holder of the token moves the job to \<open>failed\<close> with the retry time
  it computed, or to \<open>dead\<close> when this attempt was the last one (\<open>attempt + 1 \<ge> max_retries\<close>);
  the attempt counter goes up by one, the error is kept, token and deadline are cleared, the
  run is closed with the same state, and nothing else changes.\<close>

lemma FailJob_outcome:
  assumes "calm e" "unique_key jID (jobs d)" "unique_key rID (job_runs d)"
    and "lookup jID i (jobs d) = Some j" "jClaimToken j = Some t" "in_flight (jState j)"
    and "lookup rID r (job_runs d) = Some x" "duration_ms (go_now e) (rStartedAt x) = Some ms"
  shows "\<exists>d'. FailJob e i r t m n d = (d', Inr ()) \<and>
    (\<forall>k. lookup jID k (jobs d') = (if k = i then Some (
        if jAttempt j + 1 < jMaxRetries j
        then j\<lparr>jState := StateFailed, jAttempt := jAttempt j + 1, jLastError := Some m,
               jRunAt := (case n of None \<Rightarrow> jRunAt j | Some u \<Rightarrow> u), jClaimToken := None, jDeadline := None\<rparr>
        else j\<lparr>jState := StateDead, jAttempt := jAttempt j + 1, jLastError := Some m,
               jClaimToken := None, jDeadline := None\<rparr>) else lookup jID k (jobs d))) \<and>
    (\<forall>k. lookup rID k (job_runs d') = (if k = r then Some (x\<lparr>
        rState := (if jAttempt j + 1 < jMaxRetries j then StateFailed else StateDead),
        rFinishedAt := Some (go_now e), rDurationMs := Some ms, rError := Some m\<rparr>) else lookup rID k (job_runs d)))"
proof -
  define st where "st = (if jMaxRetries j \<le> jAttempt j + 1 then StateDead else StateFailed)"
  obtain rs where rs: "sql_update_try (\<lambda>x. rID x = r) (close_run st (go_now e) (Some m)) (job_runs d) = Some rs"
    "\<forall>k. lookup rID k rs = (if k = r then Some (x\<lparr>rState := st, rFinishedAt := Some (go_now e),
       rDurationMs := Some ms, rError := Some m\<rparr>) else lookup rID k (job_runs d))"
    using close_one_run[OF assms(3,7) close_run_Some[OF assms(8), of st "Some m"]] by auto
  have "find (owns i t) (jobs d) = Some j"
    using assms(4-6) by (simp add: find_owns[OF assms(2)])
  then have "FailJob e i r t m n d = (d\<lparr>jobs := sql_update (\<lambda>j. jID j = i)
      (fail_row st (jAttempt j + 1) m (if jMaxRetries j \<le> jAttempt j + 1 then None else n)) (jobs d),
      job_runs := rs\<rparr>, Inr ())"
    using assms(1) rs(1) by (simp add: FailJob_def Let_def st_def)
  then show ?thesis
    using rs(2) assms(4) by (auto simp: lookup_key_update fail_row_def st_def split: option.split)
qed

text \<open>Recording a success: the holder of the token moves the job to \<open>succeeded\<close> with its
  completion time, token and deadline are cleared, its run is closed as succeeded with its
  duration, and nothing else changes.\<close>

lemma CompleteJob_outcome:
  assumes "calm e" "unique_key jID (jobs d)" "unique_key rID (job_runs d)"
    and "lookup jID i (jobs d) = Some j" "jClaimToken j = Some t" "in_flight (jState j)"
    and "lookup rID r (job_runs d) = Some x" "duration_ms (go_now e) (rStartedAt x) = Some ms"
  shows "\<exists>d'. CompleteJob e i r t d = (d', Inr ()) \<and>
    (\<forall>k. lookup jID k (jobs d') = (if k = i then Some (j\<lparr>jState := StateSucceeded,
        jCompletedAt := Some (go_now e), jClaimToken := None, jDeadline := None\<rparr>) else lookup jID k (jobs d))) \<and>
    (\<forall>k. lookup rID k (job_runs d') = (if k = r then Some (x\<lparr>rState := StateSucceeded,
        rFinishedAt := Some (go_now e), rDurationMs := Some ms\<rparr>) else lookup rID k (job_runs d)))"
proof -
  obtain rs where rs: "sql_update_try (\<lambda>x. rID x = r) (close_run StateSucceeded (go_now e) None) (job_runs d) = Some rs"
    "\<forall>k. lookup rID k rs = (if k = r then Some (x\<lparr>rState := StateSucceeded, rFinishedAt := Some (go_now e),
       rDurationMs := Some ms\<rparr>) else lookup rID k (job_runs d))"
    using close_one_run[OF assms(3,7) close_run_Some[OF assms(8), of StateSucceeded None]] by auto
  have "j \<in> set (jobs d)" "owns i t j"
    using jt.lookup_SomeD[OF assms(4)] assms(5,6) by (auto simp: owns_def)
  then have "rows_affected (owns i t) (jobs d) \<noteq> 0" by (auto simp: rows_affected_0)
  then have "CompleteJob e i r t d = (d\<lparr>jobs := sql_update (owns i t) (complete_row (go_now e)) (jobs d),
      job_runs := rs\<rparr>, Inr ())"
    using assms(1) rs(1) by (simp add: CompleteJob_def Let_def calm_def autocommit_def)
  then show ?thesis
    using rs(2) assms(4-6) by (auto simp: lookup_owns_update complete_row_def split: option.split)
qed

section \<open>The reaper\<close>

text \<open>All open runs of a job can be closed: their durations fit the column.\<close>

definition runs_closable :: "time \<Rightarrow> uuid \<Rightarrow> db \<Rightarrow> bool" where
  "runs_closable now i d \<longleftrightarrow>
     (\<forall>x \<in> set (job_runs d). rJobID x = i \<and> rFinishedAt x = None \<longrightarrow> duration_ms now (rStartedAt x) \<noteq> None)"

definition heartbeat_lost :: "time \<Rightarrow> job_run \<Rightarrow> job_run" where
  "heartbeat_lost now x = x\<lparr>rState := StateFailed, rFinishedAt := Some now,
     rDurationMs := duration_ms now (rStartedAt x), rError := Some ''worker heartbeat expired''\<rparr>"

lemma heartbeat_lost_fields:
  "rFinishedAt (heartbeat_lost now x) = Some now" "rJobID (heartbeat_lost now x) = rJobID x"
  "rID (heartbeat_lost now x) = rID x"
  by (simp_all add: heartbeat_lost_def)

lemma close_open_runs:
  assumes "runs_closable now i d"
  shows "sql_update_try (\<lambda>x. rJobID x = i \<and> rFinishedAt x = None)
      (close_run StateFailed now (Some ''worker heartbeat expired'')) (job_runs d) =
    Some (sql_update (\<lambda>x. rJobID x = i \<and> rFinishedAt x = None) (heartbeat_lost now) (job_runs d))"
  using assms
  by (auto simp: sql_update_try_def sql_update_def runs_closable_def close_run_def heartbeat_lost_def)

lemma RequeueStaleJob_calm:
  assumes "calm e" "unique_key jID (jobs d)" "runs_closable (go_now e) i d"
  shows "RequeueStaleJob e i d =
    (d\<lparr>jobs := sql_update (\<lambda>j. jID j = i \<and> expired (pg_now e) j) reap_row (jobs d),
       job_runs := sql_update (\<lambda>x. rJobID x = i \<and> rFinishedAt x = None) (heartbeat_lost (go_now e)) (job_runs d)\<rparr>,
     Inr (case lookup jID i (jobs d) of
            None \<Rightarrow> False
          | Some j \<Rightarrow> expired (pg_now e) j \<and> reap_state j = StateDead))"
proof -
  have f: "find (\<lambda>j. jID j = i \<and> expired (pg_now e) j) (jobs d) =
      (case lookup jID i (jobs d) of None \<Rightarrow> None | Some j \<Rightarrow> if expired (pg_now e) j then Some j else None)"
    by (rule find_key[OF assms(2)])
  have noop: "sql_update (\<lambda>j. jID j = i \<and> expired (pg_now e) j) reap_row (jobs d) = jobs d"
    if "find (\<lambda>j. jID j = i \<and> expired (pg_now e) j) (jobs d) = None"
    using that by (auto simp: find_None_iff intro: sql_update_noop)
  show ?thesis
    using assms(1) noop f
    by (auto simp: RequeueStaleJob_def Let_def close_open_runs[OF assms(3)] split: option.splits)
qed

text \<open>Reaping an expired claim: the job goes back to \<open>pending\<close> with one more attempt, or to \<open>dead\<close>
  when the attempts are used up; claim, token and deadline are cleared, every open run of the
  job is closed as failed, other jobs stay as they are, and the call reports whether the job
  is dead.\<close>

lemma RequeueStaleJob_outcome:
  assumes "calm e" "unique_key jID (jobs d)" "runs_closable (go_now e) i d"
    and "lookup jID i (jobs d) = Some j" "in_flight (jState j)" "jDeadline j = Some t" "t < pg_now e"
  shows "\<exists>d'. RequeueStaleJob e i d = (d', Inr (jMaxRetries j \<le> jAttempt j + 1)) \<and>
    (\<forall>k. lookup jID k (jobs d') = (if k = i then Some (j\<lparr>
        jState := (if jMaxRetries j \<le> jAttempt j + 1 then StateDead else StatePending),
        jAttempt := jAttempt j + 1, jClaimToken := None, jClaimedAt := None, jClaimedBy := None,
        jDeadline := None, jLastError := Some ''worker heartbeat expired''\<rparr>) else lookup jID k (jobs d))) \<and>
    (\<forall>x \<in> set (job_runs d'). rJobID x = i \<longrightarrow> rFinishedAt x \<noteq> None)"
proof -
  let ?js = "sql_update (\<lambda>j. jID j = i \<and> expired (pg_now e) j) reap_row (jobs d)"
  let ?rs = "sql_update (\<lambda>x. rJobID x = i \<and> rFinishedAt x = None) (heartbeat_lost (go_now e)) (job_runs d)"
  have ex: "expired (pg_now e) j" using assms(5-7) by (simp add: expired_def)
  have "reap_state j = StateDead \<longleftrightarrow> jMaxRetries j \<le> jAttempt j + 1" by (simp add: reap_state_def)
  then have r: "RequeueStaleJob e i d = (d\<lparr>jobs := ?js, job_runs := ?rs\<rparr>, Inr (jMaxRetries j \<le> jAttempt j + 1))"
    using RequeueStaleJob_calm[OF assms(1-3)] assms(4) ex by simp
  have l: "lookup jID k ?js = (if k = i then Some (reap_row j) else lookup jID k (jobs d))" for k
    unfolding lookup_row_update[of reap_row, OF row_keys(4)]
    using assms(4) ex by (cases "lookup jID k (jobs d)") auto
  have "rFinishedAt x \<noteq> None" if "x \<in> set ?rs" "rJobID x = i" for x
  proof -
    from that(1) consider "\<not> (rJobID x = i \<and> rFinishedAt x = None)" | y where "x = heartbeat_lost (go_now e) y"
      unfolding set_sql_update by blast
    then show ?thesis using that(2) by cases (simp_all add: heartbeat_lost_fields)
  qed
  then show ?thesis
    unfolding r reap_row_def[symmetric] reap_state_def[symmetric]
    by (intro exI[of _ "d\<lparr>jobs := ?js, job_runs := ?rs\<rparr>"] conjI) (simp_all add: l)
qed

text \<open>C36. The reaper can damage a live job: it closes the open runs of the job before it checks the
  deadline, and commits this also when the check finds the claim alive (a heartbeat came in
  after the job was listed as stale). The job keeps running under its claim while its run is
  recorded as failed with a lost heartbeat, and the call reports the same value as for a job that
  was requeued.\<close>

theorem RequeueStaleJob_live_run_closed:
  assumes "calm e" "unique_key jID (jobs d)" "runs_closable (go_now e) i d"
    and "lookup jID i (jobs d) = Some j" "in_flight (jState j)" "jDeadline j = Some t" "pg_now e \<le> t"
    and "x \<in> set (job_runs d)" "rJobID x = i" "rFinishedAt x = None"
  shows "\<exists>d'. RequeueStaleJob e i d = (d', Inr False) \<and> jobs d' = jobs d \<and>
    x\<lparr>rState := StateFailed, rFinishedAt := Some (go_now e), rDurationMs := duration_ms (go_now e) (rStartedAt x),
      rError := Some ''worker heartbeat expired''\<rparr> \<in> set (job_runs d')"
proof -
  have live: "\<not> expired (pg_now e) j" using assms(6,7) by (simp add: expired_def)
  have "\<not> (jID r = i \<and> expired (pg_now e) r)" if "r \<in> set (jobs d)" for r
    using jt.unique_eq[OF assms(2) that, of j] jt.lookup_SomeD[OF assms(4)] live by auto
  then have "sql_update (\<lambda>j. jID j = i \<and> expired (pg_now e) j) reap_row (jobs d) = jobs d"
    by (intro sql_update_noop) blast
  moreover have "heartbeat_lost (go_now e) x \<in>
      set (sql_update (\<lambda>x. rJobID x = i \<and> rFinishedAt x = None) (heartbeat_lost (go_now e)) (job_runs d))"
    using assms(8-10) by (auto simp: set_sql_update)
  ultimately show ?thesis
    using RequeueStaleJob_calm[OF assms(1-3)] assms(4) live by (simp add: heartbeat_lost_def)
qed

theorem RequeueStaleJob_live_run_closed_witness:
  "let j = (demo_job 7)\<lparr>jState := StateRunning, jClaimToken := Some 4, jDeadline := Some 500\<rparr>;
       x = new_run 3 0 j; d = demo_empty\<lparr>jobs := [j], job_runs := [x]\<rparr> in
   \<exists>d'. RequeueStaleJob (demo_env 100) 7 d = (d', Inr False) \<and> jobs d' = [j] \<and>
     (\<exists>y \<in> set (job_runs d'). rState y = StateFailed)"
proof -
  let ?j = "(demo_job 7)\<lparr>jState := StateRunning, jClaimToken := Some 4, jDeadline := Some 500\<rparr>"
  let ?x = "new_run 3 0 ?j" let ?d = "demo_empty\<lparr>jobs := [?j], job_runs := [?x]\<rparr>" let ?e = "demo_env 100"
  have c: "calm ?e" by (simp add: calm_def demo_env_def)
  have u: "unique_key jID (jobs ?d)" "runs_closable (go_now ?e) 7 ?d" by code_simp+
  have j: "lookup jID 7 (jobs ?d) = Some ?j" "in_flight (jState ?j)" "jDeadline ?j = Some 500" "pg_now ?e \<le> 500"
    by code_simp+
  have x: "?x \<in> set (job_runs ?d)" "rJobID ?x = 7" "rFinishedAt ?x = None" by code_simp+
  show ?thesis unfolding Let_def using RequeueStaleJob_live_run_closed[OF c u j x] by force
qed

section \<open>Insertion and idempotency keys\<close>

definition storable :: "job \<Rightarrow> bool" where
  "storable j \<longleftrightarrow> jPayload j \<noteq> None \<and> int2_ok (jPriority j) \<and> int4_ok (jAttempt j) \<and>
     int4_ok (jMaxRetries j) \<and> int4_ok (jBackoffSeconds j)"

lemma InsertJob_new:
  assumes "calm e" "storable j" "\<not> unique_violated d j"
  shows "InsertJob e j d = (d\<lparr>jobs := jobs d @ [inserted_row j]\<rparr>, Inr ())"
  using assms by (auto simp: InsertJob_def storable_def calm_def Let_def)

lemma InsertJob_duplicate:
  assumes "calm e" "storable j" "unique_violated d j" "isUniqueViolation (unique_msg e)"
  shows "InsertJob e j d = (d, Inl ErrDuplicate)"
  using assms by (auto simp: InsertJob_def storable_def calm_def insert_error_def Let_def)

lemma InsertJob_cases:
  assumes "InsertJob e j d = (d', Inr ())"
  shows "storable j \<and> \<not> unique_violated d j \<and> d' = d\<lparr>jobs := jobs d @ [inserted_row j]\<rparr>"
  using assms by (auto simp: InsertJob_def storable_def Let_def split: option.splits if_splits)

lemma GetJobByIdempotencyKey_new:
  assumes "calm e" "\<not> unique_violated d j" "jIdempotencyKey j = Some k"
  shows "GetJobByIdempotencyKey e (jTenantID j) k (d\<lparr>jobs := jobs d @ [inserted_row j]\<rparr>) = Inr (inserted_row j)"
proof -
  let ?p = "\<lambda>x. jTenantID x = jTenantID j \<and> jIdempotencyKey x = Some k"
  have "\<forall>x \<in> set (jobs d). \<not> ?p x" using assms(2,3) by (auto simp: unique_violated_def)
  then have "find ?p (jobs d @ [inserted_row j]) = Some (inserted_row j)"
    using assms(3) by (simp add: find_snoc inserted_row_def)
  then show ?thesis using assms(1) by (simp add: GetJobByIdempotencyKey_def)
qed

section \<open>The dead-letter table\<close>

definition dead_letter_of :: "time \<Rightarrow> job \<Rightarrow> dead_letter_row" where
  "dead_letter_of now j = \<lparr>dlJobID = jID j, dlTenantID = jTenantID j, dlMovedAt = now,
     dlFinalError = jLastError j, dlAttemptCount = jAttempt j, dlOriginalJob = j\<rparr>"

lemma MoveToDeadLetter_calm:
  assumes "calm e" "unique_key jID (jobs d)"
  shows "MoveToDeadLetter e i d =
    (case lookup jID i (jobs d) of
       None \<Rightarrow> (d, Inr ())
     | Some j \<Rightarrow> if jState j = StateDead \<and> i \<notin> dlJobID ` set (dead_letter d)
                 then (d\<lparr>dead_letter := dead_letter d @ [dead_letter_of (pg_now e) j]\<rparr>, Inr ()) else (d, Inr ()))"
proof -
  let ?q = "\<lambda>j. jState j = StateDead \<and> i \<notin> dlJobID ` set (dead_letter d)"
  have "filter (\<lambda>j. jID j = i \<and> jState j = StateDead \<and> jID j \<notin> dlJobID ` set (dead_letter d)) (jobs d) =
      filter ?q (filter (\<lambda>j. jID j = i) (jobs d))"
    by (auto intro: filter_cong)
  also have "\<dots> = (case lookup jID i (jobs d) of None \<Rightarrow> [] | Some j \<Rightarrow> if ?q j then [j] else [])"
  proof (cases "lookup jID i (jobs d)")
    case None
    then have "filter (\<lambda>j. jID j = i) (jobs d) = []" by (auto simp: jt.lookup_None filter_empty_conv)
    with None show ?thesis by simp
  next
    case (Some j)
    then have "filter (\<lambda>x. jID x = i) (jobs d) = [j]"
      using jt.filter_key[OF assms(2), of j] jt.lookup_SomeD[OF Some] by simp
    with Some show ?thesis by simp
  qed
  finally show ?thesis
    using assms(1) by (auto simp: MoveToDeadLetter_def dead_letter_of_def split: option.split)
qed

text \<open>Moving a dead job to the dead-letter table records it once: afterwards there is an entry
  for it, the first entry is a snapshot of the job at that moment, an entry that exists is never
  rewritten (not even when the job was replayed and died again), and moving twice is the same as
  moving once.\<close>

lemma MoveToDeadLetter_once:
  assumes "calm e" "calm e2" "unique_key jID (jobs d)" "lookup jID i (jobs d) = Some j" "jState j = StateDead"
  shows "\<exists>d'. MoveToDeadLetter e i d = (d', Inr ()) \<and> i \<in> dlJobID ` set (dead_letter d') \<and>
    jobs d' = jobs d \<and> fst (MoveToDeadLetter e2 i d') = d' \<and>
    (if i \<in> dlJobID ` set (dead_letter d) then d' = d
     else dead_letter d' = dead_letter d @ [\<lparr>dlJobID = i, dlTenantID = jTenantID j, dlMovedAt = pg_now e,
       dlFinalError = jLastError j, dlAttemptCount = jAttempt j, dlOriginalJob = j\<rparr>])"
proof -
  have i: "jID j = i" using jt.lookup_SomeD[OF assms(4)] by simp
  show ?thesis
  proof (cases "i \<in> dlJobID ` set (dead_letter d)")
    case True
    then show ?thesis
      using MoveToDeadLetter_calm[OF assms(1,3)] MoveToDeadLetter_calm[OF assms(2,3)] assms(4) by simp
  next
    case False
    let ?d' = "d\<lparr>dead_letter := dead_letter d @ [dead_letter_of (pg_now e) j]\<rparr>"
    have "MoveToDeadLetter e i d = (?d', Inr ())"
      using MoveToDeadLetter_calm[OF assms(1,3)] assms(4,5) False by simp
    moreover have "i \<in> dlJobID ` set (dead_letter ?d')" using i by (simp add: dead_letter_of_def)
    moreover have "fst (MoveToDeadLetter e2 i ?d') = ?d'"
      using MoveToDeadLetter_calm[OF assms(2), of ?d' i] assms(3,4) calculation(2) by simp
    ultimately show ?thesis using False i by (simp add: dead_letter_of_def)
  qed
qed

section \<open>Listing\<close>

lemma pages_take: "concat (map (\<lambda>k. take n (drop (k * n) xs)) [0..<m]) = take (m * n) xs"
proof (induction m)
  case (Suc m)
  then show ?case by (simp add: take_add [symmetric] add.commute)
qed simp

definition list_match :: "ListFilter \<Rightarrow> job \<Rightarrow> bool" where
  "list_match f j \<longleftrightarrow> (lfTenantID f = None \<or> lfTenantID f = Some (jTenantID j)) \<and>
     (case lfState f of None \<Rightarrow> True | Some s \<Rightarrow> parse_state s = Some (jState j))"

text \<open>The \<open>k\<close>-th page of size \<open>n\<close>.\<close>

definition page :: "env \<Rightarrow> (job list \<Rightarrow> job list) \<Rightarrow> ListFilter \<Rightarrow> nat \<Rightarrow> db \<Rightarrow> nat \<Rightarrow> job list" where
  "page e scan f n d k = (case ListJobs e scan (f\<lparr>lfLimit := int n, lfOffset := int (k * n)\<rparr>) d of
     Inl _ \<Rightarrow> [] | Inr js \<Rightarrow> js)"

text \<open>Paging through the job list with a fixed page size shows every matching job exactly once,
  newest first, whatever order the server scans in (as long as it stays the same), and never a
  job of another tenant or state.\<close>

lemma ListJobs_pages:
  assumes "calm e" "scan_ok scan" "0 < n" "lfState f = None \<or> parse_state (the (lfState f)) \<noteq> None"
    and "rows_affected (list_match f) (jobs d) \<le> m * n"
  shows "let shown = concat (map (page e scan f n d) [0..<m]) in
    mset shown = filter_mset (list_match f) (mset (jobs d)) \<and>
    sorted (map (\<lambda>j. - jCreatedAt j) shown)"
proof -
  let ?all = "sort_key (\<lambda>j. - jCreatedAt j) (sql_select scan (list_match f) (jobs d))"
  have ok: "\<not> (case lfState f of None \<Rightarrow> False | Some s \<Rightarrow> parse_state s = None)"
    using assms(4) by (auto split: option.split)
  have pos: "\<not> int (k * n) < 0" for k by linarith
  have "list_match f = (\<lambda>j. (lfTenantID f = None \<or> lfTenantID f = Some (jTenantID j)) \<and>
     (case lfState f of None \<Rightarrow> True | Some s \<Rightarrow> parse_state s = Some (jState j)))"
    by (simp add: list_match_def fun_eq_iff)
  then have "page e scan f n d k = take n (drop (k * n) ?all)" for k
    using assms(1,3) ok pos[of k] by (simp add: page_def ListJobs_def Let_def nat_mult_distrib del: of_nat_mult)
  then have "page e scan f n d = (\<lambda>k. take n (drop (k * n) ?all))" by (rule ext)
  then have "concat (map (page e scan f n d) [0..<m]) = take (m * n) ?all"
    by (simp add: pages_take)
  also have "\<dots> = ?all"
    using assms(5) by (simp add: length_sql_select[OF assms(2)])
  finally show ?thesis by (simp add: mset_sql_select[OF assms(2)])
qed

end
