(* ===== verification/World.thy ===== *)
theory World
  imports Store Queue
begin

text \<open>
  What surrounds one activity of a process (a scheduler tick, the processing of a job, a request):
  an activity makes several calls on the shared state, the database and the Redis server, and other
  processes work on that state in between.
\<close>

section \<open>The world of one activity\<close>

text \<open>
  \<open>wEnv W i\<close> is the environment of the \<open>i\<close>-th call of the activity, \<open>wOthers W i\<close> what the other
  processes did to the state just before that call. \<open>wDone W i\<close> tells whether the context of the activity is done when
  the call is made; \<open>wCutEnv\<close> and \<open>wCutRedis\<close> are the driver and the Redis client when they are given a context that is
  done. A call with the context of the activity is made in \<open>ctx_env W i\<close> and by \<open>ctx_redis W i R\<close>. (The activities of
  the scheduler and the handlers are modelled without their contexts: there a statement refused because
  of the context is one of the faults of \<open>wEnv\<close>.)
\<close>

record 'r world =
  wEnv :: "nat \<Rightarrow> env"
  wOthers :: "nat \<Rightarrow> db \<times> 'r \<Rightarrow> db \<times> 'r"
  wDone :: "nat \<Rightarrow> bool"
  wCutEnv :: "env \<Rightarrow> env"
  wCutRedis :: "'r redis \<Rightarrow> 'r redis"

definition ctx_env :: "'r world \<Rightarrow> nat \<Rightarrow> env" where
  "ctx_env W i = (if wDone W i then wCutEnv W (wEnv W i) else wEnv W i)"

definition ctx_redis :: "'r world \<Rightarrow> nat \<Rightarrow> 'r redis \<Rightarrow> 'r redis" where
  "ctx_redis W i R = (if wDone W i then wCutRedis W R else R)"

text \<open>\<open>for _, j := range jobs\<close>, counting the calls.\<close>

fun for_each :: "(nat \<Rightarrow> 'j \<Rightarrow> 's \<Rightarrow> 's) \<Rightarrow> nat \<Rightarrow> 'j list \<Rightarrow> 's \<Rightarrow> 's" where
  "for_each body i [] st = st"
| "for_each body i (j # js) st = for_each body (Suc i) js (body i j st)"

section \<open>Interference\<close>

lemma for_each_inv:
  "(\<And>i j st. P st \<Longrightarrow> P (body i j st)) \<Longrightarrow> P st \<Longrightarrow> P (for_each body i js st)"
  by (induction js arbitrary: i st) auto

definition others_keep :: "(db \<Rightarrow> bool) \<Rightarrow> 'r world \<Rightarrow> bool" where
  "others_keep P W \<longleftrightarrow> (\<forall>i st. P (fst st) \<longrightarrow> P (fst (wOthers W i st)))"

lemma others_first: "others_keep P W \<Longrightarrow> P (fst st) \<Longrightarrow> P (fst (wOthers W i st))"
  unfolding others_keep_def by blast

definition quiet :: "'r world \<Rightarrow> bool" where
  "quiet W \<longleftrightarrow> (\<forall>i. calm (wEnv W i) \<and> \<not> wDone W i) \<and> (\<forall>i st. wOthers W i st = st)"

lemma quietD: "quiet W \<Longrightarrow> calm (wEnv W i)" "quiet W \<Longrightarrow> wOthers W i st = st"
  unfolding quiet_def by blast+

lemma quiet_ctx: "quiet W \<Longrightarrow> ctx_env W i = wEnv W i" "quiet W \<Longrightarrow> ctx_redis W i R = R"
  by (simp_all add: quiet_def ctx_env_def ctx_redis_def)

text \<open>An activity that no other process interferes with and whose context is not done.\<close>

definition alone :: "(nat \<Rightarrow> env) \<Rightarrow> 'r world" where
  "alone f = \<lparr>wEnv = f, wOthers = (\<lambda>_ st. st), wDone = (\<lambda>_. False), wCutEnv = (\<lambda>e. e), wCutRedis = (\<lambda>R. R)\<rparr>"

lemma alone_simps [simp]: "wEnv (alone f) = f" "wOthers (alone f) i st = st" "wDone (alone f) i = False"
  by (simp_all add: alone_def)

section \<open>Queue entries\<close>

text \<open>The list a job waits in, and what enqueueing the jobs \<open>js\<close> in order adds to the list \<open>q\<close>.\<close>

definition job_key :: "(uuid \<Rightarrow> string) \<Rightarrow> job \<Rightarrow> string" where
  "job_key ustr j = queue_key ustr (bucketForPriority (jPriority j)) (jTenantID j)"

definition pushes :: "(uuid \<Rightarrow> string) \<Rightarrow> job list \<Rightarrow> string \<Rightarrow> string list" where
  "pushes ustr js q = rev (map (\<lambda>j. ustr (jID j)) (filter (\<lambda>j. job_key ustr j = q) js))"

lemma pushes_Nil [simp]: "pushes ustr [] q = []"
  by (simp add: pushes_def)

lemma pushes_Cons: "pushes ustr (j # js) q @ xs =
    pushes ustr js q @ (if job_key ustr j = q then ustr (jID j) # xs else xs)"
  by (simp add: pushes_def)

lemma pushes_in: "j \<in> set js \<Longrightarrow> ustr (jID j) \<in> set (pushes ustr js (job_key ustr j))"
  by (auto simp: pushes_def)

lemma Enqueue_job:
  assumes "lists_ok R L" "no_errors R"
  shows "L (fst (Enqueue R ustr (jTenantID j) (jID j) (jPriority j) s)) q =
    (if job_key ustr j = q then ustr (jID j) # L s q else L s q)"
  by (rule Enqueue_push[OF assms, of ustr "jTenantID j" "jID j" "jPriority j" s])
    (auto simp: pushed_def job_key_def)

end
