(* ===== verification/Scheduler.thy ===== *)
theory Scheduler
  imports Outcomes World
begin

text \<open>
  internal/scheduler/scheduler.go: the loops of the leader. Each \<open>run...\<close> function waits for its
  ticker and calls one function; here are those functions, one call each. The state is the
  database and the Redis server.

  A tick makes several calls, and other processes work on the same state in between (record \<open>world\<close>).
  Logging is left out.
\<close>

section \<open>Constants\<close>

definition duePollBatchSize :: int where
  "duePollBatchSize = 500"

definition failedPollBatchSize :: int where
  "failedPollBatchSize = 500"

definition pendingReconcileBatchSize :: int where
  "pendingReconcileBatchSize = 500"

definition cronBatchSize :: int where
  "cronBatchSize = 200"

section \<open>Ticks\<close>

text \<open>
  The body that three loops share: a storage call on the job; if it fails, on to the next job;
  otherwise the job is enqueued, when the result of the call asks for it. An error of \<open>Enqueue\<close> is
  only logged.
\<close>

definition act_enqueue ::
    "(env \<Rightarrow> uuid \<Rightarrow> db \<Rightarrow> db \<times> 'a res) \<Rightarrow> ('a \<Rightarrow> bool) \<Rightarrow> 'r redis \<Rightarrow> (uuid \<Rightarrow> string) \<Rightarrow> 'r world \<Rightarrow>
     nat \<Rightarrow> job \<Rightarrow> db \<times> 'r \<Rightarrow> db \<times> 'r" where
  "act_enqueue act wants R ustr W i j st =
     (case wOthers W i st of (d, s) \<Rightarrow>
      case act (wEnv W i) (jID j) d of
        (d', Inl _) \<Rightarrow> (d', s)
      | (d', Inr x) \<Rightarrow>
          (d', if wants x then fst (Enqueue R ustr (jTenantID j) (jID j) (jPriority j) s) else s))"

definition pollScheduledJobs ::
    "'r redis \<Rightarrow> (uuid \<Rightarrow> string) \<Rightarrow> (job list \<Rightarrow> job list) \<Rightarrow> 'r world \<Rightarrow> db \<times> 'r \<Rightarrow> db \<times> 'r" where
  "pollScheduledJobs R ustr scan W st =
     (let st = wOthers W 0 st in
      case GetDueJobs (wEnv W 0) scan duePollBatchSize (fst st) of
        Inl _ \<Rightarrow> st
      | Inr js \<Rightarrow> for_each (act_enqueue PromoteScheduledToPending (\<lambda>_. True) R ustr W) 1 js st)"

definition pollFailedJobs ::
    "'r redis \<Rightarrow> (uuid \<Rightarrow> string) \<Rightarrow> (job list \<Rightarrow> job list) \<Rightarrow> 'r world \<Rightarrow> db \<times> 'r \<Rightarrow> db \<times> 'r" where
  "pollFailedJobs R ustr scan W st =
     (let st = wOthers W 0 st in
      case GetFailedReadyJobs (wEnv W 0) scan failedPollBatchSize (fst st) of
        Inl _ \<Rightarrow> st
      | Inr js \<Rightarrow> for_each (act_enqueue PromoteFailedToPending (\<lambda>_. True) R ustr W) 1 js st)"

text \<open>One tick of \<open>runDuePoll\<close>.\<close>

definition duePoll ::
    "'r redis \<Rightarrow> (uuid \<Rightarrow> string) \<Rightarrow> (job list \<Rightarrow> job list) \<Rightarrow> 'r world \<Rightarrow> 'r world \<Rightarrow> db \<times> 'r \<Rightarrow> db \<times> 'r" where
  "duePoll R ustr scan W W' st = pollFailedJobs R ustr scan W' (pollScheduledJobs R ustr scan W st)"

definition reapStaleClaims ::
    "'r redis \<Rightarrow> (uuid \<Rightarrow> string) \<Rightarrow> (job list \<Rightarrow> job list) \<Rightarrow> 'r world \<Rightarrow> db \<times> 'r \<Rightarrow> db \<times> 'r" where
  "reapStaleClaims R ustr scan W st =
     (let st = wOthers W 0 st in
      case GetStaleClaims (wEnv W 0) scan (fst st) of
        Inl _ \<Rightarrow> st
      | Inr js \<Rightarrow> for_each (act_enqueue RequeueStaleJob (\<lambda>dead. \<not> dead) R ustr W) 1 js st)"

definition move_one :: "'r world \<Rightarrow> nat \<Rightarrow> job \<Rightarrow> db \<times> 'r \<Rightarrow> db \<times> 'r" where
  "move_one W i j st = (case wOthers W i st of (d, s) \<Rightarrow> (fst (MoveToDeadLetter (wEnv W i) (jID j) d), s))"

definition promoteDeadJobs :: "(job list \<Rightarrow> job list) \<Rightarrow> 'r world \<Rightarrow> db \<times> 'r \<Rightarrow> db \<times> 'r" where
  "promoteDeadJobs scan W st =
     (let st = wOthers W 0 st in
      case ListJobs (wEnv W 0) scan \<lparr>lfTenantID = None, lfState = DeadState, lfLimit = 200, lfOffset = 0\<rparr> (fst st) of
        Inl _ \<Rightarrow> st
      | Inr js \<Rightarrow> for_each (move_one W) 1 js st)"

definition requeue_one :: "'r redis \<Rightarrow> (uuid \<Rightarrow> string) \<Rightarrow> 'r world \<Rightarrow> nat \<Rightarrow> job \<Rightarrow> db \<times> 'r \<Rightarrow> db \<times> 'r" where
  "requeue_one R ustr W i j st =
     (case wOthers W i st of (d, s) \<Rightarrow> (d, fst (Enqueue R ustr (jTenantID j) (jID j) (jPriority j) s)))"

definition reconcilePending ::
    "'r redis \<Rightarrow> (uuid \<Rightarrow> string) \<Rightarrow> (job list \<Rightarrow> job list) \<Rightarrow> 'r world \<Rightarrow> db \<times> 'r \<Rightarrow> db \<times> 'r" where
  "reconcilePending R ustr scan W st =
     (let st = wOthers W 0 st in
      case GetPendingJobs (wEnv W 0) scan pendingReconcileBatchSize (fst st) of
        Inl _ \<Rightarrow> st
      | Inr js \<Rightarrow> for_each (requeue_one R ustr W) 1 js st)"

section \<open>Any tick keeps the database consistent\<close>

lemma act_enqueue_inv:
  assumes "others_keep P W" "\<And>e i d. P d \<Longrightarrow> P (fst (act e i d))" "P (fst st)"
  shows "P (fst (act_enqueue act wants R ustr W i j st))"
proof -
  obtain d s where o: "wOthers W i st = (d, s)" by (cases "wOthers W i st")
  then have "P d" using assms(1,3) unfolding others_keep_def by (metis fst_conv)
  then have "P (fst (act (wEnv W i) (jID j) d))" by (rule assms(2))
  then show ?thesis by (auto simp: act_enqueue_def o split: prod.split sum.split)
qed

lemma acts_keep_inv:
  "db_inv d \<Longrightarrow> db_inv (fst (PromoteScheduledToPending e i d))"
  "db_inv d \<Longrightarrow> db_inv (fst (PromoteFailedToPending e i d))"
  "db_inv d \<Longrightarrow> db_inv (fst (RequeueStaleJob e i d))"
  "db_inv d \<Longrightarrow> db_inv (fst (MoveToDeadLetter e i d))"
  using db_inv_step[of d "Op_PromoteScheduledToPending e i"] db_inv_step[of d "Op_PromoteFailedToPending e i"]
    db_inv_step[of d "Op_RequeueStaleJob e i"] db_inv_step[of d "Op_MoveToDeadLetter e i"] by simp_all

lemma loop_inv:
  assumes "others_keep P W" "P (fst st)" "\<And>e i d. P d \<Longrightarrow> P (fst (act e i d))"
  shows "P (fst (for_each (act_enqueue act wants R ustr W) i js st))"
  by (rule for_each_inv[where P = "\<lambda>st. P (fst st)"]) (use assms act_enqueue_inv in blast)+

lemma polls_inv:
  assumes "others_keep db_inv W" "db_inv (fst st)"
  shows "db_inv (fst (pollScheduledJobs R ustr scan W st))" "db_inv (fst (pollFailedJobs R ustr scan W st))"
    "db_inv (fst (reapStaleClaims R ustr scan W st))"
  unfolding pollScheduledJobs_def pollFailedJobs_def reapStaleClaims_def Let_def
  using others_first[OF assms, of 0] loop_inv[OF assms(1) others_first[OF assms] acts_keep_inv(1)]
    loop_inv[OF assms(1) others_first[OF assms] acts_keep_inv(2)]
    loop_inv[OF assms(1) others_first[OF assms] acts_keep_inv(3)]
  by (simp_all split: sum.split)

lemma one_inv:
  assumes "others_keep db_inv W" "db_inv (fst st)"
  shows "db_inv (fst (move_one W i j st))" "db_inv (fst (requeue_one R ustr W i j st))"
  using others_first[OF assms, of i] acts_keep_inv(4)[of "fst (wOthers W i st)"]
  by (auto simp: move_one_def requeue_one_def split: prod.split)

lemma lists_inv:
  assumes "others_keep db_inv W" "db_inv (fst st)"
  shows "db_inv (fst (promoteDeadJobs scan W st))" "db_inv (fst (reconcilePending R ustr scan W st))"
proof -
  have "db_inv (fst (for_each (move_one W) i js (wOthers W 0 st)))"
    "db_inv (fst (for_each (requeue_one R ustr W) i js (wOthers W 0 st)))" for i js
    using for_each_inv[where P = "\<lambda>st. db_inv (fst st)", OF _ others_first[OF assms]]
      one_inv[OF assms(1)] by blast+
  then show "db_inv (fst (promoteDeadJobs scan W st))" "db_inv (fst (reconcilePending R ustr scan W st))"
    unfolding promoteDeadJobs_def reconcilePending_def Let_def
    using others_first[OF assms, of 0] by (simp_all split: sum.split)
qed

text \<open>The scheduler never breaks the database: whatever it lists, whichever of its statements
  fail, and whatever consistent changes other processes make between any two of its calls, each
  tick (due poll, reaper, dead-letter promoter, reconciler) leaves the database consistent.\<close>

lemma scheduler_keeps_consistent:
  assumes "others_keep db_inv W" "others_keep db_inv W'" "db_inv (fst st)"
  shows "db_inv (fst (duePoll R ustr scan W W' st)) \<and> db_inv (fst (reapStaleClaims R ustr scan W st)) \<and>
    db_inv (fst (promoteDeadJobs scan W st)) \<and> db_inv (fst (reconcilePending R ustr scan W st))"
  unfolding duePoll_def
  by (intro conjI polls_inv lists_inv assms)

section \<open>What the polls do on a healthy system\<close>

text \<open>
  The promotions share a contract: on a healthy server the call moves exactly the row with that id,
  if the guard holds for it, and a promoted row no longer satisfies the guard.
\<close>

locale promotion =
  fixes act :: "env \<Rightarrow> uuid \<Rightarrow> db \<Rightarrow> db \<times> unit res" and guard :: "job \<Rightarrow> bool" and promote :: "env \<Rightarrow> job \<Rightarrow> job"
  assumes act_calm: "calm e \<Longrightarrow>
      act e i d = (d\<lparr>jobs := sql_update (\<lambda>j. jID j = i \<and> guard j) (promote e) (jobs d)\<rparr>, Inr ())"
    and promote_key: "jID (promote e j) = jID j"
    and promote_done: "\<not> guard (promote e j)"
begin

lemma act_enqueue_calm:
  assumes "quiet W"
  shows "act_enqueue act (\<lambda>_. True) R ustr W i j (d, s) =
    (d\<lparr>jobs := sql_update (\<lambda>x. jID x = jID j \<and> guard x) (promote (wEnv W i)) (jobs d)\<rparr>,
     fst (Enqueue R ustr (jTenantID j) (jID j) (jPriority j) s))"
  by (simp add: act_enqueue_def quietD[OF assms] act_calm)

lemma loop_queue:
  assumes "quiet W" "lists_ok R L" "no_errors R"
  shows "L (snd (for_each (act_enqueue act (\<lambda>_. True) R ustr W) i js (d, s))) q = pushes ustr js q @ L s q"
proof (induction js arbitrary: i d s)
  case (Cons j js)
  then show ?case
    by (simp add: act_enqueue_calm[OF assms(1)] Enqueue_job[OF assms(2,3)] pushes_Cons)
qed simp

lemma loop_row:
  assumes "quiet W" "lookup jID k (jobs d) = Some j"
  shows "\<exists>m. lookup jID k (jobs (fst (for_each (act_enqueue act (\<lambda>_. True) R ustr W) i js (d, s)))) =
    Some (if k \<in> jID ` set js \<and> guard j then promote (wEnv W m) j else j)"
  using assms(2)
proof (induction js arbitrary: i d s j)
  case (Cons x js)
  let ?d = "d\<lparr>jobs := sql_update (\<lambda>y. jID y = jID x \<and> guard y) (promote (wEnv W i)) (jobs d)\<rparr>"
  have l: "lookup jID k (jobs ?d) = Some (if k = jID x \<and> guard j then promote (wEnv W i) j else j)"
    using Cons.prems by (simp add: lookup_row_update promote_key)
  show ?case
  proof (cases "k = jID x \<and> guard j")
    case True
    with l have "lookup jID k (jobs ?d) = Some (promote (wEnv W i) j)" by simp
    from Cons.IH[OF this, of "Suc i" "fst (Enqueue R ustr (jTenantID x) (jID x) (jPriority x) s)"] True
    show ?thesis by (auto simp: act_enqueue_calm[OF assms(1)] promote_done)
  next
    case False
    then show ?thesis
      using Cons.IH[of ?d j] l by (auto simp: act_enqueue_calm[OF assms(1)])
  qed
qed simp

lemma loop_no_row:
  assumes "quiet W" "lookup jID k (jobs d) = None"
  shows "lookup jID k (jobs (fst (for_each (act_enqueue act (\<lambda>_. True) R ustr W) i js (d, s)))) = None"
  using assms(2)
proof (induction js arbitrary: i d s)
  case (Cons x js)
  then show ?case by (simp add: act_enqueue_calm[OF assms(1)] lookup_row_update promote_key)
qed simp

end

interpretation sched: promotion PromoteScheduledToPending "\<lambda>j. jState j = StateScheduled"
    "\<lambda>e j. j\<lparr>jState := StatePending\<rparr>"
  by unfold_locales (simp_all add: PromoteScheduledToPending_def)

interpretation retry: promotion PromoteFailedToPending "\<lambda>j. jState j = StateFailed"
    "\<lambda>e j. j\<lparr>jState := StatePending, jRunAt := pg_now e\<rparr>"
  by unfold_locales (simp_all add: PromoteFailedToPending_def)

text \<open>The batch a poll works on: the due rows with the least (priority, run time), at most \<open>n\<close>.\<close>

definition poll_batch :: "(job list \<Rightarrow> job list) \<Rightarrow> (job \<Rightarrow> bool) \<Rightarrow> int \<Rightarrow> db \<Rightarrow> job list" where
  "poll_batch scan p n d = order_limit (\<lambda>j. (jPriority j, jRunAt j)) n (sql_select scan p (jobs d))"

lemma batch_subset: "scan_ok scan \<Longrightarrow> j \<in> set (poll_batch scan p n d) \<Longrightarrow> j \<in> set (jobs d) \<and> p j"
  unfolding poll_batch_def by (drule set_order_limit_subset[THEN subsetD]) (simp add: set_sql_select)

lemma batch_all:
  assumes "scan_ok scan" "int (rows_affected p (jobs d)) \<le> n"
  shows "set (poll_batch scan p n d) = {j \<in> set (jobs d). p j}"
proof -
  have "length (sql_select scan p (jobs d)) \<le> nat n" using assms by (simp add: length_sql_select)
  from set_order_limit_all[OF this] show ?thesis
    by (simp add: poll_batch_def set_sql_select[OF assms(1)])
qed

lemma batch_id:
  assumes "scan_ok scan" "unique_key jID (jobs d)" "lookup jID k (jobs d) = Some j"
  shows "k \<in> jID ` set (poll_batch scan p n d) \<longleftrightarrow> j \<in> set (poll_batch scan p n d)"
proof
  assume "k \<in> jID ` set (poll_batch scan p n d)"
  then obtain x where x: "x \<in> set (poll_batch scan p n d)" "jID x = k" by auto
  then have "lookup jID k (jobs d) = Some x"
    using jt.lookup_unique[OF assms(2)] batch_subset[OF assms(1)] by blast
  with x assms(3) show "j \<in> set (poll_batch scan p n d)" by simp
qed (use jt.lookup_SomeD[OF assms(3)] in force)

text \<open>\<open>batch\<close> is what one poll takes of the rows that satisfy \<open>p\<close>: at most \<open>n\<close>, the most urgent ones.\<close>

definition is_batch :: "(job \<Rightarrow> bool) \<Rightarrow> nat \<Rightarrow> db \<Rightarrow> job list \<Rightarrow> bool" where
  "is_batch p n d batch \<longleftrightarrow> distinct batch \<and> set batch \<subseteq> {j \<in> set (jobs d). p j} \<and>
     length batch = min n (card {j \<in> set (jobs d). p j}) \<and>
     (\<forall>x \<in> set batch. \<forall>y \<in> {j \<in> set (jobs d). p j} - set batch. (jPriority x, jRunAt x) \<le> (jPriority y, jRunAt y))"

lemma card_rows:
  assumes "unique_key jID t"
  shows "card {j \<in> set t. p j} = rows_affected p t"
proof -
  have "distinct (filter p t)" using assms by (auto simp: unique_key_def distinct_map)
  from distinct_card[OF this] show ?thesis by (simp add: rows_affected_def)
qed

lemma poll_batch_is_batch:
  assumes "scan_ok scan" "unique_key jID (jobs d)"
  shows "is_batch p (nat n) d (poll_batch scan p n d)"
proof -
  let ?rows = "sql_select scan p (jobs d)"
  have rows: "set ?rows = {j \<in> set (jobs d). p j}" by (rule set_sql_select[OF assms(1)])
  have "distinct (jobs d)" using assms(2) by (auto simp: unique_key_def distinct_map)
  then have "distinct ?rows"
    using assms(1) unfolding sql_select_def scan_ok_def by (metis distinct_filter mset_eq_imp_distinct_iff)
  then have "distinct (poll_batch scan p n d)" by (simp add: poll_batch_def order_limit_def)
  moreover have "length (poll_batch scan p n d) = min (nat n) (card {j \<in> set (jobs d). p j})"
    by (simp add: poll_batch_def length_order_limit length_sql_select[OF assms(1)] card_rows[OF assms(2)])
  moreover have "(jPriority x, jRunAt x) \<le> (jPriority y, jRunAt y)"
    if "x \<in> set (poll_batch scan p n d)" "y \<in> {j \<in> set (jobs d). p j} - set (poll_batch scan p n d)" for x y
    using order_limit_least[of y ?rows "\<lambda>j. (jPriority j, jRunAt j)" n x] that rows
    unfolding poll_batch_def by blast
  ultimately show ?thesis using batch_subset[OF assms(1)] unfolding is_batch_def by blast
qed

definition due :: "time \<Rightarrow> State \<Rightarrow> job \<Rightarrow> bool" where
  "due now st = (\<lambda>j. jState j = st \<and> jRunAt j \<le> now)"

text \<open>The due poll: of the scheduled jobs whose run time has come it takes the most urgent 500 (all
  of them when there are no more); each becomes pending and is pushed onto the queue of its tenant
  and priority, in order of urgency; nothing else changes.\<close>

lemma pollScheduledJobs_outcome:
  assumes "quiet W" "lists_ok R L" "no_errors R" "scan_ok scan" "unique_key jID (jobs d)"
    and "pollScheduledJobs R ustr scan W (d, s) = (d', s')"
  shows "\<exists>batch. is_batch (due (pg_now (wEnv W 0)) StateScheduled) 500 d batch \<and>
    (\<forall>k. lookup jID k (jobs d') =
       map_option (\<lambda>j. if j \<in> set batch then j\<lparr>jState := StatePending\<rparr> else j) (lookup jID k (jobs d))) \<and>
    (\<forall>q. L s' q = pushes ustr batch q @ L s q)"
proof -
  define batch where "batch = poll_batch scan (due (pg_now (wEnv W 0)) StateScheduled) 500 d"
  have p: "(d', s') = for_each (act_enqueue PromoteScheduledToPending (\<lambda>_. True) R ustr W) 1 batch (d, s)"
    using assms(6) quietD[OF assms(1)]
    by (simp add: pollScheduledJobs_def GetDueJobs_def batch_def poll_batch_def due_def duePollBatchSize_def)
  have st: "j \<in> set batch \<Longrightarrow> jState j = StateScheduled" for j
    using batch_subset[OF assms(4)] unfolding batch_def by (auto simp: due_def)
  have "lookup jID k (jobs d') =
      map_option (\<lambda>j. if j \<in> set batch then j\<lparr>jState := StatePending\<rparr> else j) (lookup jID k (jobs d))" for k
  proof (cases "lookup jID k (jobs d)")
    case None
    then show ?thesis using sched.loop_no_row[OF assms(1) None] p by (metis fst_conv option.map(1))
  next
    case (Some j)
    have "k \<in> jID ` set batch \<longleftrightarrow> j \<in> set batch"
      unfolding batch_def by (rule batch_id[OF assms(4,5) Some])
    then show ?thesis using sched.loop_row[OF assms(1) Some, of R ustr 1 batch s] p[symmetric] st Some by auto
  qed
  moreover have "L s' q = pushes ustr batch q @ L s q" for q
    using sched.loop_queue[OF assms(1-3)] p by (metis snd_conv)
  moreover have "is_batch (due (pg_now (wEnv W 0)) StateScheduled) 500 d batch"
    using poll_batch_is_batch[OF assms(4,5), of _ 500] by (simp add: batch_def)
  ultimately show ?thesis by blast
qed

text \<open>The retry poll: of the failed jobs whose retry time has come it takes the most urgent 500; each
  becomes pending with a fresh run time and is pushed onto its queue; nothing else changes.\<close>

lemma pollFailedJobs_outcome:
  assumes "quiet W" "lists_ok R L" "no_errors R" "scan_ok scan" "unique_key jID (jobs d)"
    and "pollFailedJobs R ustr scan W (d, s) = (d', s')"
  shows "\<exists>batch. is_batch (due (pg_now (wEnv W 0)) StateFailed) 500 d batch \<and>
    (\<forall>k j. lookup jID k (jobs d) = Some j \<longrightarrow> (\<exists>m. lookup jID k (jobs d') =
       Some (if j \<in> set batch then j\<lparr>jState := StatePending, jRunAt := pg_now (wEnv W m)\<rparr> else j))) \<and>
    (\<forall>q. L s' q = pushes ustr batch q @ L s q)"
proof -
  define batch where "batch = poll_batch scan (due (pg_now (wEnv W 0)) StateFailed) 500 d"
  have p: "(d', s') = for_each (act_enqueue PromoteFailedToPending (\<lambda>_. True) R ustr W) 1 batch (d, s)"
    using assms(6) quietD[OF assms(1)]
    by (simp add: pollFailedJobs_def GetFailedReadyJobs_def batch_def poll_batch_def due_def failedPollBatchSize_def)
  have st: "j \<in> set batch \<Longrightarrow> jState j = StateFailed" for j
    using batch_subset[OF assms(4)] unfolding batch_def by (auto simp: due_def)
  have "\<exists>m. lookup jID k (jobs d') =
      Some (if j \<in> set batch then j\<lparr>jState := StatePending, jRunAt := pg_now (wEnv W m)\<rparr> else j)"
    if "lookup jID k (jobs d) = Some j" for k j
  proof -
    have "k \<in> jID ` set batch \<longleftrightarrow> j \<in> set batch"
      unfolding batch_def by (rule batch_id[OF assms(4,5) that])
    then show ?thesis using retry.loop_row[OF assms(1) that, of R ustr 1 batch s] p[symmetric] st by auto
  qed
  moreover have "L s' q = pushes ustr batch q @ L s q" for q
    using retry.loop_queue[OF assms(1-3)] p by (metis snd_conv)
  moreover have "is_batch (due (pg_now (wEnv W 0)) StateFailed) 500 d batch"
    using poll_batch_is_batch[OF assms(4,5), of _ 500] by (simp add: batch_def)
  ultimately show ?thesis by blast
qed

end
