(* ===== verification/Recovery.thy ===== *)
theory Recovery
  imports Scheduler
begin

text \<open>
  The recovery loops of the scheduler on a healthy system: the reaper of expired claims, the
  reconciler that puts waiting jobs back on their queues, and the dead-letter promoter.
\<close>

section \<open>The reaper\<close>

text \<open>Every open run can be closed: its duration fits the column.\<close>

definition open_closable :: "time \<Rightarrow> db \<Rightarrow> bool" where
  "open_closable now d \<longleftrightarrow> (\<forall>x \<in> set (job_runs d). rFinishedAt x = None \<longrightarrow> duration_ms now (rStartedAt x) \<noteq> None)"

lemma open_closable_runs: "open_closable now d \<Longrightarrow> runs_closable now i d"
  by (simp add: open_closable_def runs_closable_def)

definition reaped_db :: "env \<Rightarrow> uuid \<Rightarrow> db \<Rightarrow> db" where
  "reaped_db e i d = d\<lparr>jobs := sql_update (\<lambda>j. jID j = i \<and> expired (pg_now e) j) reap_row (jobs d),
     job_runs := sql_update (\<lambda>x. rJobID x = i \<and> rFinishedAt x = None) (heartbeat_lost (go_now e)) (job_runs d)\<rparr>"

lemma reaped_db_lookup:
  "lookup jID k (jobs (reaped_db e i d)) =
    map_option (\<lambda>j. if k = i \<and> expired (pg_now e) j then reap_row j else j) (lookup jID k (jobs d))"
  by (simp add: reaped_db_def lookup_row_update map_option_case)

lemma reaped_db_unique: "unique_key jID (jobs (reaped_db e i d)) \<longleftrightarrow> unique_key jID (jobs d)"
  by (simp add: reaped_db_def jt.unique_update)

lemma reaped_db_closable:
  assumes "open_closable now d"
  shows "open_closable now (reaped_db e i d)"
proof -
  have "rFinishedAt x \<noteq> None \<or> x \<in> set (job_runs d)"
    if "x \<in> set (job_runs (reaped_db e i d))" for x
  proof -
    from that consider "x \<in> set (job_runs d)" | y where "x = heartbeat_lost (go_now e) y"
      unfolding reaped_db_def by (auto simp: set_sql_update)
    then show ?thesis by cases (simp_all add: heartbeat_lost_fields)
  qed
  with assms show ?thesis unfolding open_closable_def by blast
qed

lemma expired_later: "expired t j \<Longrightarrow> t \<le> t' \<Longrightarrow> expired t' j"
  by (auto simp: expired_def split: option.splits)

lemma reap_one:
  assumes "quiet W" "unique_key jID (jobs d)" "open_closable (go_now (wEnv W i)) d"
    and "lookup jID (jID j) (jobs d) = Some j" "expired (pg_now (wEnv W i)) j"
  shows "act_enqueue RequeueStaleJob (\<lambda>dead. \<not> dead) R ustr W i j (d, s) =
    (reaped_db (wEnv W i) (jID j) d,
     if reap_state j = StateDead then s else fst (Enqueue R ustr (jTenantID j) (jID j) (jPriority j) s))"
proof -
  have "RequeueStaleJob (wEnv W i) (jID j) d =
      (reaped_db (wEnv W i) (jID j) d, Inr (reap_state j = StateDead))"
    using RequeueStaleJob_calm[OF quietD(1)[OF assms(1)] assms(2) open_closable_runs[OF assms(3)], of "jID j"]
      assms(4,5) by (simp add: reaped_db_def)
  then show ?thesis by (simp add: act_enqueue_def quietD(2)[OF assms(1)])
qed

lemma reap_loop:
  assumes "quiet W" "lists_ok R L" "no_errors R" "\<And>i. t \<le> pg_now (wEnv W i)"
    and "unique_key jID (jobs d)" "\<And>i. open_closable (go_now (wEnv W i)) d"
    and "distinct (map jID js)" "\<And>j. j \<in> set js \<Longrightarrow> lookup jID (jID j) (jobs d) = Some j \<and> expired t j"
  shows "(\<forall>k. lookup jID k (jobs (fst (for_each (act_enqueue RequeueStaleJob (\<lambda>dead. \<not> dead) R ustr W) i js (d, s)))) =
      map_option (\<lambda>j. if k \<in> jID ` set js then reap_row j else j) (lookup jID k (jobs d))) \<and>
    (\<forall>q. L (snd (for_each (act_enqueue RequeueStaleJob (\<lambda>dead. \<not> dead) R ustr W) i js (d, s))) q =
      pushes ustr (filter (\<lambda>j. reap_state j \<noteq> StateDead) js) q @ L s q)"
  using assms(5-8)
proof (induction js arbitrary: i d s)
  case Nil
  then show ?case by (simp add: option.map_ident)
next
  case (Cons j js)
  let ?d = "reaped_db (wEnv W i) (jID j) d"
  let ?s = "if reap_state j = StateDead then s else fst (Enqueue R ustr (jTenantID j) (jID j) (jPriority j) s)"
  have j: "lookup jID (jID j) (jobs d) = Some j" "expired (pg_now (wEnv W i)) j"
    using Cons.prems(4)[of j] expired_later[OF _ assms(4)] by auto
  have "lookup jID (jID x) (jobs ?d) = Some x \<and> expired t x" if "x \<in> set js" for x
    using Cons.prems(3,4) that by (auto simp: reaped_db_lookup image_iff)
  then have IH: "\<And>k. lookup jID k (jobs (fst (for_each (act_enqueue RequeueStaleJob (\<lambda>dead. \<not> dead) R ustr W) (Suc i) js (?d, ?s)))) =
      map_option (\<lambda>j. if k \<in> jID ` set js then reap_row j else j) (lookup jID k (jobs ?d))"
    "\<And>q. L (snd (for_each (act_enqueue RequeueStaleJob (\<lambda>dead. \<not> dead) R ustr W) (Suc i) js (?d, ?s))) q =
      pushes ustr (filter (\<lambda>j. reap_state j \<noteq> StateDead) js) q @ L ?s q"
    using Cons.IH[of ?d "Suc i" ?s] Cons.prems by (simp_all add: reaped_db_unique reaped_db_closable)
  have step: "for_each (act_enqueue RequeueStaleJob (\<lambda>dead. \<not> dead) R ustr W) i (j # js) (d, s) =
      for_each (act_enqueue RequeueStaleJob (\<lambda>dead. \<not> dead) R ustr W) (Suc i) js (?d, ?s)"
    using reap_one[OF assms(1) Cons.prems(1,2) j] by simp
  have "jID j \<notin> jID ` set js" using Cons.prems(3) by auto
  then have "map_option (\<lambda>x. if k \<in> jID ` set js then reap_row x else x) (lookup jID k (jobs ?d)) =
      map_option (\<lambda>x. if k \<in> jID ` set (j # js) then reap_row x else x) (lookup jID k (jobs d))" for k
    using j by (cases "k = jID j") (auto simp: reaped_db_lookup option.map_comp comp_def)
  moreover have "pushes ustr (filter (\<lambda>j. reap_state j \<noteq> StateDead) js) q @ L ?s q =
      pushes ustr (filter (\<lambda>j. reap_state j \<noteq> StateDead) (j # js)) q @ L s q" for q
    by (simp add: Enqueue_job[OF assms(2,3)] pushes_Cons)
  ultimately show ?case unfolding step IH by blast
qed

lemma reap_effect:
  assumes "quiet W" "lists_ok R L" "no_errors R" "scan_ok scan" "unique_key jID (jobs d)"
    and "\<And>i. pg_now (wEnv W 0) \<le> pg_now (wEnv W i)" "\<And>i. open_closable (go_now (wEnv W i)) d"
    and "reapStaleClaims R ustr scan W (d, s) = (d', s')"
  shows "(\<forall>k. lookup jID k (jobs d') =
       map_option (\<lambda>j. if expired (pg_now (wEnv W 0)) j then reap_row j else j) (lookup jID k (jobs d))) \<and>
    (\<exists>js. mset js = filter_mset (\<lambda>j. expired (pg_now (wEnv W 0)) j \<and> jAttempt j + 1 < jMaxRetries j) (mset (jobs d)) \<and>
       (\<forall>q. L s' q = pushes ustr js q @ L s q))"
proof -
  let ?t = "pg_now (wEnv W 0)"
  define js where "js = sql_select scan (expired ?t) (jobs d)"
  have set_js: "set js = {j \<in> set (jobs d). expired ?t j}"
    unfolding js_def by (rule set_sql_select[OF assms(4)])
  have m: "mset js = filter_mset (expired ?t) (mset (jobs d))"
    unfolding js_def by (rule mset_sql_select[OF assms(4)])
  have "distinct (map jID (filter (expired ?t) (jobs d)))"
    using assms(5) by (simp add: unique_key_def distinct_map_filter)
  then have dist: "distinct (map jID js)"
    using m by (metis mset_filter mset_map mset_eq_imp_distinct_iff)
  have rows: "lookup jID (jID j) (jobs d) = Some j \<and> expired ?t j" if "j \<in> set js" for j
    using that set_js jt.lookup_unique[OF assms(5)] by auto
  have p: "(d', s') = for_each (act_enqueue RequeueStaleJob (\<lambda>dead. \<not> dead) R ustr W) 1 js (d, s)"
    using assms(8) quietD[OF assms(1)] by (simp add: reapStaleClaims_def GetStaleClaims_def js_def)
  note loop = reap_loop[OF assms(1-3,6,5,7) dist rows, of ustr 1 s, folded p, simplified]
  have "lookup jID k (jobs d') = map_option (\<lambda>j. if expired ?t j then reap_row j else j) (lookup jID k (jobs d))" for k
  proof (cases "lookup jID k (jobs d)")
    case (Some j)
    have "k \<in> jID ` set js \<longleftrightarrow> expired ?t j"
    proof
      assume "k \<in> jID ` set js"
      then obtain x where "x \<in> set js" "jID x = k" by auto
      then show "expired ?t j" using rows[of x] Some by simp
    qed (use jt.lookup_SomeD[OF Some] set_js in auto)
    then show ?thesis using loop Some by simp
  qed (use loop in simp)
  moreover have "mset (filter (\<lambda>j. reap_state j \<noteq> StateDead) js) =
      filter_mset (\<lambda>j. expired ?t j \<and> jAttempt j + 1 < jMaxRetries j) (mset (jobs d))"
    by (auto simp: m filter_filter_mset reap_state_def not_le intro!: filter_mset_cong)
  ultimately show ?thesis using loop by blast
qed

text \<open>C25. The reaper recovers from crashed workers: every job whose deadline has passed gets out of
  flight, with the attempt counted, its claim and deadline gone and the error recorded: back to pending,
  or dead when this attempt was its last. Exactly the pending ones are pushed onto their queues, and
  every other job and entry stays as it was.\<close>

theorem reapStaleClaims_outcome:
  assumes "quiet W" "lists_ok R L" "no_errors R" "scan_ok scan" "unique_key jID (jobs d)"
    and "\<And>i. pg_now (wEnv W 0) \<le> pg_now (wEnv W i)" "\<And>i. open_closable (go_now (wEnv W i)) d"
    and "reapStaleClaims R ustr scan W (d, s) = (d', s')"
  shows "(\<forall>k. lookup jID k (jobs d') = map_option (\<lambda>j.
       if (jState j = StateClaimed \<or> jState j = StateRunning) \<and> (\<exists>t. jDeadline j = Some t \<and> t < pg_now (wEnv W 0))
       then j\<lparr>jState := if jAttempt j + 1 < jMaxRetries j then StatePending else StateDead,
              jAttempt := jAttempt j + 1, jClaimToken := None, jClaimedAt := None, jClaimedBy := None,
              jDeadline := None, jLastError := Some ''worker heartbeat expired''\<rparr>
       else j) (lookup jID k (jobs d))) \<and>
    (\<exists>js. mset js = filter_mset (\<lambda>j. expired (pg_now (wEnv W 0)) j \<and> jAttempt j + 1 < jMaxRetries j) (mset (jobs d)) \<and>
       (\<forall>q. L s' q = pushes ustr js q @ L s q))"
proof -
  let ?t = "pg_now (wEnv W 0)"
  have "reap_row = (\<lambda>j. j\<lparr>jState := if jAttempt j + 1 < jMaxRetries j then StatePending else StateDead,
      jAttempt := jAttempt j + 1, jClaimToken := None, jClaimedAt := None, jClaimedBy := None,
      jDeadline := None, jLastError := Some ''worker heartbeat expired''\<rparr>)"
    by (auto simp: reap_row_def reap_state_def fun_eq_iff)
  moreover have "expired ?t = (\<lambda>j. (jState j = StateClaimed \<or> jState j = StateRunning) \<and> (\<exists>t. jDeadline j = Some t \<and> t < ?t))"
    by (auto simp: fun_eq_iff expired_def in_flight_def split: option.splits)
  ultimately show ?thesis using reap_effect[OF assms] by presburger
qed

theorem reapStaleClaims_outcome_witness:
  "let j = (demo_job 7)\<lparr>jState := StateRunning, jClaimToken := Some 4, jDeadline := Some 50\<rparr>;
       d = demo_empty\<lparr>jobs := [j], job_runs := [new_run 3 0 j]\<rparr>;
       W = alone (\<lambda>_. demo_env 100);
       (d', s') = reapStaleClaims mem_redis ref_ustr (\<lambda>t. t) W (d, mem_empty) in
   lookup jID 7 (jobs d') = Some (j\<lparr>jState := StatePending, jAttempt := 1, jClaimToken := None, jClaimedAt := None,
     jClaimedBy := None, jDeadline := None, jLastError := Some ''worker heartbeat expired''\<rparr>) \<and>
   mLists s' (job_key ref_ustr j) = [ref_ustr 7]"
proof -
  let ?j = "(demo_job 7)\<lparr>jState := StateRunning, jClaimToken := Some 4, jDeadline := Some 50\<rparr>"
  let ?d = "demo_empty\<lparr>jobs := [?j], job_runs := [new_run 3 0 ?j]\<rparr>"
  let ?W = "alone (\<lambda>_. demo_env 100) :: mem world"
  obtain d' s' where r: "reapStaleClaims mem_redis ref_ustr (\<lambda>t. t) ?W (?d, mem_empty) = (d', s')"
    by (rule prod.exhaust)
  have q: "quiet ?W" by (simp add: quiet_def calm_def demo_env_def)
  have u: "unique_key jID (jobs ?d)" "expired 100 ?j" "jAttempt ?j = 0" "jMaxRetries ?j = 2" "jID ?j = 7" by code_simp+
  have n: "pg_now (demo_env 100) = 100" "jobs ?d = [?j]" by (simp_all add: demo_env_def)
  have "open_closable (go_now (demo_env 100)) ?d" by code_simp
  then have c: "open_closable (go_now (wEnv ?W i)) ?d" for i by simp
  have t: "pg_now (wEnv ?W 0) \<le> pg_now (wEnv ?W i)" for i by simp
  note o = reapStaleClaims_outcome[OF q mem_redis_lists_ok mem_redis_no_errors scan_ok_id u(1) t c r]
  have "lookup jID 7 (jobs ?d) = Some ?j" by code_simp
  then have "lookup jID 7 (jobs d') = Some (?j\<lparr>jState := StatePending, jAttempt := 1, jClaimToken := None, jClaimedAt := None,
     jClaimedBy := None, jDeadline := None, jLastError := Some ''worker heartbeat expired''\<rparr>)" using o u n by simp
  moreover have "mLists s' (job_key ref_ustr ?j) = [ref_ustr 7]"
    using o u n by (auto simp: pushes_def mem_empty_def)
  ultimately show ?thesis using r by simp
qed

section \<open>The reconciler\<close>

definition overdue :: "time \<Rightarrow> job \<Rightarrow> bool" where
  "overdue now = (\<lambda>j. jState j = StatePending \<and> jRunAt j \<le> now - minute)"

lemma requeue_loop:
  assumes "quiet W" "lists_ok R L" "no_errors R"
  shows "fst (for_each (requeue_one R ustr W) i js (d, s)) = d \<and>
    L (snd (for_each (requeue_one R ustr W) i js (d, s))) q = pushes ustr js q @ L s q"
proof (induction js arbitrary: i s)
  case (Cons j js)
  then show ?case
    by (simp add: requeue_one_def quietD(2)[OF assms(1)] Enqueue_job[OF assms(2,3)] pushes_Cons)
qed simp

lemma reconcile_batch:
  assumes "quiet W" "lists_ok R L" "no_errors R" "scan_ok scan"
    and "reconcilePending R ustr scan W (d, s) = (d', s')"
  shows "d' = d \<and> (\<forall>q. L s' q = pushes ustr (poll_batch scan (overdue (pg_now (wEnv W 0))) 500 d) q @ L s q)"
proof -
  have "(d', s') = for_each (requeue_one R ustr W) 1 (poll_batch scan (overdue (pg_now (wEnv W 0))) 500 d) (d, s)"
    using assms(5) quietD[OF assms(1)]
    by (simp add: reconcilePending_def GetPendingJobs_def poll_batch_def overdue_def pendingReconcileBatchSize_def)
  then show ?thesis using requeue_loop[OF assms(1-3)] by (metis fst_conv snd_conv)
qed

text \<open>No pending job is lost: whatever happened to its queue entry (a failed push, a flushed Redis,
  a worker that died between taking the entry and claiming the job), one tick of the reconciler
  puts every pending job that is due for more than a minute back on the queue its workers read, as
  long as at most 500 jobs wait; it changes nothing in the database.\<close>

lemma reconcilePending_recovers:
  assumes "quiet W" "lists_ok R L" "no_errors R" "scan_ok scan"
    and "reconcilePending R ustr scan W (d, s) = (d', s')"
    and "rows_affected (overdue (pg_now (wEnv W 0))) (jobs d) \<le> 500"
  shows "d' = d \<and> (\<forall>j \<in> set (jobs d). overdue (pg_now (wEnv W 0)) j \<longrightarrow>
    ustr (jID j) \<in> set (L s' (queue_key ustr (bucketForPriority (jPriority j)) (jTenantID j))))"
proof -
  let ?b = "poll_batch scan (overdue (pg_now (wEnv W 0))) 500 d"
  have "set ?b = {j \<in> set (jobs d). overdue (pg_now (wEnv W 0)) j}"
    using batch_all[OF assms(4)] assms(6) by simp
  then have "ustr (jID j) \<in> set (L s' (job_key ustr j))"
    if "j \<in> set (jobs d)" "overdue (pg_now (wEnv W 0)) j" for j
    using reconcile_batch[OF assms(1-5)] pushes_in[of j ?b ustr] that by auto
  then show ?thesis using reconcile_batch[OF assms(1-5)] by (simp add: job_key_def)
qed

fun ticks :: "nat \<Rightarrow> ('s \<Rightarrow> 's) \<Rightarrow> 's \<Rightarrow> 's" where
  "ticks 0 f s = s"
| "ticks (Suc n) f s = ticks n f (f s)"

lemma distinct_count_list: "distinct xs \<Longrightarrow> x \<in> set xs \<Longrightarrow> count_list xs x = 1"
  by (induction xs) auto

text \<open>The reconciler is not idempotent on the queue: it does not look whether a job is already
  queued, so a job that stays pending while it waits in a backlog gains one more copy of its entry
  with every tick; \<open>n\<close> ticks add exactly \<open>n\<close> copies.\<close>

lemma reconcilePending_duplicates:
  assumes "quiet W" "lists_ok R L" "no_errors R" "scan_ok scan" "inj ustr" "unique_key jID (jobs d)"
    and "j \<in> set (jobs d)" "overdue (pg_now (wEnv W 0)) j"
    and "rows_affected (overdue (pg_now (wEnv W 0))) (jobs d) \<le> 500"
  shows "count_list (L (snd (ticks n (reconcilePending R ustr scan W) (d, s))) (job_key ustr j)) (ustr (jID j)) =
    n + count_list (L s (job_key ustr j)) (ustr (jID j))"
proof (induction n arbitrary: s)
  case (Suc n)
  let ?b = "poll_batch scan (overdue (pg_now (wEnv W 0))) 500 d"
  obtain d' s' where r: "reconcilePending R ustr scan W (d, s) = (d', s')" by (rule prod.exhaust)
  have b: "set ?b = {j \<in> set (jobs d). overdue (pg_now (wEnv W 0)) j}" "distinct ?b"
    using batch_all[OF assms(4)] assms(9) poll_batch_is_batch[OF assms(4,6), of _ 500]
    by (auto simp: is_batch_def)
  let ?f = "filter (\<lambda>x. job_key ustr x = job_key ustr j) ?b"
  have "inj_on (\<lambda>j. ustr (jID j)) (set ?f)"
    using b(1) same_row[OF assms(6)] injD[OF assms(5)] by (auto simp: inj_on_def)
  moreover have "j \<in> set ?f" "distinct ?f" using b assms(7,8) by auto
  ultimately have "count_list (map (\<lambda>j. ustr (jID j)) ?f) (ustr (jID j)) = 1"
    using count_list_inj_map[of "\<lambda>j. ustr (jID j)" ?f j] distinct_count_list[of ?f j] by simp
  then have "count_list (L s' (job_key ustr j)) (ustr (jID j)) = 1 + count_list (L s (job_key ustr j)) (ustr (jID j))"
    using reconcile_batch[OF assms(1-4) r] by (simp add: pushes_def count_list_append)
  moreover have "d' = d" using reconcile_batch[OF assms(1-4) r] by simp
  ultimately show ?case using Suc[of s'] r by simp
qed simp

section \<open>The dead-letter promoter\<close>

lemma move_loop:
  assumes "quiet W" "unique_key jID (jobs d)"
  shows "jobs (fst (for_each (move_one W) i js (d, s))) = jobs d \<and>
    dlJobID ` set (dead_letter (fst (for_each (move_one W) i js (d, s)))) =
      dlJobID ` set (dead_letter d) \<union> {k \<in> jID ` set js. \<exists>j. lookup jID k (jobs d) = Some j \<and> jState j = StateDead} \<and>
    snd (for_each (move_one W) i js (d, s)) = s"
  using assms(2)
proof (induction js arbitrary: i d)
  case (Cons x js)
  let ?d = "fst (MoveToDeadLetter (wEnv W i) (jID x) d)"
  have m: "jobs ?d = jobs d" "dlJobID ` set (dead_letter ?d) = dlJobID ` set (dead_letter d) \<union>
      (if \<exists>j. lookup jID (jID x) (jobs d) = Some j \<and> jState j = StateDead then {jID x} else {})"
    using MoveToDeadLetter_calm[OF quietD(1)[OF assms(1)] Cons.prems, of i "jID x"]
    by (auto simp: dead_letter_of_def dest: jt.lookup_SomeD split: option.splits)
  have "for_each (move_one W) i (x # js) (d, s) = for_each (move_one W) (Suc i) js (?d, s)"
    by (simp add: move_one_def quietD(2)[OF assms(1)])
  then show ?case using Cons.IH[of ?d "Suc i"] Cons.prems m by (auto split: if_splits)
qed simp

definition is_dead :: "job \<Rightarrow> bool" where
  "is_dead = (\<lambda>j. jState j = StateDead)"

definition newest_dead :: "(job list \<Rightarrow> job list) \<Rightarrow> db \<Rightarrow> job list" where
  "newest_dead scan d = order_limit (\<lambda>j. - jCreatedAt j) 200 (sql_select scan is_dead (jobs d))"

lemma promote_newest:
  assumes "quiet W"
  shows "promoteDeadJobs scan W (d, s) = for_each (move_one W) 1 (newest_dead scan d) (d, s)"
proof -
  have "parse_state ''dead'' = Some StateDead" by code_simp
  then have "(\<lambda>j. parse_state ''dead'' = Some (jState j)) = is_dead" by (auto simp: is_dead_def fun_eq_iff)
  then show ?thesis
    using quietD[OF assms] \<open>parse_state ''dead'' = Some StateDead\<close>
    by (simp add: promoteDeadJobs_def ListJobs_def DeadState_def newest_dead_def order_limit_def Let_def)
qed

lemma limit_excludes:
  assumes "j \<in> set rows" "nat n \<le> card {x \<in> set rows. k x < k j}"
  shows "j \<notin> set (order_limit k n rows)"
proof
  assume j: "j \<in> set (order_limit k n rows)"
  have "x \<in> set (order_limit k n rows)" if "x \<in> set rows" "k x < k j" for x
    using order_limit_least[OF that(1) _ j] that(2) by fastforce
  then have "insert j {x \<in> set rows. k x < k j} \<subseteq> set (order_limit k n rows)" using j by blast
  then have "card (insert j {x \<in> set rows. k x < k j}) \<le> card (set (order_limit k n rows))"
    by (rule card_mono[OF finite_set])
  also have "\<dots> \<le> nat n" using card_length[of "order_limit k n rows"] by (simp add: length_order_limit)
  finally show False using assms(2) by simp
qed

text \<open>With at most 200 dead jobs in the table, one tick of the promoter records every one of them in
  the dead-letter table.\<close>

lemma promoteDeadJobs_complete:
  assumes "quiet W" "scan_ok scan" "unique_key jID (jobs d)"
    and "rows_affected is_dead (jobs d) \<le> 200" "j \<in> set (jobs d)" "jState j = StateDead"
  shows "jID j \<in> dlJobID ` set (dead_letter (fst (promoteDeadJobs scan W (d, s))))"
proof -
  have "length (sql_select scan is_dead (jobs d)) \<le> nat 200"
    using assms(4) by (simp add: length_sql_select[OF assms(2)])
  then have "set (newest_dead scan d) = {j \<in> set (jobs d). jState j = StateDead}"
    unfolding newest_dead_def by (simp add: set_order_limit_all set_sql_select[OF assms(2)] is_dead_def)
  then show ?thesis
    using move_loop[OF assms(1,3)] promote_newest[OF assms(1)] assms(5,6) jt.lookup_unique[OF assms(3,5)] by auto
qed

text \<open>C38. Dead jobs can starve: the promoter lists the 200 most recently created dead jobs, and moving a
  job does not take it out of that list. A dead job with 200 later dead jobs is never recorded in
  the dead-letter table, however often the promoter runs.\<close>

theorem promoteDeadJobs_starves:
  assumes "quiet W" "scan_ok scan" "unique_key jID (jobs d)"
    and "j \<in> set (jobs d)" "jState j = StateDead" "jID j \<notin> dlJobID ` set (dead_letter d)"
    and "200 \<le> card {x \<in> set (jobs d). jState x = StateDead \<and> jCreatedAt j < jCreatedAt x}"
  shows "jID j \<notin> dlJobID ` set (dead_letter (fst (ticks n (promoteDeadJobs scan W) (d, s))))"
  using assms(3,4,6,7)
proof (induction n arbitrary: d)
  case (Suc n)
  have "{x \<in> set (sql_select scan is_dead (jobs d)). - jCreatedAt x < - jCreatedAt j} =
      {x \<in> set (jobs d). jState x = StateDead \<and> jCreatedAt j < jCreatedAt x}"
    by (auto simp: set_sql_select[OF assms(2)] is_dead_def)
  then have "j \<notin> set (newest_dead scan d)"
    unfolding newest_dead_def using Suc.prems assms(5)
    by (intro limit_excludes) (simp_all add: set_sql_select[OF assms(2)] is_dead_def)
  moreover have "set (newest_dead scan d) \<subseteq> set (jobs d)"
    unfolding newest_dead_def using set_order_limit_subset[of _ 200 "sql_select scan is_dead (jobs d)"]
    by (auto simp: set_sql_select[OF assms(2)])
  ultimately have "jID j \<notin> jID ` set (newest_dead scan d)"
    using same_row[OF Suc.prems(1) Suc.prems(2)] by fastforce
  then show ?case
    using move_loop[OF assms(1) Suc.prems(1), of 1 "newest_dead scan d" s] Suc.prems
      Suc.IH[of "fst (promoteDeadJobs scan W (d, s))"]
    by (cases "promoteDeadJobs scan W (d, s)") (auto simp: promote_newest[OF assms(1)])
qed simp

definition demo_dead :: "nat \<Rightarrow> job" where
  "demo_dead i = (demo_job (of_nat i))\<lparr>jState := StateDead, jCreatedAt := int i\<rparr>"

lemma demo_dead_fields: "jID (demo_dead i) = of_nat i" "jState (demo_dead i) = StateDead" "jCreatedAt (demo_dead i) = int i"
  by (simp_all add: demo_dead_def demo_job_def)

theorem promoteDeadJobs_starves_witness:
  "let d = demo_empty\<lparr>jobs := map demo_dead [0..<201]\<rparr>; W = alone (\<lambda>_. demo_env 9) in
   0 \<notin> dlJobID ` set (dead_letter (fst (ticks 50 (promoteDeadJobs (\<lambda>t. t) W) (d, mem_empty))))"
proof -
  let ?d = "demo_empty\<lparr>jobs := map demo_dead [0..<201]\<rparr>"
  let ?W = "alone (\<lambda>_. demo_env 9) :: mem world"
  have q: "quiet ?W" by (simp add: quiet_def calm_def demo_env_def)
  have "inj_on (of_nat :: nat \<Rightarrow> uuid) {0..<201}"
    by (rule inj_on_inverseI[where g = unat]) (simp add: unat_of_nat take_bit_nat_eq_self)
  then have u: "unique_key jID (jobs ?d)"
    by (simp add: unique_key_def demo_dead_fields comp_def distinct_map)
  have j: "demo_dead 0 \<in> set (jobs ?d)" "jID (demo_dead 0) \<notin> dlJobID ` set (dead_letter ?d)"
    by (simp_all add: demo_empty_def)
  have "inj_on demo_dead {1..<201}"
    by (rule inj_on_inverseI[where g = "\<lambda>j. nat (jCreatedAt j)"]) (simp add: demo_dead_fields)
  then have "card (demo_dead ` {1..<201}) = 200" by (simp add: card_image)
  moreover have "demo_dead ` {1..<201} \<subseteq>
      {x \<in> set (jobs ?d). jState x = StateDead \<and> jCreatedAt (demo_dead 0) < jCreatedAt x}"
    by (auto simp: demo_dead_fields)
  ultimately have c: "200 \<le> card {x \<in> set (jobs ?d). jState x = StateDead \<and> jCreatedAt (demo_dead 0) < jCreatedAt x}"
    by (metis (no_types, lifting) card_mono finite_set rev_finite_subset mem_Collect_eq subsetI)
  have z: "jID (demo_dead 0) = 0" by (simp add: demo_dead_fields)
  show ?thesis unfolding Let_def
    using promoteDeadJobs_starves[OF q scan_ok_id u j(1) demo_dead_fields(2) j(2) c] unfolding z by blast
qed

end
