(* ===== verification/Calendar.thy ===== *)
theory Calendar
  imports GoText
begin

text \<open>
  What the program uses of the Go package \<open>time\<close>: the Gregorian calendar behind \<open>time.Date\<close>, \<open>Year\<close>,
  \<open>Month\<close> and \<open>AddDate\<close> (all in UTC), and the RFC 3339 text of a time in JSON. A day is its number since
  1970-01-01, a time the nanoseconds since then.
\<close>

section \<open>Dates\<close>

definition leap :: "int \<Rightarrow> bool" where
  "leap y \<longleftrightarrow> 4 dvd y \<and> (\<not> 100 dvd y \<or> 400 dvd y)"

definition days_in :: "int \<Rightarrow> int \<Rightarrow> int" where
  "days_in y m = (if m = 2 then (if leap y then 29 else 28) else if m \<in> {4, 6, 9, 11} then 30 else 31)"

text \<open>The days from 0001-01-01 to the first day of the year, and within the year before the month.\<close>

definition days_before_year :: "int \<Rightarrow> int" where
  "days_before_year y = (let p = y - 1 in 365 * p + p div 4 - p div 100 + p div 400)"

definition days_before_month :: "int \<Rightarrow> int \<Rightarrow> int" where
  "days_before_month y m = sum_list (map (days_in y) [1..m - 1])"

definition epoch :: int where
  "epoch = 719162"

text \<open>\<open>time.Date(y, m, d, 0, 0, 0, 0, UTC)\<close> as a day: a month out of range carries into the year, then the days
  are counted from the first of the month, so a day out of range carries into the following months.\<close>

definition Date :: "int \<Rightarrow> int \<Rightarrow> int \<Rightarrow> int" where
  "Date y m d =
     (let y' = y + (m - 1) div 12; m' = (m - 1) mod 12 + 1
      in days_before_year y' + days_before_month y' m' + (d - 1) - epoch)"

definition year_of :: "int \<Rightarrow> int" where
  "year_of n =
     (let c = 400 * n div 146097 + 1 in
      if n < days_before_year c then c - 1 else if days_before_year (c + 1) \<le> n then c + 1 else c)"

function find_month :: "int \<Rightarrow> int \<Rightarrow> int \<Rightarrow> int \<times> int" where
  "find_month y m x = (if x \<le> days_in y m \<or> 12 \<le> m then (m, x) else find_month y (m + 1) (x - days_in y m))"
  by pat_completeness auto
termination by (relation "measure (\<lambda>(y, m, x). nat (12 - m))") auto

declare find_month.simps [simp del]

text \<open>\<open>t.Date()\<close>: year, month and day.\<close>

definition civil :: "int \<Rightarrow> int \<times> int \<times> int" where
  "civil n =
     (let y = year_of (n + epoch); (m, d) = find_month y 1 (n + epoch - days_before_year y + 1)
      in (y, m, d))"

definition valid_date :: "int \<Rightarrow> int \<Rightarrow> int \<Rightarrow> bool" where
  "valid_date y m d \<longleftrightarrow> 1 \<le> m \<and> m \<le> 12 \<and> 1 \<le> d \<and> d \<le> days_in y m"

section \<open>Years\<close>

lemma div_step:
  assumes "0 < (k :: int)"
  shows "y div k = (y - 1) div k + (if k dvd y then 1 else 0)"
proof (cases "k dvd y")
  case True
  then obtain q where q: "y = k * q" by (rule dvdE)
  then have "(y - 1) div k = q - 1"
    using assms by (intro int_div_pos_eq[where r = "k - 1"]) (auto simp: algebra_simps)
  then show ?thesis using q assms by simp
next
  case False
  then have r: "0 < y mod k" using assms by (metis mod_0_imp_dvd pos_mod_sign order_le_less)
  have "(y - 1) div k = y div k"
    using r assms pos_mod_bound[OF assms, of y] by (intro int_div_pos_eq[where r = "y mod k - 1"]) (auto simp: algebra_simps)
  then show ?thesis using False by simp
qed

lemma days_before_year_Suc: "days_before_year (y + 1) = days_before_year y + (if leap y then 366 else 365)"
proof -
  have "(400 :: int) dvd y \<Longrightarrow> 100 dvd y" by (rule dvd_trans[of 100 400]) simp_all
  moreover have "(100 :: int) dvd y \<Longrightarrow> 4 dvd y" by (rule dvd_trans[of 4 100]) simp_all
  ultimately show ?thesis
    unfolding days_before_year_def Let_def leap_def add_diff_cancel_right'
      div_step[of 4 y, simplified] div_step[of 100 y, simplified] div_step[of 400 y, simplified]
    by (cases "4 dvd y"; cases "100 dvd y"; cases "400 dvd y") simp_all
qed

lemma days_before_year_less: "y < z \<Longrightarrow> days_before_year (y + 1) \<le> days_before_year z"
proof (induction z rule: int_gr_induct [of y, consumes 1, case_names base step])
  case (step z)
  then show ?case using days_before_year_Suc[of z] by (simp split: if_splits)
qed (simp_all add: add.commute)

lemma days_before_year_bounds:
  "146097 * p - 699 \<le> 400 * days_before_year (p + 1)" "400 * days_before_year (p + 1) \<le> 146097 * p + 396"
proof -
  have "4 * (p div 4) \<le> p" "p - 3 \<le> 4 * (p div 4)" "100 * (p div 100) \<le> p" "p - 99 \<le> 100 * (p div 100)"
    "400 * (p div 400) \<le> p" "p - 399 \<le> 400 * (p div 400)" by presburger+
  then show "146097 * p - 699 \<le> 400 * days_before_year (p + 1)" "400 * days_before_year (p + 1) \<le> 146097 * p + 396"
    unfolding days_before_year_def Let_def by simp_all
qed

lemma year_of_bounds: "days_before_year (year_of n) \<le> n" "n < days_before_year (year_of n + 1)"
proof -
  define p where "p = 400 * n div 146097"
  have "146097 * p + 400 * n mod 146097 = 400 * n" unfolding p_def by (rule mult_div_mod_eq)
  then have p: "146097 * p \<le> 400 * n" "400 * n < 146097 * p + 146097"
    using pos_mod_sign[of 146097 "400 * n"] pos_mod_bound[of 146097 "400 * n"] by linarith+
  have "400 * days_before_year p \<le> 400 * n" using days_before_year_bounds(2)[of "p - 1"] p by simp
  then have "days_before_year p \<le> n" by simp
  moreover have "400 * n < 400 * days_before_year (p + 3)" using days_before_year_bounds(1)[of "p + 2"] p by (simp add: add.assoc)
  then have "n < days_before_year (p + 3)" by simp
  ultimately show "days_before_year (year_of n) \<le> n" "n < days_before_year (year_of n + 1)"
    unfolding year_of_def p_def [symmetric] Let_def by (simp_all add: add.commute[of p])
qed

lemma year_of_unique:
  assumes "days_before_year y \<le> n" "n < days_before_year (y + 1)"
  shows "year_of n = y"
  using days_before_year_less[of "year_of n" y] days_before_year_less[of y "year_of n"] year_of_bounds[of n] assms
  by (cases "year_of n" y rule: linorder_cases) auto

section \<open>Months\<close>

lemma days_in_range: "28 \<le> days_in y m" "days_in y m \<le> 31"
  by (simp_all add: days_in_def)

lemma days_before_month_Suc: "1 \<le> m \<Longrightarrow> days_before_month y (m + 1) = days_before_month y m + days_in y m"
  by (simp add: days_before_month_def upto_rec2)

lemma days_before_month_1 [simp]: "days_before_month y 1 = 0"
  by (simp add: days_before_month_def)

lemma days_before_month_13: "days_before_month y 13 = (if leap y then 366 else 365)"
  by (simp add: days_before_month_def upto.simps days_in_def)

lemma days_before_month_mono:
  assumes "1 \<le> m" "m \<le> k"
  shows "days_before_month y m \<le> days_before_month y k"
  using assms(2)
proof (induction k rule: int_ge_induct [of m, consumes 1, case_names base step])
  case (step k)
  then show ?case using assms(1) days_before_month_Suc[of k y] days_in_range(1)[of y k] by simp
qed simp_all

lemma month_unique:
  assumes "valid_date y m d" "valid_date y k e" "days_before_month y m + d = days_before_month y k + e"
  shows "m = k \<and> d = e"
proof -
  have "days_before_month y (a + 1) \<le> days_before_month y b" if "valid_date y a x" "a < b" for a b x
    using that days_before_month_mono[of "a + 1" b y] by (simp add: valid_date_def)
  from this[OF assms(1), of k] this[OF assms(2), of m] show ?thesis
    using assms days_before_month_Suc[of m y] days_before_month_Suc[of k y]
    by (cases m k rule: linorder_cases) (auto simp: valid_date_def)
qed

lemma find_month_spec:
  assumes "1 \<le> m" "m \<le> 12" "1 \<le> x" "days_before_month y m + x \<le> days_before_month y 13"
    and "find_month y m x = (k, e)"
  shows "valid_date y k e \<and> days_before_month y k + e = days_before_month y m + x"
  using assms
proof (induction y m x rule: find_month.induct)
  case (1 y m x)
  show ?case
  proof (cases "x \<le> days_in y m \<or> 12 \<le> m")
    case True
    then have "k = m" "e = x" using 1(6) by (auto simp: find_month.simps[of y m x])
    moreover have "x \<le> days_in y m"
      using True 1(2-5) days_before_month_Suc[of 12 y] by (cases "m = 12") auto
    ultimately show ?thesis using 1(2-4) by (simp add: valid_date_def)
  next
    case False
    then show ?thesis
      using 1 days_before_month_Suc[of m y] by (auto simp: find_month.simps[of y m x])
  qed
qed

section \<open>Dates and days\<close>

lemma Date_in_range: "1 \<le> m \<Longrightarrow> m \<le> 12 \<Longrightarrow> Date y m d = days_before_year y + days_before_month y m + d - 1 - epoch"
  by (simp add: Date_def Let_def)

lemma civil_valid:
  assumes "civil n = (y, m, d)"
  shows "valid_date y m d \<and> Date y m d = n"
proof -
  let ?x = "n + epoch - days_before_year y + 1"
  have y: "y = year_of (n + epoch)" and f: "find_month y 1 ?x = (m, d)"
    using assms by (auto simp: civil_def Let_def split: prod.splits)
  have "1 \<le> ?x" "?x \<le> days_before_month y 13"
    using year_of_bounds[of "n + epoch"] days_before_year_Suc[of y]
    by (simp_all add: y [symmetric] days_before_month_13 split: if_splits)
  then have "valid_date y m d \<and> days_before_month y m + d = ?x"
    using find_month_spec[OF _ _ _ _ f] by simp
  then show ?thesis by (auto simp: Date_in_range valid_date_def)
qed

lemma civil_Date:
  assumes "valid_date y m d"
  shows "civil (Date y m d) = (y, m, d)"
proof -
  let ?n = "Date y m d"
  obtain z k e where c: "civil ?n = (z, k, e)" by (metis prod_cases3)
  note v = civil_valid[OF c]
  have r: "1 \<le> days_before_month a b + x" "days_before_month a b + x \<le> (if leap a then 366 else 365)"
    if "valid_date a b x" for a b x
    using that days_before_month_mono[of 1 b a] days_before_month_mono[of "b + 1" 13 a] days_before_month_Suc[of b a]
      days_before_month_13[of a] by (auto simp: valid_date_def)
  have yr: "year_of (i + epoch) = a" if "valid_date a b x" "i = Date a b x" for a b x i
    using r[OF that(1)] that days_before_year_Suc[of a]
    by (intro year_of_unique) (auto simp: Date_in_range valid_date_def)
  have "z = y" using yr[OF assms refl] yr[OF conjunct1[OF v], of ?n] v by simp
  then show ?thesis
    using v assms month_unique[of y m d k e] c by (auto simp: Date_in_range valid_date_def)
qed

end
