(* ===== verification/Rfc3339.thy ===== *)
theory Rfc3339
  imports Calendar "HOL-Library.Monad_Syntax"
begin

text \<open>
  The text of a time in JSON: what \<open>UnmarshalJSON\<close> of \<open>time.Time\<close> accepts (strict RFC 3339, a fraction of any
  length cut to nanoseconds) and what \<open>MarshalJSON\<close> prints in a zone \<open>off\<close> minutes east of UTC, and that reading
  what was printed gives the time back.
\<close>

section \<open>Digits\<close>

fun fixed :: "nat \<Rightarrow> nat \<Rightarrow> string" where
  "fixed 0 n = []"
| "fixed (Suc k) n = fixed k (n div 10) @ [digit (n mod 10)]"

fun take_num :: "nat \<Rightarrow> nat \<Rightarrow> string \<Rightarrow> (nat \<times> string) option" where
  "take_num 0 acc s = Some (acc, s)"
| "take_num (Suc k) acc [] = None"
| "take_num (Suc k) acc (c # s) = Option.bind (digit_val c) (\<lambda>n. take_num k (10 * acc + n) s)"

fun lit :: "char \<Rightarrow> string \<Rightarrow> string option" where
  "lit c [] = None"
| "lit c (x # s) = (if x = c then Some s else None)"

section \<open>Reading\<close>

definition fraction :: "string \<Rightarrow> (nat \<times> string) option" where
  "fraction s =
     (case s of
        [] \<Rightarrow> Some (0, s)
      | c # r \<Rightarrow>
          if c \<noteq> CHR ''.'' then Some (0, s)
          else let ds = takeWhile (\<lambda>c. digit_val c \<noteq> None) r in
            if ds = [] then None
            else map_option (\<lambda>(n, _). (n, drop (length ds) r)) (take_num 9 0 (ds @ replicate 9 (CHR ''0''))))"

text \<open>The offset in minutes.\<close>

definition zone :: "string \<Rightarrow> int option" where
  "zone s =
     (case s of
        [] \<Rightarrow> None
      | c # r \<Rightarrow>
          if c = CHR ''Z'' then (if r = [] then Some 0 else None)
          else if c \<noteq> CHR ''+'' \<and> c \<noteq> CHR ''-'' then None
          else do {
            (h, r) \<leftarrow> take_num 2 0 r;
            r \<leftarrow> lit (CHR '':'') r;
            (m, r) \<leftarrow> take_num 2 0 r;
            if r = [] \<and> h < 24 \<and> m < 60 then Some ((if c = CHR ''-'' then - 1 else 1) * int (60 * h + m)) else None
          })"

definition UnmarshalTime :: "string \<Rightarrow> time option" where
  "UnmarshalTime s =
     do {
       (y, s) \<leftarrow> take_num 4 0 s;
       s \<leftarrow> lit (CHR ''-'') s;
       (m, s) \<leftarrow> take_num 2 0 s;
       s \<leftarrow> lit (CHR ''-'') s;
       (d, s) \<leftarrow> take_num 2 0 s;
       s \<leftarrow> lit (CHR ''T'') s;
       (h, s) \<leftarrow> take_num 2 0 s;
       s \<leftarrow> lit (CHR '':'') s;
       (mi, s) \<leftarrow> take_num 2 0 s;
       s \<leftarrow> lit (CHR '':'') s;
       (sec, s) \<leftarrow> take_num 2 0 s;
       (ns, s) \<leftarrow> fraction s;
       off \<leftarrow> zone s;
       if valid_date (int y) (int m) (int d) \<and> h < 24 \<and> mi < 60 \<and> sec < 60
       then Some ((86400 * Date (int y) (int m) (int d) + int (3600 * h + 60 * mi + sec) - 60 * off) * second + int ns)
       else None
     }"

section \<open>Printing\<close>

definition print_fraction :: "nat \<Rightarrow> string" where
  "print_fraction ns =
     (if ns = 0 then [] else CHR ''.'' # rev (dropWhile (\<lambda>c. c = CHR ''0'') (rev (fixed 9 ns))))"

definition print_zone :: "int \<Rightarrow> string" where
  "print_zone off =
     (if off = 0 then ''Z''
      else (if off < 0 then CHR ''-'' else CHR ''+'') # fixed 2 (nat \<bar>off\<bar> div 60) @ '':'' @ fixed 2 (nat \<bar>off\<bar> mod 60))"

text \<open>The seconds of local time.\<close>

definition local_second :: "int \<Rightarrow> time \<Rightarrow> int" where
  "local_second off t = t div second + 60 * off"

definition MarshalTime :: "int \<Rightarrow> time \<Rightarrow> string" where
  "MarshalTime off t =
     (let l = local_second off t; (y, m, d) = civil (l div 86400); s = nat (l mod 86400) in
      fixed 4 (nat y) @ ''-'' @ fixed 2 (nat m) @ ''-'' @ fixed 2 (nat d) @ ''T'' @
      fixed 2 (s div 3600) @ '':'' @ fixed 2 (s div 60 mod 60) @ '':'' @ fixed 2 (s mod 60) @
      print_fraction (nat (t mod second)) @ print_zone off)"

text \<open>The times \<open>MarshalJSON\<close> accepts: local year of four digits, an offset below a day.\<close>

definition printable :: "int \<Rightarrow> time \<Rightarrow> bool" where
  "printable off t \<longleftrightarrow>
     (let y = fst (civil (local_second off t div 86400)) in 0 \<le> y \<and> y \<le> 9999) \<and> \<bar>off\<bar> < 24 * 60"

section \<open>Reading what was printed\<close>

lemma length_fixed [simp]: "length (fixed k n) = k"
  by (induction k n rule: fixed.induct) auto

lemma take_num_append:
  "take_num (k + j) acc s = Option.bind (take_num k acc s) (\<lambda>(a, r). take_num j a r)"
proof (induction k acc s rule: take_num.induct)
  case (3 k acc c s)
  then show ?case by (cases "digit_val c") auto
qed auto

lemma take_num_fixed: "take_num k acc (fixed k n @ r) = Some (acc * 10 ^ k + n mod 10 ^ k, r)"
proof (induction k arbitrary: n r)
  case (Suc k)
  have "take_num (k + 1) acc (fixed (Suc k) n @ r) =
      Some (10 * (acc * 10 ^ k + n div 10 mod 10 ^ k) + n mod 10, r)"
    by (simp only: take_num_append fixed.simps append_assoc Suc.IH) (simp add: digit_val_digit)
  moreover have "10 * (n div 10 mod 10 ^ k) + n mod 10 = n mod 10 ^ Suc k"
    by (simp add: mod_mult2_eq)
  ultimately show ?case by (simp add: algebra_simps)
qed simp

lemma take_num_fixed_small: "n < 10 ^ k \<Longrightarrow> take_num k 0 (fixed k n @ r) = Some (n, r)"
  by (simp add: take_num_fixed)

lemma fixed_digits: "c \<in> set (fixed k n) \<Longrightarrow> digit_val c \<noteq> None"
  by (induction k n rule: fixed.induct) (auto simp: digit_val_digit)

lemma fixed_0: "fixed k 0 = replicate k (CHR ''0'')"
proof (induction k)
  case (Suc k)
  have "digit 0 = CHR ''0''" by code_simp
  with Suc show ?case by (simp add: replicate_append_same)
qed simp

lemma fixed_inj:
  assumes "fixed k a = fixed k b" "a < 10 ^ k" "b < 10 ^ k"
  shows "a = b"
  using take_num_fixed_small[OF assms(2), of "[]"] take_num_fixed_small[OF assms(3), of "[]"] assms(1) by simp

lemma strip_pad:
  "rev (dropWhile (\<lambda>c. c = z) (rev xs)) @ replicate (length xs - length (dropWhile (\<lambda>c. c = z) (rev xs))) z = xs"
proof (induction xs rule: rev_induct)
  case (snoc x xs)
  then show ?case
    by (cases "x = z") (auto simp: Suc_diff_le length_dropWhile_le[of _ "rev xs", simplified] replicate_append_same [symmetric]
        simp flip: append_assoc)
qed simp

lemma take_num_pad:
  assumes "ds @ replicate k z = fixed 9 ns" "ns < 10 ^ 9"
  shows "\<exists>r. take_num 9 0 (ds @ replicate 9 z) = Some (ns, r)"
proof -
  have "length ds + k = 9" using arg_cong[OF assms(1), of length] by simp
  then have "replicate 9 z = replicate k z @ replicate (length ds) z" by (metis add.commute replicate_add)
  then have "ds @ replicate 9 z = fixed 9 ns @ replicate (length ds) z" using assms(1) by simp
  then show ?thesis using take_num_fixed_small[OF assms(2)] by simp
qed

lemma fraction_print:
  assumes "ns < 10 ^ 9" "r = [] \<or> (digit_val (hd r) = None \<and> hd r \<noteq> CHR ''.'')"
  shows "fraction (print_fraction ns @ r) = Some (ns, r)"
proof (cases "ns = 0")
  case True
  then show ?thesis using assms(2) by (cases r) (auto simp: print_fraction_def fraction_def)
next
  case False
  define ds where "ds = rev (dropWhile (\<lambda>c. c = CHR ''0'') (rev (fixed 9 ns)))"
  define k where "k = length (fixed 9 ns) - length (dropWhile (\<lambda>c. c = CHR ''0'') (rev (fixed 9 ns)))"
  have pad: "ds @ replicate k (CHR ''0'') = fixed 9 ns" unfolding ds_def k_def by (rule strip_pad)
  have d: "\<forall>c \<in> set ds. digit_val c \<noteq> None"
    using fixed_digits unfolding ds_def by (metis set_dropWhileD set_rev)
  have "ds \<noteq> []"
  proof
    assume "ds = []"
    then have e: "fixed 9 ns = replicate k (CHR ''0'')" using pad by simp
    have "k = 9" using arg_cong[OF e, of length] by (simp only: length_replicate length_fixed)
    then have "fixed 9 ns = replicate 9 (CHR ''0'')" using e by (simp only:)
    then have "fixed 9 ns = fixed 9 0" by (simp only: fixed_0)
    then show False using fixed_inj[of 9 ns 0] assms(1) False by (simp del: fixed.simps)
  qed
  moreover have "takeWhile (\<lambda>c. digit_val c \<noteq> None) (ds @ r) = ds"
    using d assms(2) by (cases r) (auto simp: takeWhile_append)
  moreover obtain q where "take_num 9 0 (ds @ replicate 9 (CHR ''0'')) = Some (ns, q)"
    using take_num_pad[OF pad assms(1)] by blast
  ultimately show ?thesis
    using False by (simp add: print_fraction_def fraction_def ds_def [symmetric] Let_def)
qed

lemma zone_print:
  assumes "\<bar>off\<bar> < 24 * 60"
  shows "zone (print_zone off) = Some off"
proof -
  define a where "a = nat \<bar>off\<bar>"
  have h: "a div 60 < 24" "a mod 60 < 60" using assms by (auto simp: a_def)
  then have t: "take_num 2 0 (fixed 2 (a div 60) @ r) = Some (a div 60, r)"
    "take_num 2 0 (fixed 2 (a mod 60) @ r) = Some (a mod 60, r)" for r
    by (intro take_num_fixed_small; simp)+
  have v: "int (60 * (a div 60) + a mod 60) = \<bar>off\<bar>" unfolding mult_div_mod_eq by (simp add: a_def)
  show ?thesis
    unfolding zone_def print_zone_def a_def [symmetric]
    using t(1) t(2)[of "[]"] h v by (auto simp del: of_nat_add of_nat_mult)
qed

lemma print_zone_hd: "print_zone off \<noteq> []" "digit_val (hd (print_zone off)) = None" "hd (print_zone off) \<noteq> CHR ''.''"
proof -
  have "digit_val (CHR ''Z'') = None" "digit_val (CHR ''+'') = None" "digit_val (CHR ''-'') = None" by code_simp+
  then show "print_zone off \<noteq> []" "digit_val (hd (print_zone off)) = None" "hd (print_zone off) \<noteq> CHR ''.''"
    by (simp_all add: print_zone_def)
qed

lemma local_seconds:
  assumes "civil (local_second off t div 86400) = (y, m, d)" "s = nat (local_second off t mod 86400)"
  shows "(86400 * Date y m d + int (3600 * (s div 3600) + 60 * (s div 60 mod 60) + s mod 60) - 60 * off) * second +
      int (nat (t mod second)) = t"
proof -
  let ?l = "local_second off t"
  have "3600 * (s div 3600) + 60 * (s div 60 mod 60) + s mod 60 = s"
    using mult_div_mod_eq[of 60 s] mult_div_mod_eq[of 60 "s div 60"] div_mult2_eq[of s 60 60, simplified] by linarith
  moreover have "int s = ?l mod 86400" using assms(2) by simp
  moreover have "Date y m d = ?l div 86400" using civil_valid[OF assms(1)] by blast
  ultimately have "86400 * Date y m d + int (3600 * (s div 3600) + 60 * (s div 60 mod 60) + s mod 60) - 60 * off =
      t div second" by (simp add: local_second_def)
  moreover have "int (nat (t mod second)) = t mod second" by (simp add: second_def)
  ultimately show ?thesis by simp
qed

theorem UnmarshalTime_MarshalTime:
  assumes "printable off t"
  shows "UnmarshalTime (MarshalTime off t) = Some t"
proof -
  obtain y m d where c: "civil (local_second off t div 86400) = (y, m, d)" by (metis prod_cases3)
  define s where "s = nat (local_second off t mod 86400)"
  have v: "valid_date y m d" using civil_valid[OF c] by blast
  have y: "0 \<le> y" "nat y < 10 ^ 4" and off: "\<bar>off\<bar> < 24 * 60"
    using assms by (auto simp: printable_def c Let_def)
  have md: "nat m < 10 ^ 2" "nat d < 10 ^ 2" "0 \<le> m" "0 \<le> d" using v days_in_range[of y m] by (auto simp: valid_date_def)
  have "s < 86400" by (simp add: s_def)
  then have s: "s div 3600 < 24" "s div 60 mod 60 < 60" "s mod 60 < 60" by auto
  then have s2: "s div 3600 < 10 ^ 2" "s div 60 mod 60 < 10 ^ 2" "s mod 60 < 10 ^ 2" by simp_all
  have ns: "nat (t mod second) < 10 ^ 9" by (simp add: second_def nat_less_iff)
  note nums = take_num_fixed_small[OF y(2)] take_num_fixed_small[OF md(1)] take_num_fixed_small[OF md(2)]
    take_num_fixed_small[OF s2(1)] take_num_fixed_small[OF s2(2)] take_num_fixed_small[OF s2(3)]
  have f: "fraction (print_fraction (nat (t mod second)) @ print_zone off) = Some (nat (t mod second), print_zone off)"
    by (rule fraction_print[OF ns]) (use print_zone_hd in blast)
  show ?thesis
    unfolding UnmarshalTime_def MarshalTime_def c Let_def s_def [symmetric] prod.case nums
    using y md v s local_seconds[OF c s_def] by (simp add: nums f zone_print[OF off])
qed

end
