(* ===== verification/Admin.thy ===== *)
theory Admin
  imports Recovery Store_Admin Rfc3339 Cli
begin

text \<open>
  cmd/sluice-cli/main.go, the rest of the admin tool: \<open>drain\<close>, \<open>list-dead\<close>, \<open>dump-scheduler\<close> and the
  choice of the command. What a command prints is the list of its lines. The Redis command \<open>SCAN\<close> is
  one more parameter: \<open>scan_contract\<close> states what its documentation promises, that a full iteration
  returns every key that is present from its start to its end (possibly more than once) and that it
  ends. Padding and truncation count bytes, as Go does for ASCII text.
\<close>

type_synonym 'r scan_cmd = "64 word \<Rightarrow> string \<Rightarrow> int \<Rightarrow> 'r \<Rightarrow> 'r \<times> (redis_error + string list \<times> 64 word)"

section \<open>Formatting\<close>

fun repeat :: "string \<Rightarrow> nat \<Rightarrow> string" where
  "repeat s 0 = ''''"
| "repeat s (Suc n) = repeat s n @ s"

text \<open>\<open>%-ns\<close>.\<close>

definition pad :: "nat \<Rightarrow> string \<Rightarrow> string" where
  "pad n s = s @ replicate (n - length s) (CHR '' '')"

text \<open>The character U+2026 in UTF-8.\<close>

definition ellipsis :: string where
  "ellipsis = [CHR 0xE2, CHR 0x80, CHR 0xA6]"

text \<open>\<open>Time.Format(time.RFC3339)\<close> in a zone \<open>off\<close> minutes east of UTC: like \<open>MarshalJSON\<close> without a fraction.\<close>

definition Format :: "int \<Rightarrow> time \<Rightarrow> string" where
  "Format off t = MarshalTime off (t div second * second)"

text \<open>\<open>Duration.String\<close> of a whole number of seconds.\<close>

definition seconds_String :: "int \<Rightarrow> string" where
  "seconds_String n =
     (let a = \<bar>n\<bar>; h = a div 3600; m = a div 60 mod 60; s = a mod 60 in
      (if n < 0 then ''-'' else '''') @
      (if h \<noteq> 0 then int_str h @ ''h'' @ int_str m @ ''m'' else if m \<noteq> 0 then int_str m @ ''m'' else '''') @
      int_str s @ ''s'')"

section \<open>drain\<close>

fun drain_keys :: "'r redis \<Rightarrow> string list \<Rightarrow> int \<Rightarrow> int \<Rightarrow> 'r \<Rightarrow> 'r \<times> int \<times> int" where
  "drain_keys R [] totalJobs queueCount s = (s, totalJobs, queueCount)"
| "drain_keys R (key # keys) totalJobs queueCount s =
     (case LLen R key s of
        (s', Inl _) \<Rightarrow> drain_keys R keys totalJobs queueCount s'
      | (s', Inr n) \<Rightarrow>
          if n = 0 then drain_keys R keys totalJobs queueCount s'
          else (case Del R key s' of
                  (s'', Inl _) \<Rightarrow> drain_keys R keys totalJobs queueCount s''
                | (s'', Inr _) \<Rightarrow> drain_keys R keys (totalJobs + n) (queueCount + 1) s''))"

text \<open>The loop over the cursor: \<open>None\<close> stands for a server whose cursor never returns to 0.\<close>

partial_function (option) drain_loop ::
    "'r redis \<Rightarrow> 'r scan_cmd \<Rightarrow> 64 word \<Rightarrow> int \<Rightarrow> int \<Rightarrow> 'r \<Rightarrow> ('r \<times> (redis_error + int \<times> int)) option" where
  "drain_loop R Scan cursor totalJobs queueCount s =
     (case Scan cursor ''queue:*'' 100 s of
        (s', Inl x) \<Rightarrow> Some (s', Inl x)
      | (s', Inr (keys, next)) \<Rightarrow>
          (case drain_keys R keys totalJobs queueCount s' of
             (s'', t, c) \<Rightarrow> if next = 0 then Some (s'', Inr (t, c)) else drain_loop R Scan next t c s''))"

definition drain_report :: "int \<Rightarrow> int \<Rightarrow> string list" where
  "drain_report totalJobs queueCount =
     (if totalJobs = 0 then [''queues already empty'']
      else [''removed '' @ int_str totalJobs @ '' jobs from '' @ int_str queueCount @ '' queues'',
            ''jobs are preserved in postgres and will be re-enqueued by the reconciler when ready''])"

definition cmdDrain :: "'r redis \<Rightarrow> 'r scan_cmd \<Rightarrow> 'r \<Rightarrow> ('r \<times> string list cli_result) option" where
  "cmdDrain R Scan s =
     map_option (\<lambda>(s', r). (s', case r of Inl _ \<Rightarrow> Fatal ''scan redis'' | Inr (t, c) \<Rightarrow> Exit0 (drain_report t c)))
       (drain_loop R Scan 0 0 0 s)"

section \<open>list-dead\<close>

definition dead_error :: "string option \<Rightarrow> string" where
  "dead_error finalError =
     (case finalError of
        None \<Rightarrow> ''''
      | Some m \<Rightarrow> if length m > 50 then take 50 m @ ellipsis else m)"

text \<open>\<open>off t\<close> is the offset of the zone of the process at time \<open>t\<close>.\<close>

definition dead_line :: "(uuid \<Rightarrow> string) \<Rightarrow> (time \<Rightarrow> int) \<Rightarrow> dead_letter_row \<Rightarrow> string" where
  "dead_line ustr off r =
     pad 36 (ustr (dlJobID r)) @ ''  '' @ pad 36 (ustr (dlTenantID r)) @ ''  '' @
     pad 25 (Format (off (dlMovedAt r)) (dlMovedAt r)) @ ''  '' @ dead_error (dlFinalError r)"

definition dead_rows :: "(dead_letter_row list \<Rightarrow> dead_letter_row list) \<Rightarrow> db \<Rightarrow> dead_letter_row list" where
  "dead_rows scan d = order_limit (\<lambda>r. - dlMovedAt r) 50 (sql_select scan (\<lambda>_. True) (dead_letter d))"

definition cmdListDead ::
    "(uuid \<Rightarrow> string) \<Rightarrow> (time \<Rightarrow> int) \<Rightarrow> env \<Rightarrow> (dead_letter_row list \<Rightarrow> dead_letter_row list) \<Rightarrow> db \<Rightarrow>
     string list cli_result" where
  "cmdListDead ustr off e scan d =
     (case query e 0 (\<lambda>x. x) (Inr (dead_rows scan d)) of
        Inl _ \<Rightarrow> Fatal ''query dead_letter''
      | Inr rows \<Rightarrow> Exit0
          ((pad 36 ''JOB ID'' @ ''  '' @ pad 36 ''TENANT'' @ ''  '' @ pad 25 ''MOVED AT'' @ ''  '' @ ''ERROR'') #
           repeat ''-'' 130 #
           (if rows = [] then [''(no dead-letter jobs)''] else map (dead_line ustr off) rows)))"

section \<open>dump-scheduler\<close>

definition dump_counts :: "db \<Rightarrow> string list" where
  "dump_counts d =
     map (\<lambda>st. ''  '' @ pad 12 (state_string st) @ '' '' @ int_str (int (rows_affected (\<lambda>j. jState j = st) (jobs d))))
       (filter (\<lambda>st. rows_affected (\<lambda>j. jState j = st) (jobs d) \<noteq> 0) all_states)"

text \<open>\<open>ORDER BY claimed_at\<close>: nulls come last.\<close>

definition active_jobs :: "(job list \<Rightarrow> job list) \<Rightarrow> db \<Rightarrow> job list" where
  "active_jobs scan d =
     sort_key (\<lambda>j. case jClaimedAt j of Some t \<Rightarrow> (0::int, t) | None \<Rightarrow> (1, 0))
       (sql_select scan (\<lambda>j. in_flight (jState j)) (jobs d))"

definition active_line :: "(uuid \<Rightarrow> string) \<Rightarrow> time \<Rightarrow> job \<Rightarrow> string" where
  "active_line ustr now j =
     ''  '' @ pad 10 (state_string (jState j)) @ ''  '' @ pad 36 (ustr (jID j)) @ ''  worker '' @
     take 8 (case jClaimedBy j of None \<Rightarrow> ''(unknown)'' | Some w \<Rightarrow> w) @ ellipsis @ ''  '' @
     (case jClaimedAt j of
        None \<Rightarrow> ''''
      | Some t \<Rightarrow> ''('' @ seconds_String (round_seconds (now - t)) @ '' ago)'')"

definition upcoming :: "(Schedule list \<Rightarrow> Schedule list) \<Rightarrow> db \<Rightarrow> Schedule list" where
  "upcoming scan d = order_limit sNextRunAt 10 (sql_select scan sEnabled (schedules d))"

definition upcoming_line :: "time \<Rightarrow> Schedule \<Rightarrow> string" where
  "upcoming_line now s =
     ''  '' @ pad 24 (sName s) @ ''  '' @ pad 20 (sCron s) @ ''  '' @ Format 0 (sNextRunAt s) @
     ''  (in '' @ seconds_String (round_seconds (sNextRunAt s - now)) @ '')''"

fun key_depths :: "'r redis \<Rightarrow> string list \<Rightarrow> 'r \<Rightarrow> 'r \<times> (string \<times> int) list" where
  "key_depths R [] s = (s, [])"
| "key_depths R (key # keys) s =
     (case LLen R key s of
        (s', r) \<Rightarrow>
        (case key_depths R keys s' of
           (s'', out) \<Rightarrow>
             (s'', case r of Inl _ \<Rightarrow> out | Inr n \<Rightarrow> if n = 0 then out else (key, n) # out)))"

text \<open>A failed \<open>SCAN\<close> ends the loop with what was read so far.\<close>

partial_function (option) scan_depths ::
    "'r redis \<Rightarrow> 'r scan_cmd \<Rightarrow> 64 word \<Rightarrow> (string \<times> int) list \<Rightarrow> 'r \<Rightarrow> ('r \<times> (string \<times> int) list) option" where
  "scan_depths R Scan cursor depths s =
     (case Scan cursor ''queue:*'' 100 s of
        (s', Inl x) \<Rightarrow> Some (s', depths)
      | (s', Inr (keys, next)) \<Rightarrow>
          (case key_depths R keys s' of
             (s'', out) \<Rightarrow> if next = 0 then Some (s'', depths @ out) else scan_depths R Scan next (depths @ out) s''))"

definition or_none :: "string \<Rightarrow> string list \<Rightarrow> string list" where
  "or_none none ls = (if ls = [] then [none] else ls)"

definition dump_depths :: "(string \<times> int) list \<Rightarrow> string list" where
  "dump_depths depths = or_none ''  (all queues empty)'' (map (\<lambda>(k, n). ''  '' @ pad 44 k @ ''  '' @ int_str n) depths)"

text \<open>\<open>e\<close> is the environment of the three queries, in their order; \<open>now\<close> the time the process reads.\<close>

definition cmdDumpScheduler ::
    "'r redis \<Rightarrow> 'r scan_cmd \<Rightarrow> (uuid \<Rightarrow> string) \<Rightarrow> env \<Rightarrow> (job list \<Rightarrow> job list) \<Rightarrow> (Schedule list \<Rightarrow> Schedule list) \<Rightarrow>
     db \<times> 'r \<Rightarrow> ('r \<times> string list cli_result) option" where
  "cmdDumpScheduler R Scan ustr e scan sscan st =
     (case st of (d, s) \<Rightarrow>
      if stmt_err e 0 \<noteq> None then Some (s, Fatal ''query job counts'')
      else if stmt_err e 1 \<noteq> None then Some (s, Fatal ''query active workers'')
      else if stmt_err e 2 \<noteq> None then Some (s, Fatal ''query schedules'')
      else map_option (\<lambda>(s', depths). (s', Exit0
        (''JOB COUNTS'' # dump_counts d @
         '''' # ''ACTIVE WORKERS'' # or_none ''  (none)'' (map (active_line ustr (go_now e)) (active_jobs scan d)) @
         '''' # ''UPCOMING SCHEDULES'' # or_none ''  (no enabled schedules)'' (map (upcoming_line (go_now e)) (upcoming sscan d)) @
         '''' # ''REDIS QUEUE DEPTHS'' # dump_depths depths)))
        (scan_depths R Scan 0 [] s))"


section \<open>The choice of the command\<close>

fun one_line :: "string cli_result \<Rightarrow> string list cli_result" where
  "one_line (Fatal m) = Fatal m"
| "one_line (Exit0 l) = Exit0 [l]"

fun depth_lines :: "(string \<times> int) list cli_result \<Rightarrow> string list cli_result" where
  "depth_lines (Fatal m) = Fatal m"
| "depth_lines (Exit0 ds) =
     Exit0 ((pad 12 ''PRIORITY'' @ ''  DEPTH'') # repeat ''-'' 24 # map (\<lambda>(l, n). pad 12 l @ ''  '' @ int_str n) ds)"

text \<open>
  What the tool runs on: the servers' parameters, the environments of its storage calls, whether the
  pool could be created, the scan orders, and the zone of the process.
\<close>

record 'r cli_world =
  cRedis :: "'r redis"
  cScan :: "'r scan_cmd"
  cUstr :: "uuid \<Rightarrow> string"
  cUparse :: "string \<Rightarrow> uuid option"
  cPool :: bool
  cEnv :: "nat \<Rightarrow> env"
  cJobs :: "job list \<Rightarrow> job list"
  cDead :: "dead_letter_row list \<Rightarrow> dead_letter_row list"
  cSchedules :: "Schedule list \<Rightarrow> Schedule list"
  cZone :: "time \<Rightarrow> int"

text \<open>\<open>args\<close> are the arguments that follow the flags; a status other than 0 is \<open>Fatal\<close>.\<close>

definition cli_main ::
    "'r cli_world \<Rightarrow> string list \<Rightarrow> db \<times> 'r \<Rightarrow> ((db \<times> 'r) \<times> string list cli_result) option" where
  "cli_main C args st =
     (case args of
        [] \<Rightarrow> Some (st, Fatal ''usage'')
      | cmd # rest \<Rightarrow>
          if \<not> cPool C then Some (st, Fatal ''connect postgres'')
          else if cmd = ''replay'' then
            Some (map_prod id one_line
              (cmdReplay (cRedis C) (cUstr C) (cUparse C) (cEnv C 0) (cEnv C 1) rest st))
          else if cmd = ''force-fail'' then
            Some (case cmdForceFail (cUstr C) (cUparse C) (cEnv C 0) rest (fst st) of
                    (d, r) \<Rightarrow> ((d, snd st), one_line r))
          else if cmd = ''drain'' then
            map_option (\<lambda>(s, r). ((fst st, s), r)) (cmdDrain (cRedis C) (cScan C) (snd st))
          else if cmd = ''dump-scheduler'' then
            map_option (\<lambda>(s, r). ((fst st, s), r))
              (cmdDumpScheduler (cRedis C) (cScan C) (cUstr C) (cEnv C 0) (cJobs C) (cSchedules C) st)
          else if cmd = ''list-dead'' then
            Some (st, cmdListDead (cUstr C) (cZone C) (cEnv C 0) (cDead C) (fst st))
          else if cmd = ''queue-depth'' then
            Some (case cmdQueueDepth (cRedis C) (snd st) of (s, r) \<Rightarrow> ((fst st, s), depth_lines r))
          else Some (st, Fatal ''unknown command''))"

section \<open>What the iteration over the queues sees\<close>

text \<open>
  \<open>todo c k\<close>: an iteration that is at cursor \<open>c\<close> has still to return the key \<open>k\<close>; \<open>pages\<close> bounds the
  pages that are left.
\<close>

definition scan_contract ::
    "'r scan_cmd \<Rightarrow> ('r \<Rightarrow> string \<Rightarrow> string list) \<Rightarrow> (64 word \<Rightarrow> string \<Rightarrow> bool) \<Rightarrow> (64 word \<Rightarrow> nat) \<Rightarrow> bool" where
  "scan_contract Scan L todo pages \<longleftrightarrow>
     (\<forall>k. todo 0 k) \<and>
     (\<forall>c p n s s' r. Scan c p n s = (s', r) \<longrightarrow> L s' = L s) \<and>
     (\<forall>c n s s' ks next. Scan c ''queue:*'' n s = (s', Inr (ks, next)) \<longrightarrow>
        (next \<noteq> 0 \<longrightarrow> pages next < pages c) \<and> (\<forall>k \<in> set ks. prefix ''queue:'' k) \<and>
        (\<forall>k. prefix ''queue:'' k \<and> L s k \<noteq> [] \<and> todo c k \<and> k \<notin> set ks \<longrightarrow> next \<noteq> 0 \<and> todo next k))"

text \<open>\<open>DEL\<close> removes the list; the three commands report no error.\<close>

definition drain_ok :: "'r redis \<Rightarrow> 'r scan_cmd \<Rightarrow> ('r \<Rightarrow> string \<Rightarrow> string list) \<Rightarrow> bool" where
  "drain_ok R Scan L \<longleftrightarrow>
     (\<forall>k s. \<exists>s' n. LLen R k s = (s', Inr n)) \<and>
     (\<forall>k s. \<exists>s' n. Del R k s = (s', Inr n) \<and> L s' = (L s)(k := [])) \<and>
     (\<forall>c n s. \<exists>s' ks next. Scan c ''queue:*'' n s = (s', Inr (ks, next)))"

definition queues :: "(string \<Rightarrow> string list) \<Rightarrow> string set" where
  "queues m = {k. prefix ''queue:'' k \<and> m k \<noteq> []}"

lemma LLen_ok:
  assumes "lists_ok R L" "drain_ok R Scan L"
  obtains s' where "LLen R k s = (s', Inr (int (length (L s k))))" "L s' = L s"
proof -
  obtain s' n where l: "LLen R k s = (s', Inr n)" using assms(2) unfolding drain_ok_def by blast
  show thesis by (rule that[of s']) (use l LLen_value[OF assms(1) l] LLen_lists[OF assms(1) l] in simp_all)
qed

lemma Del_ok:
  assumes "drain_ok R Scan L"
  obtains s' n where "Del R k s = (s', Inr n)" "L s' = (L s)(k := [])"
  using assms unfolding drain_ok_def by blast

lemma scan_page:
  assumes "scan_contract Scan L todo pages" "drain_ok R Scan L"
  obtains s' ks nx where "Scan c ''queue:*'' n s = (s', Inr (ks, nx))" "L s' = L s"
    "nx \<noteq> 0 \<Longrightarrow> pages nx < pages c" "\<forall>k \<in> set ks. prefix ''queue:'' k"
    "\<And>k. k \<in> queues (L s) \<Longrightarrow> todo c k \<Longrightarrow> k \<notin> set ks \<Longrightarrow> nx \<noteq> 0 \<and> todo nx k"
proof -
  obtain s' ks nx where p: "Scan c ''queue:*'' n s = (s', Inr (ks, nx))"
    using assms(2) unfolding drain_ok_def by blast
  have k: "L s' = L s" using assms(1) p unfolding scan_contract_def by blast
  have "(nx \<noteq> 0 \<longrightarrow> pages nx < pages c) \<and> (\<forall>k \<in> set ks. prefix ''queue:'' k) \<and>
      (\<forall>k. prefix ''queue:'' k \<and> L s k \<noteq> [] \<and> todo c k \<and> k \<notin> set ks \<longrightarrow> nx \<noteq> 0 \<and> todo nx k)"
    using assms(1) p unfolding scan_contract_def by blast
  then show thesis by (intro that[OF p k]) (unfold queues_def, blast+)
qed

lemma sum_cleared:
  fixes f :: "'a \<Rightarrow> int"
  assumes "finite A"
  shows "(\<Sum>x \<in> insert k A. f x) = f k + (\<Sum>x \<in> A. if x = k then 0 else f x)"
proof -
  have "(\<Sum>x \<in> A - {k}. f x) = (\<Sum>x \<in> A. if x = k then 0 else f x)"
    by (rule sum.mono_neutral_cong_left) (use assms in auto)
  then show ?thesis using sum.insert_remove[OF assms, of f k] by simp
qed

lemma drain_keys_effect:
  assumes "lists_ok R L" "drain_ok R Scan L" "drain_keys R ks t c s = (s', t', c')"
  shows "L s' = (\<lambda>k. if k \<in> set ks then [] else L s k) \<and>
    t' = t + (\<Sum>k \<in> set ks. int (length (L s k))) \<and> c' = c + int (card {k \<in> set ks. L s k \<noteq> []})"
  using assms(3)
proof (induction ks arbitrary: t c s)
  case (Cons k ks)
  obtain s1 where l: "LLen R k s = (s1, Inr (int (length (L s k))))" "L s1 = L s"
    by (rule LLen_ok[OF assms(1,2), of k s]) blast
  show ?case
  proof (cases "L s k = []")
    case True
    then have r: "drain_keys R ks t c s1 = (s', t', c')" using Cons.prems l by simp
    have "{x \<in> insert k (set ks). L s x \<noteq> []} = {x \<in> set ks. L s x \<noteq> []}" using True by auto
    moreover have "(\<Sum>x \<in> insert k (set ks). int (length (L s x))) = (\<Sum>x \<in> set ks. int (length (L s x)))"
      using True by (cases "k \<in> set ks") (simp_all add: insert_absorb)
    moreover have "L s' = (\<lambda>x. if x \<in> set (k # ks) then [] else L s x)"
      using Cons.IH[OF r] l(2) True by (auto simp: fun_eq_iff)
    ultimately show ?thesis using Cons.IH[OF r] l(2) by simp
  next
    case False
    obtain s2 n where d: "Del R k s1 = (s2, Inr n)" "L s2 = (L s1)(k := [])"
      by (rule Del_ok[OF assms(2), of k s1]) blast
    have r: "drain_keys R ks (t + int (length (L s k))) (c + 1) s2 = (s', t', c')"
      using Cons.prems l d False by simp
    have L2: "L s2 = (L s)(k := [])" using d l by simp
    have "(\<Sum>x \<in> insert k (set ks). int (length (L s x))) =
        int (length (L s k)) + (\<Sum>x \<in> set ks. int (length (L s2 x)))"
      unfolding sum_cleared[OF finite_set] L2 by (intro arg_cong2[where f = plus] sum.cong) simp_all
    moreover have "{x \<in> insert k (set ks). L s x \<noteq> []} = insert k {x \<in> set ks. L s2 x \<noteq> []}"
      "k \<notin> {x \<in> set ks. L s2 x \<noteq> []}" using False by (auto simp: L2)
    ultimately have "t' = t + (\<Sum>x \<in> set (k # ks). int (length (L s x)))"
      "c' = c + int (card {x \<in> set (k # ks). L s x \<noteq> []})"
      using Cons.IH[OF r] by simp_all
    moreover have "L s' = (\<lambda>x. if x \<in> set (k # ks) then [] else L s x)"
      using Cons.IH[OF r] by (auto simp: L2 fun_eq_iff)
    ultimately show ?thesis by simp
  qed
qed simp


lemma drain_loop_effect:
  assumes "lists_ok R L" "scan_contract Scan L todo pages" "drain_ok R Scan L"
  shows "finite (queues (L s)) \<Longrightarrow> \<forall>k \<in> queues (L s). todo c k \<Longrightarrow>
    \<exists>s'. drain_loop R Scan c t n s = Some (s', Inr (t + (\<Sum>k \<in> queues (L s). int (length (L s k))),
        n + int (card (queues (L s))))) \<and>
      L s' = (\<lambda>k. if prefix ''queue:'' k then [] else L s k)"
proof (induction "pages c" arbitrary: c t n s rule: less_induct)
  case less
  let ?Q = "queues (L s)"
  obtain s1 ks nx where p: "Scan c ''queue:*'' 100 s = (s1, Inr (ks, nx))" "L s1 = L s"
    "nx \<noteq> 0 \<Longrightarrow> pages nx < pages c" "\<forall>k \<in> set ks. prefix ''queue:'' k"
    "\<And>k. k \<in> ?Q \<Longrightarrow> todo c k \<Longrightarrow> k \<notin> set ks \<Longrightarrow> nx \<noteq> 0 \<and> todo nx k"
    by (rule scan_page[OF assms(2,3), of c 100 s]) blast
  obtain s2 t2 n2 where d: "drain_keys R ks t n s1 = (s2, t2, n2)" by (metis prod_cases3)
  note e = drain_keys_effect[OF assms(1,3) d, unfolded p(2)]
  have "{k \<in> set ks. L s k \<noteq> []} = ?Q \<inter> set ks" using p(4) by (auto simp: queues_def)
  moreover have "(\<Sum>k \<in> set ks. int (length (L s k))) = (\<Sum>k \<in> ?Q \<inter> set ks. int (length (L s k)))"
    by (rule sum.mono_neutral_right) (use p(4) in \<open>auto simp: queues_def\<close>)
  ultimately have tn: "t2 = t + (\<Sum>k \<in> ?Q \<inter> set ks. int (length (L s k)))" "n2 = n + int (card (?Q \<inter> set ks))"
    using e by simp_all
  have Q2: "queues (L s2) = ?Q - set ks" using e by (auto simp: queues_def)
  show ?case
  proof (cases "nx = 0")
    case True
    then have "?Q \<inter> set ks = ?Q" using p(5) less.prems(2) by blast
    then have "L s2 = (\<lambda>k. if prefix ''queue:'' k then [] else L s k)"
      using e p(4) by (auto simp: queues_def fun_eq_iff)
    with True \<open>?Q \<inter> set ks = ?Q\<close> show ?thesis using p(1) d tn by (simp add: drain_loop.simps)
  next
    case False
    have "finite (queues (L s2))" "\<forall>k \<in> queues (L s2). todo nx k"
      unfolding Q2 using less.prems p(5) by blast+
    from less.hyps[OF p(3)[OF False] this] obtain s' where
      s': "drain_loop R Scan nx t2 n2 s2 = Some (s', Inr (t2 + (\<Sum>k \<in> ?Q - set ks. int (length (L s2 k))),
        n2 + int (card (?Q - set ks))))" "L s' = (\<lambda>k. if prefix ''queue:'' k then [] else L s2 k)"
      unfolding Q2 by blast
    have "(\<Sum>k \<in> ?Q - set ks. int (length (L s2 k))) = (\<Sum>k \<in> ?Q - set ks. int (length (L s k)))"
      by (rule sum.cong) (use e in auto)
    moreover have "card ?Q = card (?Q \<inter> set ks) + card (?Q - set ks)"
      using less.prems(1) card_Int_Diff by blast
    moreover have "L s' = (\<lambda>k. if prefix ''queue:'' k then [] else L s k)"
      using s'(2) e p(4) by (auto simp: fun_eq_iff)
    ultimately show ?thesis
      using s'(1) p(1) d tn False sum.Int_Diff[OF less.prems(1), of "\<lambda>k. int (length (L s k))" "set ks"]
      by (simp add: drain_loop.simps)
  qed
qed

lemma cmdDrain_effect:
  assumes "lists_ok R L" "scan_contract Scan L todo pages" "drain_ok R Scan L" "finite (queues (L s))"
  shows "\<exists>s'. cmdDrain R Scan s = Some (s', Exit0 (drain_report
      (\<Sum>k \<in> queues (L s). int (length (L s k))) (int (card (queues (L s)))))) \<and>
    L s' = (\<lambda>k. if prefix ''queue:'' k then [] else L s k)"
proof -
  have "\<forall>k \<in> queues (L s). todo 0 k" using assms(2) by (simp add: scan_contract_def)
  from drain_loop_effect[OF assms(1-4) this, of 0 0] show ?thesis by (auto simp: cmdDrain_def)
qed


lemma key_depths_effect:
  assumes "lists_ok R L" "drain_ok R Scan L" "key_depths R ks s = (s', out)"
  shows "L s' = L s \<and> set out = (\<lambda>k. (k, int (length (L s k)))) ` {k \<in> set ks. L s k \<noteq> []}"
  using assms(3)
proof (induction ks arbitrary: s s' out)
  case (Cons k ks)
  obtain s1 where l: "LLen R k s = (s1, Inr (int (length (L s k))))" "L s1 = L s"
    by (rule LLen_ok[OF assms(1,2), of k s]) blast
  obtain s2 o2 where d: "key_depths R ks s1 = (s2, o2)" by (cases "key_depths R ks s1")
  have s: "s' = s2" "out = (if L s k = [] then o2 else (k, int (length (L s k))) # o2)"
    using Cons.prems l d by (auto split: if_splits)
  have "{x \<in> set (k # ks). L s x \<noteq> []} =
      (if L s k = [] then {x \<in> set ks. L s x \<noteq> []} else insert k {x \<in> set ks. L s x \<noteq> []})" by auto
  then show ?case using Cons.IH[OF d] l(2) s by simp
qed simp

lemma scan_depths_effect:
  assumes "lists_ok R L" "scan_contract Scan L todo pages" "drain_ok R Scan L"
  shows "\<exists>s' ds. scan_depths R Scan c depths s = Some (s', depths @ ds) \<and> L s' = L s \<and>
    set ds \<subseteq> (\<lambda>k. (k, int (length (L s k)))) ` queues (L s) \<and>
    (\<forall>k \<in> queues (L s). todo c k \<longrightarrow> (k, int (length (L s k))) \<in> set ds)"
proof (induction "pages c" arbitrary: c depths s rule: less_induct)
  case less
  obtain s1 ks nx where p: "Scan c ''queue:*'' 100 s = (s1, Inr (ks, nx))" "L s1 = L s"
    "nx \<noteq> 0 \<Longrightarrow> pages nx < pages c" "\<forall>k \<in> set ks. prefix ''queue:'' k"
    "\<And>k. k \<in> queues (L s) \<Longrightarrow> todo c k \<Longrightarrow> k \<notin> set ks \<Longrightarrow> nx \<noteq> 0 \<and> todo nx k"
    by (rule scan_page[OF assms(2,3), of c 100 s]) blast
  obtain s2 ds where d: "key_depths R ks s1 = (s2, ds)" by (cases "key_depths R ks s1")
  note e = key_depths_effect[OF assms(1,3) d, unfolded p(2)]
  have ds: "set ds \<subseteq> (\<lambda>k. (k, int (length (L s k)))) ` queues (L s)"
    "\<And>k. k \<in> queues (L s) \<Longrightarrow> k \<in> set ks \<Longrightarrow> (k, int (length (L s k))) \<in> set ds"
    using e p(4) by (auto simp: queues_def)
  show ?case
  proof (cases "nx = 0")
    case True
    then have "scan_depths R Scan c depths s = Some (s2, depths @ ds)"
      using p(1) d by (simp add: scan_depths.simps)
    moreover have "\<forall>k \<in> queues (L s). todo c k \<longrightarrow> (k, int (length (L s k))) \<in> set ds"
      using ds(2) p(5) True by blast
    ultimately show ?thesis using conjunct1[OF e] ds(1) by (intro exI[of _ s2] exI[of _ ds] conjI)
  next
    case False
    from less[OF p(3)[OF False], of "depths @ ds" s2, unfolded conjunct1[OF e]] obtain s' ds' where r: "scan_depths R Scan nx (depths @ ds) s2 = Some (s', (depths @ ds) @ ds')" "L s' = L s"
      "set ds' \<subseteq> (\<lambda>k. (k, int (length (L s k)))) ` queues (L s)"
      "\<forall>k \<in> queues (L s). todo nx k \<longrightarrow> (k, int (length (L s k))) \<in> set ds'" by blast
    have "scan_depths R Scan c depths s = Some (s', depths @ (ds @ ds'))"
      using r(1) p(1) d False by (simp add: scan_depths.simps)
    moreover have "(k, int (length (L s k))) \<in> set (ds @ ds')" if "k \<in> queues (L s)" "todo c k" for k
      using ds(2)[OF that(1)] p(5)[OF that] r(4) that(1) by auto
    ultimately show ?thesis using r(2,3) ds(1) by (intro exI[of _ s'] exI[of _ "ds @ ds'"]) simp
  qed
qed

lemma set_active: "scan_ok scan \<Longrightarrow> set (active_jobs scan d) = {j \<in> set (jobs d). in_flight (jState j)}"
  by (simp add: active_jobs_def set_sql_select)

lemma batch_mset:
  assumes "scan_ok scan" "int (rows_affected p (jobs d)) \<le> n"
  shows "mset (poll_batch scan p n d) = filter_mset p (mset (jobs d))"
proof -
  have "length (sql_select scan p (jobs d)) \<le> nat n" using assms by (simp add: length_sql_select)
  then show ?thesis by (simp add: poll_batch_def order_limit_def mset_sql_select[OF assms(1)])
qed

section \<open>A reference server with keys\<close>

text \<open>An in-memory server that can list its keys: the latest entry of a key counts.\<close>

definition al :: "(string \<times> string list) list \<Rightarrow> string \<Rightarrow> string list" where
  "al s k = (case map_of s k of None \<Rightarrow> [] | Some l \<Rightarrow> l)"

definition al_redis :: "(string \<times> string list) list redis" where
  "al_redis = \<lparr>
     LPush = (\<lambda>k v s. ((k, v # al s k) # s, Inr (int (Suc (length (al s k)))))),
     LMoveRL = (\<lambda>k q s. if al s k = [] then (s, Inl RedisNil)
                  else let s' = (k, butlast (al s k)) # s in ((q, last (al s k) # al s' q) # s', Inr (last (al s k)))),
     LRem0 = (\<lambda>k v s. ((k, removeAll v (al s k)) # s, Inr (int (count_list (al s k) v)))),
     LLen = (\<lambda>k s. (s, Inr (int (length (al s k))))),
     SetEx = (\<lambda>k v t s. (s, Inr ())),
     Incr = (\<lambda>k s. (s, Inr 1)),
     Expire = (\<lambda>k t s. (s, Inr True)),
     Del = (\<lambda>k s. ((k, []) # s, Inr 1))\<rparr>"

definition al_scan :: "(string \<times> string list) list scan_cmd" where
  "al_scan c p n s = (s, Inr (filter (prefix ''queue:'') (map fst s), 0))"

lemma al_Cons [simp]: "al ((k, l) # s) = (al s)(k := l)"
  by (rule ext) (simp add: al_def)

lemma al_key: "k \<notin> fst ` set s \<Longrightarrow> al s k = []"
  by (simp add: al_def map_of_eq_None_iff[THEN iffD2])

lemma al_redis_ok: "lists_ok al_redis al" "no_errors al_redis" "drain_ok al_redis al_scan al"
  by (auto simp: lists_ok_def no_errors_def drain_ok_def al_redis_def al_scan_def pushed_def moved_def Let_def)

lemma al_scan_ok: "scan_contract al_scan al (\<lambda>_ _. True) (\<lambda>_. 0)"
  using al_key by (fastforce simp: scan_contract_def al_scan_def)

lemma al_finite: "finite (queues (al s))"
proof (rule finite_subset)
  show "queues (al s) \<subseteq> fst ` set s"
    using al_key by (auto simp: queues_def)
qed simp


definition demo_keys :: "(string \<times> string list) list" where
  "demo_keys = [(''queue:5:u'', [''a'', ''b'']), (''queue:1:u'', [''c'']), (''processing:w'', [''d''])]"

text \<open>\<open>dump-scheduler\<close> tells the truth about work in progress: with Postgres and Redis answering it
  ends without changing a list, has a line for every claimed or running job, and the depths it prints
  are those of exactly the non-empty queues (a queue may appear twice, as \<open>SCAN\<close> may return it twice).\<close>

lemma cmdDumpScheduler_truthful:
  assumes "lists_ok R L" "scan_contract Scan L todo pages" "drain_ok R Scan L" "calm e" "scan_ok scan"
  shows "\<exists>s' ds before. cmdDumpScheduler R Scan ustr e scan sscan (d, s) =
      Some (s', Exit0 (before @ ''REDIS QUEUE DEPTHS'' # dump_depths ds)) \<and> L s' = L s \<and>
    set ds = (\<lambda>k. (k, int (length (L s k)))) ` queues (L s) \<and>
    (\<forall>j \<in> set (jobs d). in_flight (jState j) \<longrightarrow> active_line ustr (go_now e) j \<in> set before)"
proof -
  have todo: "todo 0 k" for k using assms(2) by (simp add: scan_contract_def)
  obtain s' ds where r: "scan_depths R Scan 0 [] s = Some (s', ds)" "L s' = L s"
    "set ds \<subseteq> (\<lambda>k. (k, int (length (L s k)))) ` queues (L s)"
    "\<forall>k \<in> queues (L s). todo 0 k \<longrightarrow> (k, int (length (L s k))) \<in> set ds"
    using scan_depths_effect[OF assms(1-3), of 0 "[]" s] by auto
  define ls where "ls = or_none ''  (none)'' (map (active_line ustr (go_now e)) (active_jobs scan d))"
  have "active_line ustr (go_now e) j \<in> set ls" if "j \<in> set (jobs d)" "in_flight (jState j)" for j
    using that set_active[OF assms(5), of d] by (auto simp: ls_def or_none_def)
  moreover have "set ds = (\<lambda>k. (k, int (length (L s k)))) ` queues (L s)"
    using r(3,4) todo by blast
  moreover have "cmdDumpScheduler R Scan ustr e scan sscan (d, s) = Some (s', Exit0
      ((''JOB COUNTS'' # dump_counts d @ '''' # ''ACTIVE WORKERS'' # ls @ '''' # ''UPCOMING SCHEDULES'' #
        or_none ''  (no enabled schedules)'' (map (upcoming_line (go_now e)) (upcoming sscan d)) @ ['''']) @
       ''REDIS QUEUE DEPTHS'' # dump_depths ds))"
    using assms(4) r(1) by (simp add: cmdDumpScheduler_def calm_def ls_def)
  ultimately show ?thesis using r(2) by (intro exI conjI) (assumption+, auto)
qed

section \<open>Properties\<close>

text \<open>C26. \<open>drain\<close> does what it prints. With Redis answering, the command ends, empties every list under
  \<open>queue:\<close> and leaves every other list (the processing lists among them) as it was, and the totals it
  prints are the number of entries and of queues there were, even though \<open>SCAN\<close> may return a key several
  times. The jobs are preserved in Postgres: on a healthy system the next tick of the reconciler leaves
  in every queue exactly one entry for each pending job that is due for more than a minute and belongs
  there, and nothing else, as long as at most 500 jobs wait.\<close>

theorem drain_then_reconcile:
  assumes "lists_ok R L" "scan_contract Scan L todo pages" "drain_ok R Scan L" "finite (queues (L s))"
    and "quiet W" "no_errors R" "scan_ok scan"
    and "rows_affected (overdue (pg_now (wEnv W 0))) (jobs d) \<le> 500"
  shows "\<exists>s1. cmdDrain R Scan s = Some (s1, Exit0 (drain_report
      (\<Sum>k \<in> queues (L s). int (length (L s k))) (int (card (queues (L s)))))) \<and>
    L s1 = (\<lambda>k. if prefix ''queue:'' k then [] else L s k) \<and>
    (\<exists>s2. reconcilePending R ustr scan W (d, s1) = (d, s2) \<and>
      (\<forall>q. prefix ''queue:'' q \<longrightarrow> mset (L s2 q) = image_mset (\<lambda>j. ustr (jID j))
        (filter_mset (\<lambda>j. overdue (pg_now (wEnv W 0)) j \<and> job_key ustr j = q) (mset (jobs d)))))"
proof -
  obtain s1 where c: "cmdDrain R Scan s = Some (s1, Exit0 (drain_report
      (\<Sum>k \<in> queues (L s). int (length (L s k))) (int (card (queues (L s))))))"
    "L s1 = (\<lambda>k. if prefix ''queue:'' k then [] else L s k)"
    using cmdDrain_effect[OF assms(1-4)] by blast
  obtain d' s2 where t: "reconcilePending R ustr scan W (d, s1) = (d', s2)" by (rule prod.exhaust)
  note e = reconcile_batch[OF assms(5,1,6,7) t]
  have "mset (L s2 q) = image_mset (\<lambda>j. ustr (jID j))
      (filter_mset (\<lambda>j. overdue (pg_now (wEnv W 0)) j \<and> job_key ustr j = q) (mset (jobs d)))"
    if "prefix ''queue:'' q" for q
  proof -
    have "L s2 q = pushes ustr (poll_batch scan (overdue (pg_now (wEnv W 0))) 500 d) q"
      using e that c(2) by simp
    then show ?thesis
      using batch_mset[OF assms(7), of "overdue (pg_now (wEnv W 0))" d 500] assms(8)
      by (simp add: pushes_def conj_commute filter_filter_mset)
  qed
  with c t conjunct1[OF e] show ?thesis by (intro exI[of _ s1] exI[of _ s2] conjI) simp_all
qed

theorem drain_then_reconcile_witness:
  "let d = demo_empty\<lparr>jobs := [demo_job 1]\<rparr>; W = alone (\<lambda>_. demo_env (2 * minute));
       s1 = fst (the (cmdDrain al_redis al_scan demo_keys));
       s2 = snd (reconcilePending al_redis ref_ustr rev W (d, s1)) in
   mset (al s2 ''queue:5:u'') = {#ref_ustr 1#} \<and> al demo_keys ''queue:5:u'' = [''a'', ''b''] \<and>
   al s1 ''processing:w'' = [''d'']"
proof -
  let ?d = "demo_empty\<lparr>jobs := [demo_job 1]\<rparr>"
  let ?W = "alone (\<lambda>_. demo_env (2 * minute)) :: (string \<times> string list) list world"
  have q: "quiet ?W" by (simp add: quiet_def calm_def demo_env_def)
  have n: "rows_affected (overdue (pg_now (wEnv ?W 0))) (jobs ?d) \<le> 500" by code_simp
  have p: "prefix ''queue:'' ''queue:5:u''" "\<not> prefix ''queue:'' ''processing:w''" by code_simp+
  have j: "overdue (pg_now (wEnv ?W 0)) (demo_job 1)" "job_key ref_ustr (demo_job 1) = ''queue:5:u''"
    "jID (demo_job 1) = 1" by code_simp+
  have k: "al demo_keys ''queue:5:u'' = [''a'', ''b'']" "al demo_keys ''processing:w'' = [''d'']" by code_simp+
  obtain s1 r s2 where c: "cmdDrain al_redis al_scan demo_keys = Some (s1, r)"
    "al s1 = (\<lambda>k. if prefix ''queue:'' k then [] else al demo_keys k)"
    "reconcilePending al_redis ref_ustr rev ?W (?d, s1) = (?d, s2)"
    "\<forall>q. prefix ''queue:'' q \<longrightarrow> mset (al s2 q) = image_mset (\<lambda>j. ref_ustr (jID j))
        (filter_mset (\<lambda>j. overdue (pg_now (wEnv ?W 0)) j \<and> job_key ref_ustr j = q) (mset (jobs ?d)))"
    using drain_then_reconcile[OF al_redis_ok(1) al_scan_ok al_redis_ok(3) al_finite q al_redis_ok(2) scan_ok_rev n,
        of demo_keys ref_ustr] by blast
  have "mset (jobs ?d) = {#demo_job 1#}" by simp
  with c(4) p(1) j have "mset (al s2 ''queue:5:u'') = {#ref_ustr 1#}" by simp
  then show ?thesis unfolding Let_def c(1) option.sel fst_conv c(3) snd_conv using k p(2) c(2) by simp
qed

end
