(* ===== verification/Webhook.thy ===== *)
theory Webhook
  imports Job
begin

text \<open>
  internal/worker/worker.go, \<open>execute\<close> and \<open>executeWebhook\<close>, with \<open>WebhookPayload\<close> of internal/job/job.go:
  from the payload of a job to the HTTP request, and from the response to success or an error.

  Building and sending the request is \<open>net/http\<close> and the network: the parameter \<open>http\<close> maps a request
  to its outcome. Go iterates over a map in an order that is not specified, the parameter \<open>iter\<close>.
\<close>

record WebhookPayload =
  wpURL :: string
  wpMethod :: string
  wpHeaders :: "(string \<times> string) list"
  wpBody :: "json option"

text \<open>\<open>json.Unmarshal(j.Payload, &p)\<close>; a payload of length 0 is not JSON.\<close>

definition unmarshal_webhook :: "json option \<Rightarrow> WebhookPayload option" where
  "unmarshal_webhook payload =
     Option.bind payload (\<lambda>v.
     Option.bind (field dec_string ''url'' [] v) (\<lambda>u.
     Option.bind (field dec_string ''method'' [] v) (\<lambda>m.
     Option.bind (field dec_string_map ''headers'' [] v) (\<lambda>h.
     Option.bind (field dec_raw ''body'' None v) (\<lambda>b.
       Some \<lparr>wpURL = u, wpMethod = m, wpHeaders = h, wpBody = b\<rparr>)))))"

record http_request =
  rqMethod :: string
  rqURL :: string
  rqBody :: "json option"
  rqHeaders :: "(string \<times> string) list"

text \<open>Building the request can fail, sending it can fail, or there is a response with a status.\<close>

datatype http_outcome = Build_Err string | Do_Err string | Response int

text \<open>\<open>req.Header.Set(k, v)\<close>: one value per canonical name.\<close>

definition header_set :: "string \<Rightarrow> string \<Rightarrow> (string \<times> string) list \<Rightarrow> (string \<times> string) list" where
  "header_set k v h = put (CanonicalHeaderKey k) v h"

definition webhook_request ::
    "((string \<times> string) list \<Rightarrow> (string \<times> string) list) \<Rightarrow> WebhookPayload \<Rightarrow> http_request" where
  "webhook_request iter p =
     (let hs = fold (\<lambda>(k, v). header_set k v) (iter (wpHeaders p)) [];
          hs = (if map_of (wpHeaders p) ''Content-Type'' = None \<and> wpBody p \<noteq> None
                then header_set ''Content-Type'' ''application/json'' hs else hs)
      in \<lparr>rqMethod = (if wpMethod p = [] then ''POST'' else wpMethod p), rqURL = wpURL p,
          rqBody = wpBody p, rqHeaders = hs\<rparr>)"

text \<open>The error of an execution, if it failed.\<close>

definition executeWebhook ::
    "((string \<times> string) list \<Rightarrow> (string \<times> string) list) \<Rightarrow> (http_request \<Rightarrow> http_outcome) \<Rightarrow> job \<Rightarrow> string option" where
  "executeWebhook iter http j =
     (case unmarshal_webhook (jPayload j) of
        None \<Rightarrow> Some ''invalid webhook payload''
      | Some p \<Rightarrow>
          (case http (webhook_request iter p) of
             Build_Err m \<Rightarrow> Some (''build request: '' @ m)
           | Do_Err m \<Rightarrow> Some (''webhook request: '' @ m)
           | Response code \<Rightarrow>
               if 400 \<le> code then Some (''webhook returned '' @ int_str code) else None))"

definition execute ::
    "((string \<times> string) list \<Rightarrow> (string \<times> string) list) \<Rightarrow> (http_request \<Rightarrow> http_outcome) \<Rightarrow> job \<Rightarrow> string option" where
  "execute iter http j =
     (if jType j = ''webhook'' then executeWebhook iter http j
      else Some (''unknown job type: '' @ jType j))"

section \<open>Lemmas\<close>

lemma lookup_header_set: "map_of (header_set k v h) = (map_of h)(CanonicalHeaderKey k \<mapsto> v)"
  by (simp add: header_set_def map_of_put)

lemma fold_header_set_other:
  assumes "\<forall>(k, v) \<in> set ms. CanonicalHeaderKey k \<noteq> n"
  shows "map_of (fold (\<lambda>(k, v). header_set k v) ms h) n = map_of h n"
  using assms by (induction ms arbitrary: h) (auto simp: lookup_header_set)

lemma fold_header_set_unique:
  assumes "(k, v) \<in> set ms" "\<forall>(k', v') \<in> set ms. CanonicalHeaderKey k' = CanonicalHeaderKey k \<longrightarrow> v' = v"
  shows "map_of (fold (\<lambda>(k, v). header_set k v) ms h) (CanonicalHeaderKey k) = Some v"
proof -
  obtain as bs where ms: "ms = as @ (k, v) # bs" using split_list[OF assms(1)] by blast
  have keep: "map_of (fold (\<lambda>(k, v). header_set k v) bs g) (CanonicalHeaderKey k) = Some v"
    if "map_of g (CanonicalHeaderKey k) = Some v" "set bs \<subseteq> set ms" for g bs
    using that
  proof (induction bs arbitrary: g)
    case (Cons b bs)
    then show ?case using assms(2) by (cases b) (auto simp: lookup_header_set)
  qed simp
  show ?thesis unfolding ms fold_append fold.simps comp_def prod.case
    by (rule keep) (auto simp: lookup_header_set ms)
qed

section \<open>Properties\<close>

text \<open>What counts as success of a webhook: the job has type \<open>webhook\<close>, its payload decodes, and the
  request it describes (its URL and body, its method or POST) got a response below 400. Every
  other course is an error with a message.\<close>

lemma execute_success_iff:
  "execute iter http j = None \<longleftrightarrow>
     jType j = ''webhook'' \<and> (\<exists>p code. unmarshal_webhook (jPayload j) = Some p \<and>
       http (webhook_request iter p) = Response code \<and> code < 400 \<and>
       rqURL (webhook_request iter p) = wpURL p \<and> rqBody (webhook_request iter p) = wpBody p \<and>
       rqMethod (webhook_request iter p) = (if wpMethod p = [] then ''POST'' else wpMethod p))"
proof -
  have rq: "rqURL (webhook_request iter p) = wpURL p" "rqBody (webhook_request iter p) = wpBody p"
    "rqMethod (webhook_request iter p) = (if wpMethod p = [] then ''POST'' else wpMethod p)" for p
    by (simp_all add: webhook_request_def Let_def)
  show ?thesis
    unfolding execute_def executeWebhook_def rq
    by (cases "unmarshal_webhook (jPayload j)")
      (auto split: http_outcome.split)
qed

text \<open>Headers of a webhook: every header of the payload is sent with its value, whatever order Go
  iterates in, provided that no two of its names are the same up to case; except that with a body, a
  content type the payload spells in another case than \<open>Content-Type\<close> is replaced by
  \<open>application/json\<close>, because the code looks the name up as written but sets it in canonical form.\<close>

lemma webhook_headers:
  assumes "scan_ok iter" "(k, v) \<in> set (wpHeaders p)"
    and "\<forall>(k', v') \<in> set (wpHeaders p). CanonicalHeaderKey k' = CanonicalHeaderKey k \<longrightarrow> k' = k \<and> v' = v"
  shows "map_of (rqHeaders (webhook_request iter p)) (CanonicalHeaderKey k) =
    (if CanonicalHeaderKey k = ''Content-Type'' \<and> k \<noteq> ''Content-Type'' \<and> wpBody p \<noteq> None
     then Some ''application/json'' else Some v)"
proof -
  have ct: "CanonicalHeaderKey ''Content-Type'' = ''Content-Type''" by code_simp
  have base: "map_of (fold (\<lambda>(k, v). header_set k v) (iter (wpHeaders p)) []) (CanonicalHeaderKey k) = Some v"
    using assms by (intro fold_header_set_unique) (auto simp: set_scan)
  show ?thesis
  proof (cases "CanonicalHeaderKey k = ''Content-Type''")
    case True
    have "map_of (wpHeaders p) ''Content-Type'' = None \<longleftrightarrow> k \<noteq> ''Content-Type''"
      using assms(2,3) ct True by (fastforce simp: map_of_eq_None_iff image_iff)
    then show ?thesis using base True ct by (simp add: webhook_request_def Let_def lookup_header_set)
  next
    case False
    then show ?thesis using base ct by (simp add: webhook_request_def Let_def lookup_header_set)
  qed
qed

end
