(* ===== verification/Metrics.thy ===== *)
theory Metrics
  imports Job "HOL-Library.Sublist"
begin

text \<open>
  internal/metrics/metrics.go: the Prometheus collectors as the observations the program makes, with their labels.
  The program only writes them; what a collector shows is computed from the observations since the start of
  the process. The value of a duration is left out, it is a floating-point number of the monotonic clock.
\<close>

section \<open>Observations\<close>

text \<open>
  \<open>JobsTotal\<close> and \<open>JobDurationSeconds\<close>: type, state, tenant. \<open>JobRetriesTotal\<close>: type, tenant. \<open>WorkerInFlight\<close>: \<open>Inc\<close> and \<open>Dec\<close> as
  1 and -1. The collectors \<open>QueueDepth\<close> and \<open>HTTPRequestDuration\<close> are declared, but nothing writes them, and
  \<open>SchedulerIsLeader\<close> is a field of the scheduler in the theory \<open>Leader\<close>.
\<close>

datatype metric =
    JobsTotal string string uuid
  | JobRetriesTotal string uuid
  | JobDurationSeconds string string uuid
  | WorkerInFlight int

text \<open>What a counter shows, and the gauge of the jobs in flight.\<close>

definition shown :: "metric \<Rightarrow> metric list \<Rightarrow> nat" where
  "shown m ms = count_list ms m"

fun in_flight_gauge :: "metric list \<Rightarrow> int" where
  "in_flight_gauge [] = 0"
| "in_flight_gauge (WorkerInFlight n # ms) = n + in_flight_gauge ms"
| "in_flight_gauge (m # ms) = in_flight_gauge ms"

text \<open>What \<open>process\<close> reports of a job it executed: in flight up and down, and the result.\<close>

definition job_report :: "string \<Rightarrow> string \<Rightarrow> uuid \<Rightarrow> metric list" where
  "job_report ty st tn = [WorkerInFlight 1, WorkerInFlight (- 1)] @
     (if st = ''failed'' then [JobRetriesTotal ty tn] else []) @ [JobsTotal ty st tn, JobDurationSeconds ty st tn]"

section \<open>Reports add up\<close>

definition reports :: "(string \<times> string \<times> uuid) list \<Rightarrow> metric list" where
  "reports rs = concat (map (\<lambda>(ty, st, tn). job_report ty st tn) rs)"

lemma reports_simps [simp]:
  "reports [] = []" "reports ((ty, st, tn) # rs) = job_report ty st tn @ reports rs"
  by (simp_all add: reports_def)

lemma gauge_append [simp]: "in_flight_gauge (ms @ ms') = in_flight_gauge ms + in_flight_gauge ms'"
  by (induction ms rule: in_flight_gauge.induct) simp_all

lemma shown_reports:
  "shown (JobsTotal ty st tn) (reports rs) = count_list rs (ty, st, tn)"
  "shown (JobDurationSeconds ty st tn) (reports rs) = count_list rs (ty, st, tn)"
  "shown (JobRetriesTotal ty tn) (reports rs) = count_list rs (ty, ''failed'', tn)"
  by (induction rs) (auto simp: job_report_def shown_def split: if_splits)

lemma gauge_report [simp]: "in_flight_gauge (job_report ty st tn) = 0"
  by (simp add: job_report_def)

lemma gauge_reports: "in_flight_gauge (reports rs) = 0"
  by (induction rs) auto

text \<open>The gauge is 0 or 1 at every moment.\<close>

lemma reports_gauge: "reports rs = ms @ ms' \<Longrightarrow> in_flight_gauge ms \<in> {0, 1}"
proof (induction rs arbitrary: ms)
  case (Cons r rs)
  obtain ty st tn where r: "r = (ty, st, tn)" by (cases r)
  then consider us where "job_report ty st tn = ms @ us" | us where "ms = job_report ty st tn @ us" "reports rs = us @ ms'"
    using Cons.prems by (auto simp: append_eq_append_conv2)
  then show ?case
  proof cases
    case 1
    have "prefix ms (job_report ty st tn)" using 1 by simp
    then show ?thesis by (auto simp: job_report_def prefix_Cons prefix_append split: if_splits)
  next
    case 2
    then show ?thesis using Cons.IH[of us] by simp
  qed
qed simp

end
