(* ===== verification/Claims.thy ===== *)
theory Claims
  imports Lifecycle
begin

text \<open>
  Ownership of a job: the claim token in its row is a lock. The storage operations implement the
  interface \<open>claim_lock\<close>; from it follow mutual exclusion of workers over whole histories, the
  fencing of late writers, the bound on how often a job is started, and that a succeeded job
  never changes again.
\<close>

section \<open>The claim token as a lock\<close>

definition token_of :: "db \<Rightarrow> uuid \<Rightarrow> uuid option" where
  "token_of d i = Option.bind (lookup jID i (jobs d)) jClaimToken"

text \<open>The operations that take the lock on job \<open>i\<close>, and those that can take it away.\<close>

fun claim_succeeds :: "db \<Rightarrow> op \<Rightarrow> uuid \<Rightarrow> bool" where
  "claim_succeeds d (Op_TryClaim e r k w t dl) i =
     (k = i \<and> snd (TryClaim e r k w t dl d) = Inr (True, r))"
| "claim_succeeds d _ i = False"

fun claim_releases :: "db \<Rightarrow> op \<Rightarrow> uuid \<Rightarrow> bool" where
  "claim_releases d (Op_CompleteJob e k r t) i = (k = i \<and> token_of d i = Some t)"
| "claim_releases d (Op_FailJob e k r t m n) i = (k = i \<and> token_of d i = Some t)"
| "claim_releases d (Op_RequeueStaleJob e k) i =
     (k = i \<and> (\<exists>j \<in> set (jobs d). jID j = i \<and> expired (pg_now e) j))"
| "claim_releases d (Op_CliForceFail e k) i = (k = i)"
| "claim_releases d _ i = False"

lemma db_inv_unique: "db_inv d \<Longrightarrow> unique_key jID (jobs d)"
  by (simp add: db_inv_def)

lemma db_inv_wf: "db_inv d \<Longrightarrow> lookup jID i (jobs d) = Some j \<Longrightarrow> job_wf j \<and> jID j = i"
  by (auto simp: db_inv_def dest: jt.lookup_SomeD)

lemma token_ofE:
  assumes "db_inv d" "token_of d i = Some t"
  obtains j where "lookup jID i (jobs d) = Some j" "jClaimToken j = Some t" "in_flight (jState j)" "jID j = i"
  using assms db_inv_wf[OF assms(1)] by (fastforce simp: token_of_def job_wf_def bind_eq_Some_conv)

lemma token_kept_update:
  assumes "jobs d' = jobs d \<or> jobs d' = sql_update p f (jobs d)" "\<And>r. jID (f r) = jID r"
    and "\<And>j. lookup jID i (jobs d) = Some j \<Longrightarrow> p j \<Longrightarrow> jClaimToken (f j) = jClaimToken j"
  shows "token_of d' i = token_of d i"
  using assms(1)
proof
  assume "jobs d' = sql_update p f (jobs d)"
  then show ?thesis
    using assms(3) by (auto simp: token_of_def jt.lookup_update[OF assms(2)] split: bind_split)
qed (simp add: token_of_def)

lemma TryClaim_True:
  assumes "snd (TryClaim e r i w t dl d) = Inr (True, r')"
  shows "r' = r \<and> (\<exists>j \<in> set (jobs d). jID j = i \<and> jState j = StatePending) \<and> \<not> locked e \<and>
    fst (TryClaim e r i w t dl d) = claimed_db (go_now e) r i w t dl d"
  using assms unfolding TryClaim_def
  by (auto simp: in_tx_def autocommit_def split: option.splits if_splits)

lemma claim_acquires_free:
  assumes "db_inv d" "claim_succeeds d x i"
  shows "token_of d i = None"
proof -
  obtain e r w t dl where x: "x = Op_TryClaim e r i w t dl" "snd (TryClaim e r i w t dl d) = Inr (True, r)"
    using assms(2) by (cases x) auto
  obtain j where j: "j \<in> set (jobs d)" "jID j = i" "jState j = StatePending"
    using TryClaim_True[OF x(2)] by blast
  then have "lookup jID i (jobs d) = Some j"
    using jt.lookup_unique[OF db_inv_unique[OF assms(1)] j(1)] by simp
  moreover have "jClaimToken j = None"
    using assms(1) j by (auto simp: db_inv_def job_wf_def in_flight_def)
  ultimately show ?thesis by (simp add: token_of_def)
qed

lemma TryClaim_keeps:
  assumes "db_inv d" "token_of d i = Some t"
  shows "token_of (fst (TryClaim e r k w t' dl d)) i = Some t"
proof (cases rule: TryClaim_cases[of e r k w t' dl d])
  case (claimed j)
  obtain j' where j': "lookup jID i (jobs d) = Some j'" "in_flight (jState j')" "jID j' = i"
    using token_ofE[OF assms] by blast
  have "j' \<in> set (jobs d)" using j' by (blast dest: jt.lookup_SomeD)
  then have "i \<noteq> k"
    using same_row[OF db_inv_unique[OF assms(1)], of j' j] claimed j' by (auto simp: in_flight_def)
  then have "token_of (fst (TryClaim e r k w t' dl d)) i = token_of d i"
    unfolding claimed(5) claimed_db_def Let_def
    by - (rule token_kept_update[OF disjI2], simp, auto dest: jt.lookup_SomeD)
  then show ?thesis using assms(2) by simp
qed (simp add: assms)

lemma FailJob_keeps:
  assumes "db_inv d" "\<not> (k = i \<and> token_of d i = Some t)"
  shows "token_of (fst (FailJob e k r t m n d)) i = token_of d i"
proof (cases rule: FailJob_cases[of e k r t m n d])
  case (failed cur st rs)
  have "i \<noteq> k"
    using assms(2) failed(1,2) jt.lookup_unique[OF db_inv_unique[OF assms(1)] failed(1)]
    by (auto simp: owns_def token_of_def)
  then show ?thesis
    unfolding failed(4) by - (rule token_kept_update[OF disjI2], simp, auto dest: jt.lookup_SomeD)
qed simp

lemma CompleteJob_keeps:
  assumes "\<not> (k = i \<and> token_of d i = Some t)"
  shows "token_of (fst (CompleteJob e k r t d)) i = token_of d i"
proof (cases rule: CompleteJob_cases[of e k r t d])
  case (completed rs)
  show ?thesis
    using assms unfolding completed(1)
    by - (rule token_kept_update[OF disjI2], simp, auto simp: owns_def token_of_def dest: jt.lookup_SomeD)
qed simp

lemma RequeueStaleJob_keeps:
  assumes "\<not> (k = i \<and> (\<exists>j \<in> set (jobs d). jID j = i \<and> expired (pg_now e) j))"
  shows "token_of (fst (RequeueStaleJob e k d)) i = token_of d i"
proof (cases rule: RequeueStaleJob_cases[of e k d])
  case (reaped rs)
  show ?thesis
    using assms unfolding reaped(1)
    by - (rule token_kept_update[OF disjI2], simp, auto dest: jt.lookup_SomeD)
qed simp

lemma token_either:
  "x \<in> {d, d\<lparr>jobs := sql_update p f (jobs d)\<rparr>} \<Longrightarrow> (\<And>r. jID (f r) = jID r) \<Longrightarrow>
    (\<And>j. lookup jID i (jobs d) = Some j \<Longrightarrow> p j \<Longrightarrow> jClaimToken (f j) = jClaimToken j) \<Longrightarrow>
    token_of x i = token_of d i"
  using token_kept_update[of x d p f i] by auto

lemma quiet_keeps:
  assumes "db_inv d" "token_of d i = Some t"
  shows "token_of (fst (MarkRunning e k t' d)) i = token_of d i"
    "token_of (fst (ExtendDeadline e k t' dl d)) i = token_of d i"
    "token_of (fst (ReplayJob e e' k tn d)) i = token_of d i"
    "token_of (fst (PromoteScheduledToPending e k d)) i = token_of d i"
    "token_of (fst (PromoteFailedToPending e k d)) i = token_of d i"
    "token_of (fst (cli_reset e k d)) i = token_of d i"
    "k \<noteq> i \<Longrightarrow> token_of (fst (cli_force_fail e k d)) i = token_of d i"
proof -
  obtain j where j: "lookup jID i (jobs d) = Some j" "in_flight (jState j)" "jID j = i"
    using token_ofE[OF assms] by blast
  show "token_of (fst (MarkRunning e k t' d)) i = token_of d i"
    by (rule token_either[OF cases_1(1)]) auto
  show "token_of (fst (ExtendDeadline e k t' dl d)) i = token_of d i"
    by (rule token_either[OF cases_1(2)]) auto
  show "token_of (fst (ReplayJob e e' k tn d)) i = token_of d i"
    by (rule token_either[OF cases_1(3)]) (use j in \<open>auto simp: in_flight_def\<close>)
  show "token_of (fst (PromoteScheduledToPending e k d)) i = token_of d i"
    by (rule token_either[OF cases_1(4)]) auto
  show "token_of (fst (PromoteFailedToPending e k d)) i = token_of d i"
    by (rule token_either[OF cases_1(5)]) auto
  show "token_of (fst (cli_reset e k d)) i = token_of d i"
    by (rule token_either[OF cases_1(6)]) (use j in \<open>auto simp: in_flight_def\<close>)
  show "token_of (fst (cli_force_fail e k d)) i = token_of d i" if "k \<noteq> i"
    by (rule token_either[OF cases_1(7)]) (use j that in auto)
qed

lemma InsertJob_lookup:
  "lookup jID i (jobs d) = Some j \<Longrightarrow> lookup jID i (jobs (fst (InsertJob e k d))) = Some j"
  using cases_insert[of e k d] by (cases "fst (InsertJob e k d) = d") (auto simp: jt.lookup_append)

lemma CancelJob_lookup:
  assumes "db_inv d" "lookup jID i (jobs d) = Some j"
    and "jState j \<noteq> StatePending" "jState j \<noteq> StateScheduled"
  shows "lookup jID i (jobs (fst (CancelJob e k tn d))) = Some j"
  using cases_cancel[of e k tn d] assms(2-4)
  by (auto simp: jt.lookup_delete[OF db_inv_unique[OF assms(1)]])

lemma claim_owner_kept:
  assumes "db_inv d" "token_of d i = Some t" "\<not> claim_releases d x i"
  shows "token_of (apply_op x d) i = Some t"
proof -
  obtain j where j: "lookup jID i (jobs d) = Some j" "jClaimToken j = Some t" "in_flight (jState j)"
    using token_ofE[OF assms(1,2)] by blast
  show ?thesis
  proof (cases x)
    case (Op_InsertJob e k)
    then show ?thesis using InsertJob_lookup[OF j(1)] j by (simp add: token_of_def)
  next
    case (Op_CancelJob e k tn)
    then show ?thesis
      using CancelJob_lookup[OF assms(1) j(1)] j by (auto simp: token_of_def in_flight_def)
  next
    case (Op_CompleteJob e k r t')
    then show ?thesis using assms CompleteJob_keeps[of k i d t'] by auto
  next
    case (Op_FailJob e k r t' m n)
    then show ?thesis using assms FailJob_keeps[OF assms(1), of k i t'] by auto
  next
    case (Op_RequeueStaleJob e k)
    then show ?thesis using assms RequeueStaleJob_keeps[of k i d e] by simp
  next
    case (Op_MoveToDeadLetter e k)
    then show ?thesis using assms(2) by (simp add: token_of_def cases_dead_letter)
  qed (use assms in \<open>simp_all add: TryClaim_keeps quiet_keeps\<close>)
qed

interpretation lock: claim_lock db_init op_ok apply_op db_inv token_of claim_succeeds claim_releases
  by unfold_locales (simp_all add: claim_acquires_free claim_owner_kept)

lemma claim_sets_owner:
  assumes "db_inv d" "snd (TryClaim e r i w t dl d) = Inr (True, r)"
  shows "token_of (fst (TryClaim e r i w t dl d)) i = Some t"
proof -
  obtain j where j: "j \<in> set (jobs d)" "jID j = i"
    and eq: "fst (TryClaim e r i w t dl d) = claimed_db (go_now e) r i w t dl d"
    using TryClaim_True[OF assms(2)] by blast
  have "lookup jID i (jobs d) = Some j"
    using jt.lookup_unique[OF db_inv_unique[OF assms(1)] j(1)] j(2) by simp
  then show ?thesis
    using j by (simp add: eq token_of_def claimed_db_def jt.lookup_update claim_row_def)
qed

section \<open>How often a job is started\<close>

text \<open>
  Every start of a job opens a row of \<open>job_runs\<close>. Without replays, the rows of a job are bounded
  by what its row says of its attempts.
\<close>

definition runs_of :: "db \<Rightarrow> uuid \<Rightarrow> nat" where
  "runs_of d i = length (filter (\<lambda>r. rJobID r = i) (job_runs d))"

definition starts_bound :: "job \<Rightarrow> int" where
  "starts_bound j =
     (if jState j = StateDead then max 1 (jMaxRetries j)
      else if in_flight (jState j) \<or> jState j = StateSucceeded then jAttempt j + 1
      else jAttempt j)"

definition starts_inv :: "db \<Rightarrow> bool" where
  "starts_inv d \<longleftrightarrow> db_inv d \<and> (\<forall>j \<in> set (jobs d). int (runs_of d (jID j)) \<le> starts_bound j)"

definition op_ok_no_replay :: "db \<Rightarrow> op \<Rightarrow> bool" where
  "op_ok_no_replay d x \<longleftrightarrow> op_ok d x \<and> \<not> is_replay x"

lemma starts_bound_limit: "job_wf j \<Longrightarrow> starts_bound j \<le> max 1 (jMaxRetries j)"
  by (auto simp: starts_bound_def job_wf_def)

lemma job_step_bound: "job_step {} False j j' \<Longrightarrow> job_wf j \<Longrightarrow> starts_bound j \<le> starts_bound j'"
  by (induction rule: job_step.induct)
    (auto simp: starts_bound_def job_wf_def in_flight_def row_defs can_force_fail_def)

lemma claim_row_bound: "jState j = StatePending \<Longrightarrow> starts_bound (claim_row now w t dl j) = starts_bound j + 1"
  by (simp add: starts_bound_def claim_row_def in_flight_def)

lemma runs_of_map:
  assumes "map rJobID (job_runs d') = map rJobID (job_runs d)"
  shows "runs_of d' i = runs_of d i"
proof -
  have *: "runs_of d i = length (filter (\<lambda>k. k = i) (map rJobID (job_runs d)))" for d
    by (simp add: runs_of_def filter_map comp_def)
  show ?thesis unfolding * assms ..
qed

lemma starts_inv_claim:
  assumes "starts_inv d"
  shows "\<forall>j \<in> set (jobs (fst (TryClaim e r i w t dl d))).
    int (runs_of (fst (TryClaim e r i w t dl d)) (jID j)) \<le> starts_bound j"
proof -
  have "unique_key jID (jobs d)" using assms by (simp add: starts_inv_def db_inv_def)
  then show ?thesis
  proof (cases rule: runs_claim[where e = e and r = r and i = i and w = w and t = t and dl = dl])
    case none
    then show ?thesis using assms by (simp add: starts_inv_def)
  next
    case (one j)
    let ?d' = "fst (TryClaim e r i w t dl d)"
    have runs: "runs_of ?d' k = runs_of d k + (if k = i then 1 else 0)" for k
      using one by (simp add: runs_of_def new_run_def)
    have "int (runs_of ?d' (jID x)) \<le> starts_bound x" if "x \<in> set (jobs ?d')" for x
    proof -
      from that consider "x \<in> set (jobs d)" "jID x \<noteq> i"
        | "x = claim_row (go_now e) w t dl j"
        using same_row[OF \<open>unique_key jID (jobs d)\<close> _ one(1)] one(2) by (auto simp: one(5) set_sql_update)
      then show ?thesis
        using assms one(1-3) by cases (auto simp: runs starts_inv_def claim_row_bound)
    qed
    then show ?thesis by blast
  qed
qed

lemma starts_inv_step:
  assumes "starts_inv d" "op_ok_no_replay d x"
  shows "starts_inv (apply_op x d)"
proof -
  have inv: "db_inv d" "op_ok d x" "\<not> is_replay x"
    using assms by (auto simp: starts_inv_def op_ok_no_replay_def)
  have bound: "int (runs_of d (jID j)) \<le> starts_bound j" if "j \<in> set (jobs d)" for j
    using assms(1) that by (simp add: starts_inv_def)
  have "\<forall>j \<in> set (jobs (apply_op x d)). int (runs_of (apply_op x d) (jID j)) \<le> starts_bound j"
  proof (cases "is_claim x")
    case True
    then show ?thesis using starts_inv_claim[OF assms(1)] by (cases x) auto
  next
    case False
    then have runs: "runs_of (apply_op x d) i = runs_of d i" for i
      using runs_other[of x d] by (intro runs_of_map) simp
    show ?thesis
    proof (cases "is_insert x \<or> is_cancel x")
      case True
      then show ?thesis
      proof (cases x)
        case (Op_InsertJob e j)
        have "int (runs_of d (jID j)) \<le> starts_bound (inserted_row j)"
          using inv(2) Op_InsertJob
          by (auto simp: runs_of_def starts_bound_def inserted_row_def in_flight_def filter_empty_conv
              intro: rev_image_eqI)
        then show ?thesis
          using cases_insert[of e j d] bound Op_InsertJob
          by (cases "fst (InsertJob e j d) = d") (auto simp: runs runs_of_def inserted_row_def)
      next
        case (Op_CancelJob e i tn)
        then show ?thesis
          using cases_cancel[of e i tn d] bound by (auto simp: runs_of_def sql_delete_def)
      qed auto
    next
      case other: False
      have "op_tokens x = {}" using False by (cases x) auto
      then have "rows_step {} False (op_job x) (jobs d) (jobs (apply_op x d))"
        using apply_op_rows[of d x] inv other by (simp add: db_inv_unique)
      then have "\<exists>r \<in> set (jobs d). jID r = jID j \<and> starts_bound r \<le> starts_bound j"
        if "j \<in> set (jobs (apply_op x d))" for j
        using rows_step_in[OF _ that] inv(1) job_step_bound job_step_frame by (metis db_inv_def order_refl)
      then show ?thesis using bound runs by (metis order_trans)
    qed
  qed
  then show ?thesis using db_inv_step[OF inv(1,2)] by (simp add: starts_inv_def)
qed

interpretation sb: invariant_of db_init op_ok_no_replay apply_op starts_inv
  by unfold_locales (simp add: starts_inv_def db_inv_init, simp add: db_init_def, rule starts_inv_step)

section \<open>Rows that are final\<close>

lemma succeeded_step:
  assumes "db_inv d" "lookup jID i (jobs d) = Some j" "jState j = StateSucceeded"
  shows "lookup jID i (jobs (apply_op x d)) = Some j"
proof (cases "is_insert x \<or> is_cancel x")
  case True
  then show ?thesis
    using InsertJob_lookup[OF assms(2)] CancelJob_lookup[OF assms(1,2)] assms(3) by (cases x) auto
next
  case False
  then show ?thesis
    using rows_step_lookup[OF apply_op_rows[OF db_inv_unique[OF assms(1)]] assms(2)]
      job_step_terminal(1) assms(3) by blast
qed

lemma succeeded_run:
  assumes "db_inv d" "run_ok op_ok apply_op xs d" "lookup jID i (jobs d) = Some j" "jState j = StateSucceeded"
  shows "lookup jID i (jobs (run apply_op xs d)) = Some j"
  using assms
proof (induction xs arbitrary: d)
  case (Cons x xs)
  then show ?case
    using Cons.IH[of "apply_op x d"] succeeded_step[of d i j x] db_inv_step[of d x] by simp
qed simp

lemma stale_owns:
  assumes "unique_key jID (jobs d)" "token_of d i \<noteq> Some t" "j \<in> set (jobs d)"
  shows "\<not> owns i t j"
  using jt.lookup_unique[OF assms(1,3)] assms(2) by (auto simp: owns_def token_of_def)

section \<open>A small history\<close>

definition demo_insert :: op where
  "demo_insert = Op_InsertJob (demo_env 0) (demo_job 7)"

definition demo_claim :: "uuid \<Rightarrow> uuid \<Rightarrow> time \<Rightarrow> op" where
  "demo_claim r t now = Op_TryClaim (demo_env now) r 7 ''w'' t (now + 60)"

definition demo_reap :: op where
  "demo_reap = Op_RequeueStaleJob (demo_env 100) 7"

lemmas demo_defs = demo_env_def demo_job_def demo_empty_def demo_insert_def demo_claim_def demo_reap_def

lemma demo_init: "db_init demo_empty"
  by (simp add: db_init_def demo_empty_def)

lemma demo_reach: "run_ok op_ok apply_op xs demo_empty \<Longrightarrow> reach db_init op_ok apply_op (run apply_op xs demo_empty)"
  by (rule reach_run[OF reach_init[where init = db_init, OF demo_init]])

section \<open>Rows that stay\<close>

definition same_work :: "job \<Rightarrow> job \<Rightarrow> bool" where
  "same_work j j' \<longleftrightarrow> jTenantID j' = jTenantID j \<and> jType j' = jType j \<and> jPayload j' = jPayload j \<and>
     jPriority j' = jPriority j \<and> jMaxRetries j' = jMaxRetries j \<and> jBackoffSeconds j' = jBackoffSeconds j \<and>
     jIdempotencyKey j' = jIdempotencyKey j \<and> jCreatedAt j' = jCreatedAt j"

lemma op_keeps_job:
  assumes "db_inv d" "lookup jID i (jobs d) = Some j" "\<forall>e tn. x \<noteq> Op_CancelJob e i tn"
  shows "\<exists>j'. lookup jID i (jobs (apply_op x d)) = Some j' \<and> same_work j j'"
proof (cases "is_insert x \<or> is_cancel x")
  case False
  then show ?thesis
    using rows_step_lookup[OF apply_op_rows assms(2)] db_inv_unique[OF assms(1)]
    by (fastforce simp: same_work_def dest: job_step_frame)
next
  case True
  then show ?thesis
  proof (cases x)
    case (Op_InsertJob e n)
    then show ?thesis
      using assms(2) cases_insert[of e n d]
      by (cases "fst (InsertJob e n d) = d") (auto simp: jt.lookup_append same_work_def)
  next
    case (Op_CancelJob e k tn)
    then have "k \<noteq> i" using assms(3) by blast
    then show ?thesis
      using Op_CancelJob assms(2) cases_cancel[of e k tn d] jt.lookup_SomeD[OF assms(2)]
      by (auto simp: jt.lookup_delete[OF db_inv_unique[OF assms(1)]] same_work_def)
  qed auto
qed

section \<open>Properties\<close>

text \<open>C2. In every state that the storage operations can reach from empty tables, with any faults
  of the server, the database is consistent: ids are unique, a job has a claim token and a
  deadline exactly while it is claimed or running, \<open>completed_at\<close> is set exactly when it
  succeeded, dead jobs carry an error, attempts stay within the retry limit, idempotency keys are
  unique within a tenant and no token is held by two jobs.\<close>

theorem reachable_consistent: "reach db_init op_ok apply_op d \<Longrightarrow> db_inv d"
  by (rule lc.reach_inv)

theorem reachable_consistent_witness:
  "reach db_init op_ok apply_op (run apply_op [demo_insert, demo_claim 3 4 10] demo_empty) \<and>
   db_inv (run apply_op [demo_insert, demo_claim 3 4 10] demo_empty)"
proof -
  have "run_ok op_ok apply_op [demo_insert, demo_claim 3 4 10] demo_empty" by code_simp
  then show ?thesis using reachable_consistent demo_reach by blast
qed

text \<open>C1. Mutual exclusion: between two successful claims of the same job, whatever operations run
  in between and whatever faults they meet, the first claim was given up: its holder completed
  or failed the job, the reaper found its deadline passed, or an operator force-failed it.\<close>

theorem claim_exclusive:
  assumes "reach db_init op_ok apply_op d"
    and "run_ok op_ok apply_op (Op_TryClaim e r i w t dl # xs) d"
    and "claim_succeeds d (Op_TryClaim e r i w t dl) i"
    and "claim_succeeds (run apply_op (Op_TryClaim e r i w t dl # xs) d) y i"
  shows "\<exists>ys z zs. xs = ys @ z # zs \<and>
    claim_releases (run apply_op (Op_TryClaim e r i w t dl # ys) d) z i"
proof -
  let ?d = "apply_op (Op_TryClaim e r i w t dl) d"
  have "db_inv d" using assms(1) by (rule lc.reach_inv)
  then have "db_inv ?d" "token_of ?d i = Some t"
    using db_inv_step[of d "Op_TryClaim e r i w t dl"] assms(2) claim_sets_owner[of d e r i w t dl] assms(3)
    by auto
  then show ?thesis using lock.exclusive[of ?d xs i t y] assms(2,4) by simp
qed

theorem claim_exclusive_witness:
  "let d = run apply_op [demo_insert] demo_empty; e = demo_env 10 in
   claim_succeeds d (Op_TryClaim e 3 7 ''w'' 4 70) 7 \<and>
   claim_succeeds (run apply_op [Op_TryClaim e 3 7 ''w'' 4 70, demo_reap] d) (demo_claim 5 6 200) 7 \<and>
   (\<exists>ys z zs. [demo_reap] = ys @ z # zs \<and>
      claim_releases (run apply_op (Op_TryClaim e 3 7 ''w'' 4 70 # ys) d) z 7)"
proof -
  let ?d = "run apply_op [demo_insert] demo_empty" and ?e = "demo_env 10"
  have r: "reach db_init op_ok apply_op ?d" by (rule demo_reach) code_simp
  have ok: "run_ok op_ok apply_op [Op_TryClaim ?e 3 7 ''w'' 4 70, demo_reap] ?d" by code_simp
  have c: "claim_succeeds ?d (Op_TryClaim ?e 3 7 ''w'' 4 70) 7" by code_simp
  have c': "claim_succeeds (run apply_op [Op_TryClaim ?e 3 7 ''w'' 4 70, demo_reap] ?d) (demo_claim 5 6 200) 7"
    by code_simp
  show ?thesis unfolding Let_def by (intro conjI c c' claim_exclusive[OF r ok c c'])
qed

text \<open>C4. Fencing: a worker whose token is no longer the job's token changes nothing. Its
  mark-running, heartbeat, completion and failure calls all leave the database as it is,
  whatever faults occur.\<close>

theorem stale_token_fenced:
  assumes "unique_key jID (jobs d)" "token_of d i \<noteq> Some t"
  shows "fst (MarkRunning e i t d) = d \<and> fst (ExtendDeadline e i t dl d) = d \<and>
    fst (CompleteJob e i r t d) = d \<and> fst (FailJob e i r t m n d) = d"
proof -
  have no: "\<forall>j \<in> set (jobs d). \<not> owns i t j" using stale_owns[OF assms] by blast
  have "\<forall>j \<in> set (jobs d). \<not> (jID j = i \<and> jClaimToken j = Some t \<and> jState j = StateClaimed)"
    using no by (auto simp: owns_def in_flight_def)
  then have "fst (MarkRunning e i t d) = d" "fst (ExtendDeadline e i t dl d) = d"
    using cases_1(1)[of e i t d] cases_1(2)[of e i t dl d] no by (auto simp: sql_update_noop)
  moreover have "fst (CompleteJob e i r t d) = d"
    using no by (simp add: CompleteJob_def Let_def sql_update_noop rows_affected_0 split: option.split)
  moreover have "fst (FailJob e i r t m n d) = d"
    by (cases rule: FailJob_cases[of e i r t m n d]) (use no in auto)
  ultimately show ?thesis by blast
qed

theorem stale_token_fenced_witness:
  "let d = run apply_op [demo_insert, demo_claim 3 4 10, demo_reap, demo_claim 5 6 200] demo_empty in
   token_of d 7 = Some 6 \<and> fst (CompleteJob (demo_env 210) 7 3 4 d) = d"
proof -
  let ?d = "run apply_op [demo_insert, demo_claim 3 4 10, demo_reap, demo_claim 5 6 200] demo_empty"
  have t: "token_of ?d 7 = Some 6" "token_of ?d 7 \<noteq> Some 4" and u: "unique_key jID (jobs ?d)" by code_simp+
  show ?thesis unfolding Let_def using stale_token_fenced[OF u t(2)] t(1) by blast
qed

text \<open>C3. Retries are bounded: as long as nobody replays jobs from the dead state, a job is started
  (a run row is opened for it) at most \<open>max 1 max_retries\<close> times, whatever crashes, timeouts,
  cancellations and faults happen.\<close>

theorem starts_bounded:
  assumes "reach db_init op_ok_no_replay apply_op d" "j \<in> set (jobs d)"
  shows "int (runs_of d (jID j)) \<le> max 1 (jMaxRetries j)"
proof -
  have "starts_inv d" using assms(1) by (rule sb.reach_inv)
  then have "int (runs_of d (jID j)) \<le> starts_bound j" "job_wf j"
    using assms(2) by (auto simp: starts_inv_def db_inv_def)
  then show ?thesis using starts_bound_limit[of j] by linarith
qed

theorem starts_bounded_witness:
  "let d = run apply_op [demo_insert, demo_claim 3 4 10, demo_reap, demo_claim 5 6 200] demo_empty;
       j = hd (jobs d) in
   runs_of d 7 = 2 \<and> jMaxRetries j = 2 \<and> int (runs_of d (jID j)) \<le> max 1 (jMaxRetries j)"
proof -
  let ?xs = "[demo_insert, demo_claim 3 4 10, demo_reap, demo_claim 5 6 200]"
  let ?d = "run apply_op ?xs demo_empty"
  have "run_ok op_ok_no_replay apply_op ?xs demo_empty" by code_simp
  then have r: "reach db_init op_ok_no_replay apply_op ?d"
    by (rule reach_run[OF reach_init[where init = db_init, OF demo_init]])
  have j: "hd (jobs ?d) \<in> set (jobs ?d)" by code_simp
  have n: "runs_of ?d 7 = 2" "jMaxRetries (hd (jobs ?d)) = 2" by code_simp+
  show ?thesis unfolding Let_def by (intro conjI n starts_bounded[OF r j])
qed

text \<open>C7. Success is final: once a job has succeeded, no sequence of operations (replay, cancel,
  late failures, reaping, the admin tool) changes its row or removes it.\<close>

theorem succeeded_final:
  assumes "reach db_init op_ok apply_op d" "run_ok op_ok apply_op xs d"
    and "lookup jID i (jobs d) = Some j" "jState j = StateSucceeded"
  shows "lookup jID i (jobs (run apply_op xs d)) = Some j"
  by (rule succeeded_run[OF lc.reach_inv[OF assms(1)] assms(2-4)])

theorem succeeded_final_witness:
  "let d = run apply_op [demo_insert, demo_claim 3 4 10, Op_CompleteJob (demo_env 20) 7 3 4] demo_empty;
       xs = [demo_reap, Op_CancelJob (demo_env 101) 7 1, Op_CliForceFail (demo_env 102) 7] in
   jobs d \<noteq> [] \<and> lookup jID 7 (jobs (run apply_op xs d)) = Some (hd (jobs d))"
proof -
  let ?d = "run apply_op [demo_insert, demo_claim 3 4 10, Op_CompleteJob (demo_env 20) 7 3 4] demo_empty"
  let ?xs = "[demo_reap, Op_CancelJob (demo_env 101) 7 1, Op_CliForceFail (demo_env 102) 7]"
  have r: "reach db_init op_ok apply_op ?d" by (rule demo_reach) code_simp
  have ok: "run_ok op_ok apply_op ?xs ?d" by code_simp
  have j: "jobs ?d \<noteq> []" "lookup jID 7 (jobs ?d) = Some (hd (jobs ?d))" "jState (hd (jobs ?d)) = StateSucceeded"
    by code_simp+
  show ?thesis unfolding Let_def by (intro conjI j(1) succeeded_final[OF r ok j(2,3)])
qed

text \<open>C8. Accepted jobs are durable: after any sequence of operations, with any faults, a stored job that
  nobody cancels is still stored, and its tenant, type, payload, priority, retry settings, idempotency
  key and creation time are what was submitted.\<close>

theorem job_durable:
  assumes "db_inv d" "run_ok op_ok apply_op xs d" "lookup jID i (jobs d) = Some j"
    and "\<forall>e tn. Op_CancelJob e i tn \<notin> set xs"
  shows "\<exists>j'. lookup jID i (jobs (run apply_op xs d)) = Some j' \<and> jTenantID j' = jTenantID j \<and> jType j' = jType j \<and>
    jPayload j' = jPayload j \<and> jPriority j' = jPriority j \<and> jMaxRetries j' = jMaxRetries j \<and>
    jBackoffSeconds j' = jBackoffSeconds j \<and> jIdempotencyKey j' = jIdempotencyKey j \<and> jCreatedAt j' = jCreatedAt j"
  using assms
proof (induction xs arbitrary: d j)
  case (Cons x xs)
  obtain j1 where j1: "lookup jID i (jobs (apply_op x d)) = Some j1" "same_work j j1"
    using op_keeps_job[OF Cons.prems(1,3), of x] Cons.prems(4) by auto
  have "db_inv (apply_op x d)" using Cons.prems(1,2) by (simp add: db_inv_step)
  from Cons.IH[OF this _ j1(1)] Cons.prems(2,4) j1(2) show ?case by (auto simp: same_work_def)
qed simp

theorem job_durable_witness:
  "let d = run apply_op [demo_insert] demo_empty in
   \<exists>j'. lookup jID 7 (jobs (run apply_op [demo_claim 3 4 10, demo_reap] d)) = Some j' \<and> jTenantID j' = jTenantID (demo_job 7) \<and>
     jType j' = jType (demo_job 7) \<and> jPayload j' = jPayload (demo_job 7) \<and> jPriority j' = jPriority (demo_job 7) \<and>
     jMaxRetries j' = jMaxRetries (demo_job 7) \<and> jBackoffSeconds j' = jBackoffSeconds (demo_job 7) \<and>
     jIdempotencyKey j' = jIdempotencyKey (demo_job 7) \<and> jCreatedAt j' = jCreatedAt (demo_job 7)"
proof -
  let ?d = "run apply_op [demo_insert] demo_empty"
  have i: "db_inv ?d" by (rule lc.run_inv[OF db_inv_init[OF demo_init]]) code_simp
  have ok: "run_ok op_ok apply_op [demo_claim 3 4 10, demo_reap] ?d" by code_simp
  have l: "lookup jID 7 (jobs ?d) = Some (demo_job 7)" by code_simp
  show ?thesis unfolding Let_def
    by (rule job_durable[OF i ok l]) (simp add: demo_claim_def demo_reap_def)
qed

end
