(* ===== verification/Dequeue.thy ===== *)
theory Dequeue
  imports Queue
begin

text \<open>
  What the queue operations guarantee: the weighted shuffle is total and proportional, dequeuing
  takes the oldest entry of the first non-empty queue, never loses an entry, and returns within
  its timeout.
\<close>

section \<open>Conservation\<close>

text \<open>The entries stored under a set of keys.\<close>

definition held :: "('r \<Rightarrow> string \<Rightarrow> string list) \<Rightarrow> string set \<Rightarrow> 'r \<Rightarrow> string multiset" where
  "held L K s = (\<Sum>k \<in> K. mset (L s k))"

lemma mset_last_butlast: "xs \<noteq> [] \<Longrightarrow> add_mset (last xs) (mset (butlast xs)) = mset xs"
  by (metis append_butlast_last_id mset.simps(1) mset.simps(2) mset_append union_mset_add_mset_right
      add.right_neutral)

lemma moved_held:
  assumes "finite K" "k \<in> K" "q \<in> K" "m k \<noteq> []"
  shows "(\<Sum>x \<in> K. mset (moved k q m x)) = (\<Sum>x \<in> K. mset (m x))"
proof (cases "k = q")
  case True
  then show ?thesis
    using assms by (intro sum.cong) (auto simp: moved_def mset_last_butlast)
next
  case False
  have K: "K = insert k (insert q (K - {k, q}))" using assms by auto
  have "(\<Sum>x \<in> K - {k, q}. mset (moved k q m x)) = (\<Sum>x \<in> K - {k, q}. mset (m x))"
    by (intro sum.cong) (auto simp: moved_def)
  moreover have "mset (moved k q m k) + mset (moved k q m q) = mset (m k) + mset (m q)"
    using False assms(4) mset_last_butlast[of "m k"] by (simp add: moved_def Let_def)
  ultimately show ?thesis
    using False assms(1) by (subst (1 2) K) (simp add: add.assoc [symmetric])
qed

lemma try_keys_held:
  assumes "lists_ok R L" "finite K" "dest \<in> K" "set keys \<subseteq> K"
  shows "held L K (fst (try_keys R uparse dest keys s)) = held L K s"
  using assms(4)
proof (induction keys arbitrary: s)
  case (Cons key keys)
  obtain s' r where m: "LMoveRL R key dest s = (s', r)" by (cases "LMoveRL R key dest s")
  have h: "L s' = L s \<or> (L s key \<noteq> [] \<and> L s' = moved key dest (L s))"
  proof (cases r)
    case (Inl x)
    then show ?thesis
      using LMove_nil[OF assms(1)] LMove_err[OF assms(1)] m by (cases x) auto
  next
    case (Inr v)
    then show ?thesis using LMove_got[OF assms(1)] m by auto
  qed
  then have "held L K s' = held L K s"
    using moved_held[of K key dest "L s"] assms(2,3) Cons.prems by (auto simp: held_def)
  then show ?case
    using Cons m by (auto split: sum.split redis_error.split option.split)
qed simp

text \<open>The id returned is that of an entry that was in one of the queues and is in the processing list now.\<close>

definition taken :: "(string \<Rightarrow> uuid option) \<Rightarrow> (string \<Rightarrow> string list) \<Rightarrow> (string \<Rightarrow> string list) \<Rightarrow> string set \<Rightarrow> string \<Rightarrow> uuid \<Rightarrow> bool" where
  "taken uparse m m' keys dest x \<longleftrightarrow> (\<exists>k \<in> keys. \<exists>v \<in> set (m k). uparse v = Some x \<and> v \<in> set (m' dest))"

lemma taken_mono:
  "taken uparse m m' keys dest x \<Longrightarrow> keys \<subseteq> keys' \<Longrightarrow> (\<And>k. k \<in> keys \<Longrightarrow> set (m k) \<subseteq> set (m0 k)) \<Longrightarrow> taken uparse m0 m' keys' dest x"
  unfolding taken_def by blast

lemma moved_subset: "k \<noteq> dest \<Longrightarrow> set (moved key dest m k) \<subseteq> set (m k)"
  by (auto simp: moved_def Let_def dest: in_set_butlastD)

lemma moved_last: "last (m key) \<in> set (moved key dest m dest)"
  by (simp add: moved_def Let_def)

lemma LMove_shape:
  assumes "lists_ok R L" "LMoveRL R k q s = (s', a)"
  shows "L s' = L s \<or> L s' = moved k q (L s)"
proof (cases a)
  case (Inl x)
  then show ?thesis using LMove_nil[OF assms(1)] LMove_err[OF assms(1)] assms(2) by (cases x) blast+
next
  case (Inr v)
  then show ?thesis using LMove_got[OF assms(1)] assms(2) by blast
qed

lemma try_keys_takes:
  assumes "lists_ok R L" "dest \<notin> set keys" "try_keys R uparse dest keys s = (s', r)"
  shows "(\<forall>k. k \<noteq> dest \<longrightarrow> set (L s' k) \<subseteq> set (L s k)) \<and> (\<forall>x. r = Some (Got x) \<longrightarrow> taken uparse (L s) (L s') (set keys) dest x)"
  using assms(2,3)
proof (induction keys arbitrary: s)
  case (Cons key keys)
  obtain s1 a where m: "LMoveRL R key dest s = (s1, a)" by (rule prod.exhaust)
  have sub: "set (L s1 k) \<subseteq> set (L s k)" if "k \<noteq> dest" for k
    using LMove_shape[OF assms(1) m] moved_subset[OF that] by (elim disjE) simp_all
  have rest: ?case if "try_keys R uparse dest keys s1 = (s', r)"
  proof -
    have i: "(\<forall>k. k \<noteq> dest \<longrightarrow> set (L s' k) \<subseteq> set (L s1 k)) \<and> (\<forall>x. r = Some (Got x) \<longrightarrow> taken uparse (L s1) (L s') (set keys) dest x)"
      using Cons.IH[of s1] Cons.prems(1) that by simp
    have "k \<noteq> dest" if "k \<in> set keys" for k using Cons.prems(1) that by auto
    then have "taken uparse (L s1) (L s') (set keys) dest x \<Longrightarrow> taken uparse (L s) (L s') (set (key # keys)) dest x" for x
      using sub by (elim taken_mono) auto
    moreover have "set (L s' k) \<subseteq> set (L s k)" if "k \<noteq> dest" for k using i sub[OF that] that by (meson order_trans)
    ultimately show ?thesis using i by blast
  qed
  show ?case
  proof (cases a)
    case (Inl x)
    show ?thesis
    proof (cases x)
      case RedisNil
      then show ?thesis using Cons.prems(2) m Inl by (intro rest) simp
    next
      case (RedisErr msg)
      then have "s' = s1" "r \<noteq> Some (Got x)" for x using Cons.prems(2) m Inl by auto
      then show ?thesis using sub by blast
    qed
  next
    case (Inr v)
    show ?thesis
    proof (cases "uparse v")
      case None
      then show ?thesis using Cons.prems(2) m Inr by (intro rest) simp
    next
      case (Some x)
      then have "s' = s1" "r = Some (Got x)" using Cons.prems(2) m Inr by simp_all
      moreover have "v \<in> set (L s key)" "v \<in> set (L s1 dest)"
        using LMove_got[OF assms(1) m[unfolded Inr]] moved_last[of "L s" key dest] by auto
      then have "taken uparse (L s) (L s1) (set (key # keys)) dest x" using Some by (auto simp: taken_def)
      ultimately show ?thesis using sub by blast
    qed
  qed
qed simp

section \<open>Which entry is taken\<close>

text \<open>Empty queues are skipped; the first non-empty one gives its oldest entry.\<close>

lemma LMove_empty:
  assumes "lists_ok R L" "no_errors R" "L s k = []"
  obtains s' where "LMoveRL R k q s = (s', Inl RedisNil)" "L s' = L s"
proof -
  obtain s' r where m: "LMoveRL R k q s = (s', r)" by (cases "LMoveRL R k q s")
  then have "r \<noteq> Inl (RedisErr x)" for x
    using assms(2) unfolding no_errors_def by (metis snd_conv)
  moreover have "r \<noteq> Inr v" for v using LMove_got[OF assms(1)] m assms(3) by force
  ultimately have r: "r = Inl RedisNil" by (metis redis_error.exhaust sum.exhaust)
  with LMove_nil[OF assms(1)] m show thesis using that by blast
qed

lemma LMove_nonempty:
  assumes "lists_ok R L" "no_errors R" "L s k \<noteq> []"
  obtains s' where "LMoveRL R k q s = (s', Inr (last (L s k)))" "L s' = moved k q (L s)"
proof -
  obtain s' r where m: "LMoveRL R k q s = (s', r)" by (cases "LMoveRL R k q s")
  then have "r \<noteq> Inl (RedisErr x)" for x
    using assms(2) unfolding no_errors_def by (metis snd_conv)
  moreover have "r \<noteq> Inl RedisNil" using LMove_nil[OF assms(1)] m assms(3) by force
  ultimately obtain v where r: "r = Inr v" by (metis redis_error.exhaust sum.exhaust)
  with LMove_got[OF assms(1)] m have "v = last (L s k)" "L s' = moved k q (L s)" by auto
  with m r that show thesis by blast
qed

lemma try_keys_empty:
  assumes "lists_ok R L" "no_errors R" "\<forall>k \<in> set keys. L s k = []"
  shows "\<exists>s'. try_keys R uparse dest keys s = (s', None) \<and> L s' = L s"
  using assms(3)
proof (induction keys arbitrary: s)
  case (Cons key keys)
  obtain s' where m: "LMoveRL R key dest s = (s', Inl RedisNil)" and l: "L s' = L s"
    using LMove_empty[OF assms(1,2), of s key dest] Cons.prems by auto
  then have "\<exists>s''. try_keys R uparse dest keys s' = (s'', None) \<and> L s'' = L s'"
    using Cons.prems by (intro Cons.IH) simp
  with m l show ?case by simp
qed simp

lemma try_keys_first:
  assumes "lists_ok R L" "no_errors R" "\<forall>k \<in> set pre. L s k = []"
    and "L s key \<noteq> []" "uparse (last (L s key)) = Some x"
  shows "\<exists>s'. try_keys R uparse dest (pre @ key # post) s = (s', Some (Got x)) \<and>
    L s' = moved key dest (L s)"
  using assms(3-5)
proof (induction pre arbitrary: s)
  case Nil
  obtain s' where "LMoveRL R key dest s = (s', Inr (last (L s key)))" "L s' = moved key dest (L s)"
    using LMove_nonempty[OF assms(1,2)] Nil by blast
  with Nil show ?case by auto
next
  case (Cons k pre)
  obtain s' where m: "LMoveRL R k dest s = (s', Inl RedisNil)" and l: "L s' = L s"
    using LMove_empty[OF assms(1,2), of s k dest] Cons.prems(1) by auto
  have "\<exists>s''. try_keys R uparse dest (pre @ key # post) s' = (s'', Some (Got x)) \<and>
      L s'' = moved key dest (L s')"
    using Cons.prems l by (intro Cons.IH) auto
  with m l show ?case by simp
qed

section \<open>The polling loop returns\<close>

lemma dequeue_loop_returns:
  assumes "\<forall>t \<in> set tenants. 0 < twWeight t" "\<forall>p \<in> set polls. draws_ok (pDraws p)"
    and "\<exists>p \<in> set polls. deadline \<le> pClock p"
  shows "\<exists>res. dequeue_loop R ustr uparse dest tenants deadline polls s = Some res"
  using assms(2,3)
proof (induction polls arbitrary: s)
  case (Cons p ps)
  obtain os where "weightedShuffle (pDraws p) tenants = Some (Returns os)"
    using weightedShuffle_permutes[OF assms(1), of "pDraws p"] Cons.prems(1) by auto
  with Cons show ?case
    by (auto split: prod.split option.split)
qed simp

lemma dequeue_loop_held:
  assumes "lists_ok R L" "finite K" "dest \<in> K"
    and "\<And>t b. t \<in> set tenants \<Longrightarrow> b \<in> set priorityBuckets \<Longrightarrow> queue_key ustr b (twID t) \<in> K"
    and "\<forall>t \<in> set tenants. 0 < twWeight t" "\<forall>p \<in> set polls. draws_ok (pDraws p)"
    and "dequeue_loop R ustr uparse dest tenants deadline polls s = Some (s', r)"
  shows "held L K s' = held L K s"
  using assms(6,7)
proof (induction polls arbitrary: s)
  case (Cons p ps)
  obtain os where os: "weightedShuffle (pDraws p) tenants = Some (Returns os)"
      "mset os = mset (map twID tenants)"
    using weightedShuffle_permutes[OF assms(5), of "pDraws p"] Cons.prems(1) by auto
  then have "set os = twID ` set tenants" by (metis mset_eq_setD set_map)
  then have "set (poll_keys ustr os) \<subseteq> K" using assms(4) by (auto simp: poll_keys_def)
  from try_keys_held[OF assms(1-3) this]
  have k: "held L K (fst (try_keys R uparse dest (poll_keys ustr os) s)) = held L K s" .
  have e: "set (poll_keys ustr []) \<subseteq> K" by (simp add: poll_keys_def)
  from try_keys_held[OF assms(1-3) e]
  have k0: "held L K (fst (try_keys R uparse dest (poll_keys ustr []) s)) = held L K s" .
  show ?case
    using Cons os k k0 by (auto split: if_splits prod.splits option.splits)
qed simp

lemma poll_keys_no_dest: "processingPrefix @ w \<notin> set (poll_keys ustr os)"
  using queue_key_not_processing[of _ ustr _ w] by (auto simp: poll_keys_def) metis

lemma dequeue_loop_takes:
  assumes "lists_ok R L" "\<forall>t \<in> set tenants. 0 < twWeight t" "\<forall>p \<in> set polls. draws_ok (pDraws p)"
    and "dequeue_loop R ustr uparse (processingPrefix @ w) tenants deadline polls s = Some (s', Got x)"
  shows "taken uparse (L s) (L s') (set (poll_keys ustr (map twID tenants))) (processingPrefix @ w) x"
  using assms(3,4)
proof (induction polls arbitrary: s)
  case (Cons p ps)
  let ?dest = "processingPrefix @ w"
  obtain os where os: "(if tenants = [] then Some (Returns []) else weightedShuffle (pDraws p) tenants) = Some (Returns os)"
      "set os \<subseteq> twID ` set tenants"
  proof (cases "tenants = []")
    case False
    obtain os where "weightedShuffle (pDraws p) tenants = Some (Returns os)" "mset os = mset (map twID tenants)"
      using weightedShuffle_permutes[OF assms(2), of "pDraws p"] Cons.prems(1) by auto
    then show thesis using that[of os] False mset_eq_setD by fastforce
  qed (use that[of "[]"] in simp)
  have k: "set (poll_keys ustr os) \<subseteq> set (poll_keys ustr (map twID tenants))"
    using os(2) by (fastforce simp: poll_keys_def)
  obtain s1 r where t: "try_keys R uparse ?dest (poll_keys ustr os) s = (s1, r)" by (rule prod.exhaust)
  note tk = try_keys_takes[OF assms(1) poll_keys_no_dest t]
  show ?case
  proof (cases r)
    case (Some y)
    then have "y = Got x" "s1 = s'" using Cons.prems(2) os(1) t by (simp_all split: if_splits)
    then show ?thesis using tk Some k taken_mono[of uparse "L s" "L s'" "set (poll_keys ustr os)"] by blast
  next
    case None
    then have "dequeue_loop R ustr uparse ?dest tenants deadline ps s1 = Some (s', Got x)"
      using Cons.prems(2) os(1) t by (simp split: if_splits)
    then have "taken uparse (L s1) (L s') (set (poll_keys ustr (map twID tenants))) ?dest x" using Cons.IH Cons.prems(1) by simp
    then show ?thesis using tk poll_keys_no_dest taken_mono[of uparse "L s1" "L s'" "set (poll_keys ustr (map twID tenants))" ?dest x]
      by (metis (no_types, lifting) subset_refl)
  qed
qed simp

section \<open>Properties\<close>

text \<open>
  The inputs of the witnesses: one or two tenants, the first poll of a five-second call, and a
  server with two entries in a high-priority queue and one in a low-priority queue.
\<close>

definition demo_poll :: poll where
  "demo_poll = \<lparr>pClock = 0, pDone = False, pDraws = (\<lambda>i n. 0), pDoneAfter = False\<rparr>"

definition demo_tenants :: "TenantWeight list" where
  "demo_tenants = [\<lparr>twID = 1, twWeight = 1\<rparr>, \<lparr>twID = 2, twWeight = 1\<rparr>]"

definition demo_mem :: mem where
  "demo_mem = mem_empty\<lparr>mLists := (\<lambda>_. [])
     (queue_key ref_ustr ''queue:10'' 1 := [ref_ustr 7],
      queue_key ref_ustr ''queue:1'' 2 := [ref_ustr 9, ref_ustr 8])\<rparr>"

lemma demo_draws: "draws_ok (pDraws demo_poll)"
  by (simp add: draws_ok_def intn_ok_def demo_poll_def)

lemma demo_shuffle: "weightedShuffle (pDraws demo_poll) demo_tenants = Some (Returns [1, 2])"
  by (simp add: weightedShuffle_def shuffle_loop.simps total_weight_def demo_tenants_def demo_poll_def)

lemma demo_queues:
  "mLists demo_mem (queue_key ref_ustr ''queue:1'' 1) = []"
  "mLists demo_mem (queue_key ref_ustr ''queue:5'' 1) = []"
  "mLists demo_mem (queue_key ref_ustr ''queue:10'' 1) = [ref_ustr 7]"
  "mLists demo_mem (queue_key ref_ustr ''queue:1'' 2) = [ref_ustr 9, ref_ustr 8]"
  by (simp_all add: demo_mem_def queue_key_def uuid_ok_inj[OF ref_uuid_ok])

lemma demo_facts:
  "demo_tenants \<noteq> []" "pClock demo_poll < 0 + 5 * second" "\<not> pDone demo_poll"
  "\<forall>t \<in> set demo_tenants. 0 < twWeight t"
  by (simp_all add: demo_tenants_def demo_poll_def second_def)

lemma poll_keys_split:
  assumes "priorityBuckets = before @ b # after"
  shows "poll_keys ustr (pre @ t # post) =
    (poll_keys ustr pre @ map (\<lambda>b. queue_key ustr b t) before) @
    queue_key ustr b t # (map (\<lambda>b. queue_key ustr b t) after @ poll_keys ustr post)"
  unfolding poll_keys_def assms by simp

lemma Dequeue_first_key:
  assumes "lists_ok R L" "no_errors R" "tenants \<noteq> []"
    and "pClock p < start + timeout" "\<not> pDone p"
    and "weightedShuffle (pDraws p) tenants = Some (Returns order)"
    and "poll_keys ustr order = pre @ key # post"
    and "\<forall>k \<in> set pre. L s k = []" "L s key = q @ [v]" "uparse v = Some x"
  shows "\<exists>s'. Dequeue R ustr uparse start (p # ps) w tenants timeout s = Some (s', Got x) \<and>
    L s' = moved key (processingPrefix @ w) (L s)"
proof -
  obtain s' where "try_keys R uparse (processingPrefix @ w) (pre @ key # post) s = (s', Some (Got x))"
    and "L s' = moved key (processingPrefix @ w) (L s)"
    using try_keys_first[OF assms(1,2,8), of key uparse x "processingPrefix @ w" post] assms(9,10)
    by auto
  with assms show ?thesis by (simp add: Dequeue_def)
qed

text \<open>The weighted shuffle always returns: with positive weights it neither panics nor loops, and
  visits every tenant exactly as often as it is listed, whatever the random source draws.\<close>

lemma weightedShuffle_total:
  assumes "\<forall>t \<in> set ts. 0 < twWeight t" and "draws_ok intn"
  shows "\<exists>os. weightedShuffle intn ts = Some (Returns os) \<and> mset os = mset (map twID ts)"
  by (rule weightedShuffle_permutes[OF assms]) blast

text \<open>The shuffle is weighted as documented: of the \<open>total\<close> equally likely draws, exactly
  \<open>weight t\<close> select tenant \<open>t\<close> first.\<close>

lemma pick_proportional:
  assumes "distinct ts" and "\<forall>t \<in> set ts. 0 < twWeight t" and "t \<in> set ts"
  shows "card {r. 0 \<le> r \<and> r < total_weight ts \<and> (\<exists>rest. pick r 0 ts = Some (t, rest))} = nat (twWeight t)"
  using card_draws_for[OF assms, of 0] by (simp add: draws_for_def)

text \<open>C16. Dequeue never loses an entry: over the polled queues and the worker's processing list the
  multiset of entries is the same before and after the call, on every path, including commands that
  report an error after they were executed, unparsable entries and cancellation. The id a call returns is
  the one an entry stands for that was in a queue of one of the tenants and is in the processing list now.\<close>

theorem Dequeue_conserves:
  assumes "lists_ok R L" and "finite K" and "processingPrefix @ w \<in> K"
    and "\<forall>t \<in> set tenants. \<forall>b \<in> set priorityBuckets. queue_key ustr b (twID t) \<in> K"
    and "\<forall>t \<in> set tenants. 0 < twWeight t" and "\<forall>p \<in> set polls. draws_ok (pDraws p)"
    and "Dequeue R ustr uparse start polls w tenants timeout s = Some (s', r)"
  shows "(\<Sum>k \<in> K. mset (L s' k)) = (\<Sum>k \<in> K. mset (L s k)) \<and>
    (\<forall>x. r = Got x \<longrightarrow> (\<exists>t \<in> set tenants. \<exists>b \<in> set priorityBuckets. \<exists>v \<in> set (L s (queue_key ustr b (twID t))).
       uparse v = Some x \<and> v \<in> set (L s' (processingPrefix @ w))))"
proof (intro conjI allI impI)
  have "held L K s' = held L K s"
    using assms(4) by (intro dequeue_loop_held[OF assms(1-3) _ assms(5,6) assms(7)[unfolded Dequeue_def]]) blast
  then show "(\<Sum>k \<in> K. mset (L s' k)) = (\<Sum>k \<in> K. mset (L s k))" by (simp add: held_def)
  fix x assume "r = Got x"
  then show "\<exists>t \<in> set tenants. \<exists>b \<in> set priorityBuckets. \<exists>v \<in> set (L s (queue_key ustr b (twID t))).
      uparse v = Some x \<and> v \<in> set (L s' (processingPrefix @ w))"
    using dequeue_loop_takes[OF assms(1,5,6)] assms(7) unfolding Dequeue_def by (fastforce simp: taken_def poll_keys_def)
qed

theorem Dequeue_conserves_witness:
  "\<exists>s'. Dequeue mem_redis ref_ustr ref_uparse 0 [demo_poll] ''w'' demo_tenants (5 * second) demo_mem = Some (s', Got 7) \<and>
     (\<Sum>k \<in> set (''processing:w'' # poll_keys ref_ustr [1, 2]). mset (mLists s' k)) =
     (\<Sum>k \<in> set (''processing:w'' # poll_keys ref_ustr [1, 2]). mset (mLists demo_mem k)) \<and>
     (\<exists>t \<in> set demo_tenants. \<exists>b \<in> set priorityBuckets. \<exists>v \<in> set (mLists demo_mem (queue_key ref_ustr b (twID t))). ref_uparse v = Some 7)"
proof -
  have "\<exists>s'. Dequeue mem_redis ref_ustr ref_uparse 0 [demo_poll] ''w'' demo_tenants (5 * second) demo_mem = Some (s', Got 7)"
    using Dequeue_first_key[where L = mLists and s = demo_mem and uparse = ref_uparse and x = 7
        and pre = "[queue_key ref_ustr ''queue:1'' 1, queue_key ref_ustr ''queue:5'' 1]"
        and key = "queue_key ref_ustr ''queue:10'' 1" and q = "[]" and v = "ref_ustr 7"
        and post = "poll_keys ref_ustr [2]" and ustr = ref_ustr and ps = "[]" and w = "''w''",
        OF mem_redis_lists_ok mem_redis_no_errors demo_facts(1-3) demo_shuffle] demo_queues
    by (fastforce simp: poll_keys_def priorityBuckets_def ref_uparse_def ref_ustr_def)
  then obtain s' where
    s': "Dequeue mem_redis ref_ustr ref_uparse 0 [demo_poll] ''w'' demo_tenants (5 * second) demo_mem = Some (s', Got 7)"
    by blast
  have p: "finite (set (''processing:w'' # poll_keys ref_ustr [1, 2]))" "processingPrefix @ ''w'' \<in> set (''processing:w'' # poll_keys ref_ustr [1, 2])"
    "\<forall>t \<in> set demo_tenants. \<forall>b \<in> set priorityBuckets. queue_key ref_ustr b (twID t) \<in> set (''processing:w'' # poll_keys ref_ustr [1, 2])"
    "\<forall>p \<in> set [demo_poll]. draws_ok (pDraws p)"
    using demo_draws by (auto simp: demo_tenants_def processingPrefix_def poll_keys_def)
  show ?thesis using s' Dequeue_conserves[OF mem_redis_lists_ok p(1-3) demo_facts(4) p(4) s'] by blast
qed

text \<open>C28. Dequeue is first-in first-out within a queue: the poll takes the oldest entry of the first
  non-empty queue, visiting the tenants in shuffled order and, for each tenant, its queues from high
  to low priority, and puts it on the worker's processing list.\<close>

theorem Dequeue_oldest_first:
  assumes "lists_ok R L" and "no_errors R" and "uuid_ok ustr uparse" and "tenants \<noteq> []"
    and "pClock p < start + timeout" and "\<not> pDone p"
    and "weightedShuffle (pDraws p) tenants = Some (Returns (pre @ t # post))"
    and "priorityBuckets = before @ b # after"
    and "\<forall>u \<in> set pre. \<forall>c \<in> set priorityBuckets. L s (queue_key ustr c u) = []"
    and "\<forall>c \<in> set before. L s (queue_key ustr c t) = []"
    and "L s (queue_key ustr b t) = q @ [ustr j]"
  shows "\<exists>s'. Dequeue R ustr uparse start (p # ps) w tenants timeout s = Some (s', Got j) \<and>
     L s' (queue_key ustr b t) = q \<and>
     L s' (processingPrefix @ w) = ustr j # L s (processingPrefix @ w)"
proof -
  have e: "\<forall>k \<in> set (poll_keys ustr pre @ map (\<lambda>b. queue_key ustr b t) before). L s k = []"
    using assms(9,10) by (auto simp: poll_keys_def)
  have u: "uparse (ustr j) = Some j" using assms(3) by (simp add: uuid_ok_def)
  obtain s' where
    s': "Dequeue R ustr uparse start (p # ps) w tenants timeout s = Some (s', Got j)"
      "L s' = moved (queue_key ustr b t) (processingPrefix @ w) (L s)"
    using Dequeue_first_key[where L = L and s = s and uparse = uparse, OF assms(1,2,4-7) poll_keys_split[OF assms(8), of ustr pre t post] e assms(11) u] by blast
  have "b \<in> set priorityBuckets" unfolding assms(8) by simp
  then have "queue_key ustr b t \<noteq> processingPrefix @ w" by (rule queue_key_not_processing)
  with s' assms(11) show ?thesis by (auto simp: moved_def)
qed

theorem Dequeue_oldest_first_witness:
  "\<exists>s'. Dequeue mem_redis ref_ustr ref_uparse 0 [demo_poll] ''w'' demo_tenants (5 * second) demo_mem = Some (s', Got 7) \<and>
     mLists s' (queue_key ref_ustr ''queue:10'' 1) = [] \<and>
     mLists s' (processingPrefix @ ''w'') = ref_ustr 7 # mLists demo_mem (processingPrefix @ ''w'')"
  by (rule Dequeue_oldest_first[where L = mLists and s = demo_mem and q = "[]" and pre = "[]"
      and before = "[''queue:1'', ''queue:5'']" and after = "[]",
      OF mem_redis_lists_ok mem_redis_no_errors ref_uuid_ok demo_facts(1-3)])
    (simp_all add: demo_shuffle demo_queues priorityBuckets_def)

text \<open>Tenants come before priorities: when the tenant drawn first has a waiting job, that job is
  taken even if its priority is low and another tenant has a high-priority job waiting. The lanes are
  per tenant, not global.\<close>

lemma Dequeue_tenant_before_priority:
  assumes "lists_ok R L" and "no_errors R" and "uuid_ok ustr uparse" and "tenants \<noteq> []"
    and "pClock p < start + timeout" and "\<not> pDone p"
    and "weightedShuffle (pDraws p) tenants = Some (Returns (t # u # post))"
    and "L s (queue_key ustr ''queue:1'' t) = []" and "L s (queue_key ustr ''queue:5'' t) = []"
    and "L s (queue_key ustr ''queue:10'' t) = q @ [ustr low]"
    and "L s (queue_key ustr ''queue:1'' u) = q' @ [ustr high]"
  shows "\<exists>s'. Dequeue R ustr uparse start (p # ps) w tenants timeout s = Some (s', Got low) \<and>
    L s' (queue_key ustr ''queue:10'' t) = q"
proof -
  have k: "poll_keys ustr (t # u # post) =
      [queue_key ustr ''queue:1'' t, queue_key ustr ''queue:5'' t] @ queue_key ustr ''queue:10'' t #
        poll_keys ustr (u # post)"
    by (simp add: poll_keys_def priorityBuckets_def)
  have e: "\<forall>k \<in> set [queue_key ustr ''queue:1'' t, queue_key ustr ''queue:5'' t]. L s k = []"
    using assms(8,9) by simp
  have u: "uparse (ustr low) = Some low" using assms(3) by (simp add: uuid_ok_def)
  obtain s' where
    s': "Dequeue R ustr uparse start (p # ps) w tenants timeout s = Some (s', Got low)"
      "L s' = moved (queue_key ustr ''queue:10'' t) (processingPrefix @ w) (L s)"
    using Dequeue_first_key[where L = L and s = s and uparse = uparse, OF assms(1,2,4-7) k e assms(10) u] by blast
  have "queue_key ustr ''queue:10'' t \<noteq> processingPrefix @ w"
    by (rule queue_key_not_processing) (simp add: priorityBuckets_def)
  with s' assms(10) show ?thesis by (auto simp: moved_def)
qed

text \<open>Dequeue returns: the loop sleeps \<open>pollInterval\<close> between polls, so that the \<open>i\<close>-th clock
  reading is at least \<open>start + i * pollInterval\<close>, and after at most \<open>timeout / pollInterval + 1\<close>
  polls (51 for the worker's five seconds) the call has returned.\<close>

lemma Dequeue_returns:
  assumes "\<forall>t \<in> set tenants. 0 < twWeight t" and "\<forall>p \<in> set polls. draws_ok (pDraws p)"
    and "\<forall>i < length polls. start + int i * pollInterval \<le> pClock (polls ! i)"
    and "timeout + pollInterval \<le> int (length polls) * pollInterval" and "0 \<le> timeout"
  shows "\<exists>s' r. Dequeue R ustr uparse start polls w tenants timeout s = Some (s', r)"
proof -
  have ne: "polls \<noteq> []" using assms(4,5) by (auto simp: pollInterval_def millisecond_def)
  let ?i = "length polls - 1"
  have "start + timeout \<le> start + int ?i * pollInterval"
    using assms(4) ne by (simp add: of_nat_diff algebra_simps Suc_leI)
  also have "\<dots> \<le> pClock (polls ! ?i)" using assms(3) ne by simp
  finally have "\<exists>p \<in> set polls. start + timeout \<le> pClock p"
    using ne by (metis diff_less length_greater_0_conv nth_mem zero_less_one)
  from dequeue_loop_returns[OF assms(1,2) this] show ?thesis
    by (auto simp: Dequeue_def)
qed

end
