(* ===== verification/Worker.thy ===== *)
theory Worker
  imports Webhook Metrics Outcomes Claims World Dequeue
begin

text \<open>
  internal/worker/worker.go: loading the tenant weights, processing one job, its heartbeats, and one
  turn of the main loop. The state is the database and the Redis server; \<open>exec\<close> stands for the call of
  \<open>execute\<close> (theory \<open>Webhook\<close>). Tracing and logging are left out, the counters of the metrics are kept as the
  list of increments.
\<close>

section \<open>Constants\<close>

definition dequeueTimeout :: duration where
  "dequeueTimeout = 5 * second"

definition visibilityTimeout :: duration where
  "visibilityTimeout = 30 * second"

definition heartbeatInterval :: duration where
  "heartbeatInterval = 5 * second"

section \<open>Tenant weights\<close>

text \<open>The new value of the field \<open>tenants\<close>, given the old one.\<close>

definition loadTenants ::
    "env \<Rightarrow> (Tenant list \<Rightarrow> Tenant list) \<Rightarrow> db \<Rightarrow> TenantWeight list \<Rightarrow> TenantWeight list" where
  "loadTenants e scan d old =
     (case GetTenants e scan d of
        Inl _ \<Rightarrow> old
      | Inr ts \<Rightarrow> map (\<lambda>t. \<lparr>twID = tID t, twWeight = (if tWeight t \<le> 0 then 100 else tWeight t)\<rparr>) ts)"

section \<open>Heartbeats\<close>

text \<open>One tick of \<open>heartbeat\<close>, as the \<open>i\<close>-th call of the activity.\<close>

definition beat ::
    "'r redis \<Rightarrow> (uuid \<Rightarrow> string) \<Rightarrow> 'r world \<Rightarrow> uuid \<Rightarrow> uuid \<Rightarrow> nat \<Rightarrow> db \<times> 'r \<Rightarrow> db \<times> 'r" where
  "beat R ustr W jobID token i st =
     (case wOthers W i st of (d, s) \<Rightarrow>
       (fst (ExtendDeadline (ctx_env W i) jobID token (go_now (wEnv W i) + HeartbeatTTL) d),
        fst (Heartbeat (ctx_redis W i R) ustr jobID (ustr token) s)))"

fun heartbeats ::
    "'r redis \<Rightarrow> (uuid \<Rightarrow> string) \<Rightarrow> 'r world \<Rightarrow> uuid \<Rightarrow> uuid \<Rightarrow> nat \<Rightarrow> nat \<Rightarrow> db \<times> 'r \<Rightarrow> db \<times> 'r" where
  "heartbeats R ustr W jobID token 0 i st = st"
| "heartbeats R ustr W jobID token (Suc n) i st =
     heartbeats R ustr W jobID token n (Suc i) (beat R ustr W jobID token i st)"

section \<open>Processing a job\<close>

text \<open>
  The outcome of an execution that took place in state \<open>st\<close> is recorded as call \<open>i\<close>: failure with the
  error and the retry time, or success.
\<close>

definition record_result ::
    "'r world \<Rightarrow> (int \<Rightarrow> int) \<Rightarrow> uuid \<Rightarrow> uuid \<Rightarrow> job \<Rightarrow> string option \<Rightarrow> nat \<Rightarrow> db \<Rightarrow> db \<times> metric list" where
  "record_result W intn runID token j execErr i d =
     (case execErr of
        Some msg \<Rightarrow>
          let nextRunAt = (if ShouldRetry j
                then Some (NextRetryAt intn (jAttempt j + 1) (jBackoffSeconds j) (go_now (wEnv W i))) else None);
              retries = (if ShouldRetry j then [JobRetriesTotal (jType j) (jTenantID j)] else []);
              finalState = (if nextRunAt = None then ''dead'' else ''failed'')
          in (fst (FailJob (ctx_env W i) (jID j) runID token msg nextRunAt d),
              retries @ [JobsTotal (jType j) finalState (jTenantID j), JobDurationSeconds (jType j) finalState (jTenantID j)])
      | None \<Rightarrow>
          (fst (CompleteJob (ctx_env W i) (jID j) runID token d),
           [JobsTotal (jType j) ''succeeded'' (jTenantID j), JobDurationSeconds (jType j) ''succeeded'' (jTenantID j)]))"

text \<open>
  \<open>process\<close>, in two parts: up to the read of the claimed job, and from there on (\<open>run_claimed\<close>). \<open>token\<close> and \<open>runID\<close> are the fresh ids the call makes (\<open>runID\<close> inside \<open>TryClaim\<close>), \<open>n\<close> the number
  of heartbeats while the job executes. The calls are: 0 the claim, 1 the read of the job, 2 the
  mark as running, 3 to n+2 the heartbeats, n+3 the result, n+4 the removal of the queue entry (1 when the
  claim was not made). Every call is made with the context given to \<open>process\<close>.
\<close>

definition leave_processing ::
    "'r redis \<Rightarrow> (uuid \<Rightarrow> string) \<Rightarrow> 'r world \<Rightarrow> string \<Rightarrow> uuid \<Rightarrow> nat \<Rightarrow> db \<times> 'r \<Rightarrow> db \<times> 'r" where
  "leave_processing R ustr W workerID jobID i st =
     (case wOthers W i st of (d, s) \<Rightarrow> (d, fst (RemoveFromProcessing (ctx_redis W i R) ustr workerID jobID s)))"

definition run_claimed ::
    "'r redis \<Rightarrow> (uuid \<Rightarrow> string) \<Rightarrow> 'r world \<Rightarrow> string \<Rightarrow> uuid \<Rightarrow> uuid \<Rightarrow> (int \<Rightarrow> int) \<Rightarrow>
     (job \<Rightarrow> string option) \<Rightarrow> nat \<Rightarrow> uuid \<Rightarrow> job \<Rightarrow> db \<times> 'r \<Rightarrow> (db \<times> 'r) \<times> metric list" where
  "run_claimed R ustr W workerID token runID intn exec n jobID j st =
     (case wOthers W 2 st of (d2, s2) \<Rightarrow>
      let st3 = heartbeats R ustr W jobID token n 3 (fst (MarkRunning (ctx_env W 2) jobID token d2), s2)
      in case wOthers W (n + 3) st3 of (d4, s4) \<Rightarrow>
         case record_result W intn runID token j (exec j) (n + 3) d4 of (d5, ms) \<Rightarrow>
           (leave_processing R ustr W workerID jobID (n + 4) (d5, s4), [WorkerInFlight 1, WorkerInFlight (- 1)] @ ms))"

definition process ::
    "'r redis \<Rightarrow> (uuid \<Rightarrow> string) \<Rightarrow> 'r world \<Rightarrow> string \<Rightarrow> uuid \<Rightarrow> uuid \<Rightarrow> (int \<Rightarrow> int) \<Rightarrow>
     (job \<Rightarrow> string option) \<Rightarrow> nat \<Rightarrow> uuid \<Rightarrow> db \<times> 'r \<Rightarrow> (db \<times> 'r) \<times> metric list" where
  "process R ustr W workerID token runID intn exec n jobID st =
     (case wOthers W 0 st of (d, s) \<Rightarrow>
      let deadline = go_now (wEnv W 0) + (visibilityTimeout + 30 * second) in
      case TryClaim (ctx_env W 0) runID jobID workerID token deadline d of
        (d1, Inl _) \<Rightarrow> (leave_processing R ustr W workerID jobID 1 (d1, s), [])
      | (d1, Inr (False, _)) \<Rightarrow> (leave_processing R ustr W workerID jobID 1 (d1, s), [])
      | (d1, Inr (True, rid)) \<Rightarrow>
          (let st1 = wOthers W 1 (d1, s) in
           case GetJob (ctx_env W 1) jobID (fst st1) of
             Inl _ \<Rightarrow> (st1, [])
           | Inr j \<Rightarrow> run_claimed R ustr W workerID token rid intn exec n jobID j st1))"

text \<open>
  The loop of \<open>Run\<close>. A turn says what the worker meets in it: whether \<open>shutdown\<close> is closed or the context
  done, what other processes did to the state, the refreshes of the tenant weights made in the
  background, the clock and the draws of its dequeue, whether the context is done after it, and the
  ids, clock and execution of the job it may process.
\<close>

record 'r turn =
  tuShutdown :: bool
  tuDone :: bool
  tuOthers :: "db \<times> 'r \<Rightarrow> db \<times> 'r"
  tuReloads :: "(env \<times> (Tenant list \<Rightarrow> Tenant list)) list"
  tuStart :: time
  tuPolls :: "poll list"
  tuDoneAfter :: bool
  tuWorld :: "'r world"
  tuToken :: uuid
  tuRunID :: uuid
  tuIntn :: "int \<Rightarrow> int"
  tuExec :: "job \<Rightarrow> string option"
  tuBeats :: nat

text \<open>\<open>Running\<close>: the given turns are over and the loop goes on; \<open>Crashed\<close>: a panic. The value \<open>None\<close>: a dequeue
  has not returned within the given polls.\<close>

datatype worker_end = Running | Stopped | Crashed

fun work_loop ::
    "'r redis \<Rightarrow> (uuid \<Rightarrow> string) \<Rightarrow> (string \<Rightarrow> uuid option) \<Rightarrow> string \<Rightarrow> 'r turn list \<Rightarrow> TenantWeight list \<Rightarrow>
     db \<times> 'r \<Rightarrow> ((db \<times> 'r) \<times> metric list \<times> worker_end) option" where
  "work_loop R ustr uparse workerID [] ts st = Some (st, [], Running)"
| "work_loop R ustr uparse workerID (u # us) ts st =
     (if tuShutdown u \<or> tuDone u then Some (st, [], Stopped)
      else
        let (d, s) = tuOthers u st;
            ts' = fold (\<lambda>(e, scan). loadTenants e scan d) (tuReloads u) ts;
            continue = (\<lambda>s'. work_loop R ustr uparse workerID us ts' (d, s')) in
        case Dequeue R ustr uparse (tuStart u) (tuPolls u) workerID ts' dequeueTimeout s of
          None \<Rightarrow> None
        | Some (s', Panicked) \<Rightarrow> Some ((d, s'), [], Crashed)
        | Some (s', Failed _) \<Rightarrow> if tuDoneAfter u then Some ((d, s'), [], Stopped) else continue s'
        | Some (s', Cancelled) \<Rightarrow> if tuDoneAfter u then Some ((d, s'), [], Stopped) else continue s'
        | Some (s', Nothing) \<Rightarrow> continue s'
        | Some (s', Got jobID) \<Rightarrow>
            if jobID = uuid_nil then continue s'
            else
              (case process R ustr (tuWorld u) workerID (tuToken u) (tuRunID u) (tuIntn u) (tuExec u) (tuBeats u)
                      jobID (d, s') of
                 (st', ms) \<Rightarrow>
                   map_option (\<lambda>(st'', ms', end). (st'', ms @ ms', end))
                     (work_loop R ustr uparse workerID us ts' st')))"

definition Run ::
    "'r redis \<Rightarrow> (uuid \<Rightarrow> string) \<Rightarrow> (string \<Rightarrow> uuid option) \<Rightarrow> string \<Rightarrow> env \<times> (Tenant list \<Rightarrow> Tenant list) \<Rightarrow>
     'r turn list \<Rightarrow> db \<times> 'r \<Rightarrow> ((db \<times> 'r) \<times> metric list \<times> worker_end) option" where
  "Run R ustr uparse workerID first turns st =
     work_loop R ustr uparse workerID turns (loadTenants (fst first) (snd first) (fst st) []) st"

section \<open>Weights are positive\<close>

lemma loadTenants_positive:
  "\<forall>t \<in> set old. 0 < twWeight t \<Longrightarrow> \<forall>t \<in> set (loadTenants e scan d old). 0 < twWeight t"
  by (auto simp: loadTenants_def split: sum.split)

section \<open>Consistency\<close>

text \<open>The fresh ids: not in use when the claim is made.\<close>

definition fresh_claim :: "uuid \<Rightarrow> uuid \<Rightarrow> db \<Rightarrow> bool" where
  "fresh_claim token runID d \<longleftrightarrow> runID \<notin> rID ` set (job_runs d) \<and> Some token \<notin> jClaimToken ` set (jobs d)"

lemma worker_ops_inv:
  "db_inv d \<Longrightarrow> db_inv (fst (MarkRunning e i t d))"
  "db_inv d \<Longrightarrow> db_inv (fst (ExtendDeadline e i t dl d))"
  "db_inv d \<Longrightarrow> db_inv (fst (CompleteJob e i r t d))"
  "db_inv d \<Longrightarrow> db_inv (fst (FailJob e i r t m n d))"
  "db_inv d \<Longrightarrow> fresh_claim t r d \<Longrightarrow> db_inv (fst (TryClaim e r i w t dl d))"
  using db_inv_step[of d "Op_MarkRunning e i t"] db_inv_step[of d "Op_ExtendDeadline e i t dl"]
    db_inv_step[of d "Op_CompleteJob e i r t"] db_inv_step[of d "Op_FailJob e i r t m n"]
    db_inv_step[of d "Op_TryClaim e r i w t dl"] by (simp_all add: fresh_claim_def)

lemma heartbeats_inv:
  assumes "others_keep db_inv W" "db_inv (fst st)"
  shows "db_inv (fst (heartbeats R ustr W jobID token n i st))"
  using assms(2)
proof (induction n arbitrary: i st)
  case (Suc n)
  have "db_inv (fst (beat R ustr W jobID token i st))"
    using others_first[OF assms(1) Suc.prems, of i] worker_ops_inv(2)
    by (auto simp: beat_def split: prod.split)
  then show ?case using Suc.IH by simp
qed simp

lemma record_result_inv: "db_inv d \<Longrightarrow> db_inv (fst (record_result W intn runID token j execErr i d))"
  by (auto simp: record_result_def Let_def worker_ops_inv split: option.split)

lemma leave_processing_inv:
  assumes "others_keep db_inv W" "db_inv (fst st)"
  shows "db_inv (fst (leave_processing R ustr W w jobID i st))"
  using others_first[OF assms, of i] by (simp add: leave_processing_def case_prod_beta)

lemma run_claimed_inv:
  assumes "others_keep db_inv W" "db_inv (fst st)"
  shows "db_inv (fst (fst (run_claimed R ustr W workerID token runID intn exec n jobID j st)))"
proof -
  obtain d2 s2 where 2: "wOthers W 2 st = (d2, s2)" by (rule prod.exhaust)
  let ?st3 = "heartbeats R ustr W jobID token n 3 (fst (MarkRunning (ctx_env W 2) jobID token d2), s2)"
  obtain d4 s4 where 4: "wOthers W (n + 3) ?st3 = (d4, s4)" by (rule prod.exhaust)
  have "db_inv d2" using others_first[OF assms, of 2] 2 by simp
  then have "db_inv (fst ?st3)" by (intro heartbeats_inv[OF assms(1)]) (simp add: worker_ops_inv)
  then have "db_inv d4" using others_first[OF assms(1), of ?st3 "n + 3"] 4 by simp
  then have "db_inv (fst (record_result W intn runID token j (exec j) (n + 3) d4))" by (rule record_result_inv)
  then show ?thesis by (simp add: run_claimed_def 2 4 Let_def case_prod_beta leave_processing_inv[OF assms(1)])
qed

text \<open>Processing a job never breaks the database: whatever faults its calls meet, whatever the job's
  execution does, however many heartbeats run, and whatever consistent changes other processes make
  between the calls (reaping the job, claiming it again, cancelling), the database stays consistent.\<close>

lemma process_keeps_consistent:
  assumes "others_keep db_inv W" "db_inv (fst st)" "fresh_claim token runID (fst (wOthers W 0 st))"
  shows "db_inv (fst (fst (process R ustr W workerID token runID intn exec n jobID st)))"
proof -
  obtain d s where o: "wOthers W 0 st = (d, s)" by (cases "wOthers W 0 st")
  let ?dl = "go_now (wEnv W 0) + (visibilityTimeout + 30 * second)"
  obtain d1 res where c: "TryClaim (ctx_env W 0) runID jobID workerID token ?dl d = (d1, res)" by (rule prod.exhaust)
  have "db_inv d" using others_first[OF assms(1,2), of 0] o by simp
  then have d1: "db_inv (fst (d1, s))" using worker_ops_inv(5)[of d token runID] assms(3) o c by (metis fst_conv)
  then have st1: "db_inv (fst (wOthers W 1 (d1, s)))" using others_first[OF assms(1), of "(d1, s)" 1] by simp
  show ?thesis
    using st1 run_claimed_inv[OF assms(1) st1] leave_processing_inv[OF assms(1) d1]
    by (auto simp: process_def o Let_def c split: sum.split bool.split)
qed

section \<open>A worker that has lost its claim\<close>

lemma record_result_stale:
  assumes "unique_key jID (jobs d)" "token_of d (jID j) \<noteq> Some token"
  shows "fst (record_result W intn runID token j execErr i d) = d"
proof -
  have no: "\<forall>x \<in> set (jobs d). \<not> owns (jID j) token x" using stale_owns[OF assms] by blast
  have "fst (CompleteJob (ctx_env W i) (jID j) runID token d) = d"
    using no by (simp add: CompleteJob_def Let_def sql_update_noop rows_affected_0 split: option.split)
  moreover have "fst (FailJob (ctx_env W i) (jID j) runID token m nx d) = d" for m nx
    by (cases rule: FailJob_cases[of "ctx_env W i" "jID j" runID token m nx d]) (use no in auto)
  ultimately show ?thesis by (auto simp: record_result_def Let_def split: option.split)
qed

text \<open>A late worker is harmless: when the claim was lost before the result is recorded (the reaper took
  the job back, or another worker has it by now), recording success or failure changes nothing; the
  database stays exactly as the other processes leave it. The metrics still count the result.\<close>

lemma process_late_harmless:
  assumes "\<And>st. unique_key jID (jobs (fst (wOthers W (n + 3) st))) \<and>
      token_of (fst (wOthers W (n + 3) st)) jobID \<noteq> Some token"
    and "process R ustr W workerID token runID intn exec n jobID st = ((d', s'), ms)" "ms \<noteq> []"
  shows "\<exists>st' s1. d' = fst (wOthers W (n + 4) (fst (wOthers W (n + 3) st'), s1))"
proof -
  obtain rid j st1 where g: "GetJob (ctx_env W 1) jobID (fst st1) = Inr j"
    and p: "run_claimed R ustr W workerID token rid intn exec n jobID j st1 = ((d', s'), ms)"
    using assms(2,3) by (auto simp: process_def Let_def split: prod.splits sum.splits bool.splits)
  have id: "jID j = jobID"
    using g by (auto simp: GetJob_def query_def dest: jt.lookup_SomeD split: option.splits)
  obtain d2 s2 where 2: "wOthers W 2 st1 = (d2, s2)" by (rule prod.exhaust)
  let ?st3 = "heartbeats R ustr W jobID token n 3 (fst (MarkRunning (ctx_env W 2) jobID token d2), s2)"
  obtain d4 s4 where 4: "wOthers W (n + 3) ?st3 = (d4, s4)" by (rule prod.exhaust)
  have "fst (record_result W intn rid token j (exec j) (n + 3) d4) = d4"
    using assms(1)[of ?st3] 4 id by (intro record_result_stale) simp_all
  then have "d' = fst (wOthers W (n + 4) (d4, s4))"
    using p by (auto simp: run_claimed_def 2 4 Let_def leave_processing_def case_prod_beta)
  then show ?thesis using 4 by (metis fst_conv)
qed

section \<open>Processing on a healthy system\<close>

lemma MarkRunning_calm:
  assumes "calm e"
  shows "lookup jID k (jobs (fst (MarkRunning e i t d))) = map_option (\<lambda>j.
      if k = i \<and> jClaimToken j = Some t \<and> jState j = StateClaimed then j\<lparr>jState := StateRunning\<rparr> else j) (lookup jID k (jobs d))"
    and "job_runs (fst (MarkRunning e i t d)) = job_runs d"
    and "unique_key jID (jobs (fst (MarkRunning e i t d))) \<longleftrightarrow> unique_key jID (jobs d)"
  using assms
  by (simp_all add: MarkRunning_def lookup_row_update map_option_case jt.unique_update)

lemma ExtendDeadline_calm:
  assumes "calm e"
  shows "lookup jID k (jobs (fst (ExtendDeadline e i t dl d))) = map_option (\<lambda>j.
      if k = i \<and> jClaimToken j = Some t \<and> in_flight (jState j) then j\<lparr>jDeadline := Some dl\<rparr> else j) (lookup jID k (jobs d))"
    and "job_runs (fst (ExtendDeadline e i t dl d)) = job_runs d"
    and "unique_key jID (jobs (fst (ExtendDeadline e i t dl d))) \<longleftrightarrow> unique_key jID (jobs d)"
  using assms
  by (simp_all add: ExtendDeadline_def lookup_owns_update map_option_case jt.unique_update)

lemma Heartbeat_lists: "lists_ok R L \<Longrightarrow> L (fst (Heartbeat R ustr i t s)) = L s"
  unfolding Heartbeat_def lists_ok_def by (metis prod.exhaust_sel)

lemma RemoveFromProcessing_lists:
  assumes "lists_ok R L" "no_errors R"
  shows "L (fst (RemoveFromProcessing R ustr w i s)) =
    (L s)(processingPrefix @ w := removeAll (ustr i) (L s (processingPrefix @ w)))"
proof -
  obtain s' n where r: "LRem0 R (processingPrefix @ w) (ustr i) s = (s', Inr n)"
    using assms(2) unfolding no_errors_def by blast
  with LRem_cases[OF assms(1) r] show ?thesis by (simp add: RemoveFromProcessing_def)
qed

text \<open>Call \<open>i\<close> meets no fault and no interference, and the context is not done.\<close>

definition calm_at :: "'r world \<Rightarrow> nat \<Rightarrow> bool" where
  "calm_at W i \<longleftrightarrow> calm (wEnv W i) \<and> \<not> wDone W i \<and> (\<forall>st. wOthers W i st = st)"

lemma calm_at_ctx: "calm_at W i \<Longrightarrow> ctx_env W i = wEnv W i" "calm_at W i \<Longrightarrow> ctx_redis W i R = R"
  by (simp_all add: calm_at_def ctx_env_def ctx_redis_def)

lemma quiet_calm_at: "quiet W \<Longrightarrow> calm_at W i"
  by (simp add: quiet_def calm_at_def)

lemma heartbeats_calm_inv:
  assumes "\<And>x. x < m + n \<Longrightarrow> calm_at W x" "db_inv (fst st)"
  shows "db_inv (fst (heartbeats R ustr W i token n m st))"
  using assms
proof (induction n arbitrary: m st)
  case (Suc n)
  have "calm_at W m" using Suc.prems(1) by simp
  then have "db_inv (fst (beat R ustr W i token m st))"
    using Suc.prems(2) worker_ops_inv(2) by (cases st) (simp add: beat_def calm_at_def)
  then show ?case using Suc.IH[of "Suc m"] Suc.prems(1) by simp
qed simp

text \<open>\<open>d'\<close> is \<open>d\<close>, except that the deadline of job \<open>i\<close> may have moved.\<close>

definition deadline_moved :: "uuid \<Rightarrow> db \<Rightarrow> db \<Rightarrow> bool" where
  "deadline_moved i d d' \<longleftrightarrow> job_runs d' = job_runs d \<and> (unique_key jID (jobs d) \<longrightarrow> unique_key jID (jobs d')) \<and>
     (\<forall>k. k \<noteq> i \<longrightarrow> lookup jID k (jobs d') = lookup jID k (jobs d)) \<and>
     (\<forall>j. lookup jID i (jobs d) = Some j \<longrightarrow> (\<exists>dl. lookup jID i (jobs d') = Some (j\<lparr>jDeadline := dl\<rparr>)))"

lemma deadline_moved_trans:
  assumes "deadline_moved i d d'" "deadline_moved i d' d''"
  shows "deadline_moved i d d''"
proof -
  have "\<exists>dl. lookup jID i (jobs d'') = Some (j\<lparr>jDeadline := dl\<rparr>)" if "lookup jID i (jobs d) = Some j" for j
  proof -
    obtain dl where "lookup jID i (jobs d') = Some (j\<lparr>jDeadline := dl\<rparr>)"
      using assms(1) \<open>lookup jID i (jobs d) = Some j\<close> unfolding deadline_moved_def by blast
    then obtain dl' where "lookup jID i (jobs d'') = Some (j\<lparr>jDeadline := dl, jDeadline := dl'\<rparr>)"
      using assms(2) unfolding deadline_moved_def by blast
    then show ?thesis by auto
  qed
  then show ?thesis using assms unfolding deadline_moved_def by simp
qed

lemma deadline_moved_refl: "deadline_moved i d d"
proof -
  have "Some j = Some (j\<lparr>jDeadline := jDeadline j\<rparr>)" for j :: job by simp
  then show ?thesis unfolding deadline_moved_def by metis
qed

lemma beat_moves:
  assumes "calm_at W m" "lists_ok R L"
  shows "deadline_moved i d (fst (beat R ustr W i token m (d, s)))" "L (snd (beat R ustr W i token m (d, s))) = L s"
proof -
  have b: "beat R ustr W i token m (d, s) =
      (fst (ExtendDeadline (wEnv W m) i token (go_now (wEnv W m) + HeartbeatTTL) d), fst (Heartbeat R ustr i (ustr token) s))"
    using assms(1) calm_at_ctx[OF assms(1)] by (simp add: beat_def calm_at_def)
  have c: "calm (wEnv W m)" using assms(1) by (simp add: calm_at_def)
  show "deadline_moved i d (fst (beat R ustr W i token m (d, s)))"
  proof (cases "\<exists>j. lookup jID i (jobs d) = Some j \<and> jClaimToken j = Some token \<and> in_flight (jState j)")
    case True
    then show ?thesis
      unfolding b deadline_moved_def fst_conv ExtendDeadline_calm[OF c]
      by (auto simp: option.map_ident)
  next
    case False
    have "lookup jID k (jobs (fst (ExtendDeadline (wEnv W m) i token (go_now (wEnv W m) + HeartbeatTTL) d))) =
        lookup jID k (jobs d)" for k
      unfolding ExtendDeadline_calm[OF c] using False
      by (cases "lookup jID k (jobs d)") auto
    then show ?thesis
      using deadline_moved_refl[of i d] unfolding b deadline_moved_def fst_conv
      by (simp add: ExtendDeadline_calm(2,3)[OF c])
  qed
  show "L (snd (beat R ustr W i token m (d, s))) = L s"
    by (simp add: b Heartbeat_lists[OF assms(2)])
qed

lemma heartbeats_move:
  assumes "\<And>x. m \<le> x \<Longrightarrow> x < m + n \<Longrightarrow> calm_at W x" "lists_ok R L"
  shows "deadline_moved i d (fst (heartbeats R ustr W i token n m (d, s))) \<and>
    L (snd (heartbeats R ustr W i token n m (d, s))) = L s"
  using assms(1)
proof (induction n arbitrary: m d s)
  case 0
  then show ?case by (simp add: deadline_moved_refl)
next
  case (Suc n)
  obtain d1 s1 where b: "beat R ustr W i token m (d, s) = (d1, s1)" by (rule prod.exhaust)
  have "calm_at W m" using Suc.prems[of m] by simp
  then show ?case
    using b Suc.IH[of "Suc m" d1 s1] Suc.prems beat_moves[OF _ assms(2), where W = W and i = i and d = d and s = s and m = m and token = token and ustr = ustr]
      deadline_moved_trans[of i d d1] by simp
qed

text \<open>The row of a job that has been claimed by \<open>process\<close>.\<close>

definition claimed_by :: "'r world \<Rightarrow> string \<Rightarrow> uuid \<Rightarrow> job \<Rightarrow> job" where
  "claimed_by W w token j =
     claim_row (go_now (wEnv W 0)) w token (go_now (wEnv W 0) + (visibilityTimeout + 30 * second)) j"

lemma new_run_lookup:
  assumes "fresh_claim token runID d"
  shows "lookup rID runID (job_runs d @ [new_run runID now j]) = Some (new_run runID now j)"
proof -
  have "lookup rID runID (job_runs d) = None" using assms by (auto simp: fresh_claim_def rt.lookup_None)
  then show ?thesis by (simp add: rt.lookup_append new_run_def)
qed

text \<open>Up to the end of the execution, when the calls so far met no fault and no other process interfered.\<close>

lemma process_executed:
  assumes "\<And>x. x < n + 3 \<Longrightarrow> calm_at W x" "lists_ok R L" "db_inv d" "lookup jID i (jobs d) = Some j"
    "jState j = StatePending" "\<not> locked (wEnv W 0)" "fresh_claim token runID d"
  obtains d4 s4 dl where "process R ustr W w token runID intn exec n i (d, s) =
      (case wOthers W (n + 3) (d4, s4) of (d4, s4) \<Rightarrow>
       case record_result W intn runID token (claimed_by W w token j) (exec (claimed_by W w token j)) (n + 3) d4 of
         (d5, ms) \<Rightarrow> (leave_processing R ustr W w i (n + 4) (d5, s4), [WorkerInFlight 1, WorkerInFlight (- 1)] @ ms))"
    "L s4 = L s" "unique_key jID (jobs d4)" "unique_key rID (job_runs d4)"
    "lookup jID i (jobs d4) = Some ((claimed_by W w token j)\<lparr>jState := StateRunning, jDeadline := dl\<rparr>)"
    "\<And>k. k \<noteq> i \<Longrightarrow> lookup jID k (jobs d4) = lookup jID k (jobs d)"
    "lookup rID runID (job_runs d4) = Some (new_run runID (go_now (wEnv W 0)) (claimed_by W w token j))"
    "db_inv d4"
proof -
  let ?row = "claimed_by W w token j"
  let ?dl = "go_now (wEnv W 0) + (visibilityTimeout + 30 * second)"
  have u: "unique_key jID (jobs d)" "unique_key rID (job_runs d)" using assms(3) by (simp_all add: db_inv_def)
  have k: "calm (wEnv W x)" "wOthers W x st = st" if "x < n + 3" for x st
    using assms(1)[OF that] by (cases st; simp add: calm_at_def)+
  have k0: "calm (wEnv W 0)" "calm (wEnv W (Suc 0))" "calm (wEnv W 2)" using k(1) by simp_all
  have x: "ctx_env W 0 = wEnv W 0" "ctx_env W (Suc 0) = wEnv W (Suc 0)" "ctx_env W 2 = wEnv W 2"
    using calm_at_ctx(1)[OF assms(1)] by simp_all
  obtain d1 where c: "TryClaim (wEnv W 0) runID i w token ?dl d = (d1, Inr (True, runID))"
      "\<forall>k. lookup jID k (jobs d1) = (if k = i then Some ?row else lookup jID k (jobs d))"
      "job_runs d1 = job_runs d @ [new_run runID (go_now (wEnv W 0)) ?row]"
    using TryClaim_outcome[OF k0(1) assms(6) u(1) assms(4,5)] unfolding claimed_by_def by blast
  have i1: "db_inv d1" using worker_ops_inv(5)[OF assms(3,7), of "wEnv W 0" i w ?dl] c(1) by simp
  then have u1: "unique_key jID (jobs d1)" by (simp add: db_inv_def)
  have g: "GetJob (wEnv W (Suc 0)) i d1 = Inr ?row" using k0(2) c(2) by (simp add: GetJob_def)
  define d3 where "d3 = fst (MarkRunning (wEnv W 2) i token d1)"
  note m = MarkRunning_calm[OF k0(3), where d = d1 and i = i and t = token, folded d3_def]
  have row: "jClaimToken ?row = Some token" "jState ?row = StateClaimed"
    by (simp_all add: claimed_by_def claim_row_def)
  obtain d4 s4 where h: "heartbeats R ustr W i token n 3 (d3, s) = (d4, s4)" by (rule prod.exhaust)
  then have moved: "deadline_moved i d3 d4" "L s4 = L s"
    using heartbeats_move[OF assms(1) assms(2), where i = i and d = d3 and s = s and m = 3 and n = n and token = token and ustr = ustr]
    by simp_all
  have "db_inv d3" unfolding d3_def using i1 by (rule worker_ops_inv)
  then have i4: "db_inv d4" 
    using heartbeats_calm_inv[of 3 n W "(d3, s)" R ustr i token] assms(1) h by (simp add: add.commute)
  have "lookup jID i (jobs d3) = Some (?row\<lparr>jState := StateRunning\<rparr>)"
    using m(1)[of i] c(2) row by simp
  then obtain dl where dl: "lookup jID i (jobs d4) = Some (?row\<lparr>jState := StateRunning, jDeadline := dl\<rparr>)"
    using moved(1) unfolding deadline_moved_def by blast
  have "lookup jID k (jobs d4) = lookup jID k (jobs d)" if "k \<noteq> i" for k
    using moved(1) m(1)[of k] c(2) that by (simp add: deadline_moved_def option.map_ident)
  moreover have r4: "job_runs d4 = job_runs d @ [new_run runID (go_now (wEnv W 0)) ?row]"
    using moved(1) m(2) c(3) by (simp add: deadline_moved_def)
  moreover have "unique_key jID (jobs d4)"
    using moved(1) m(3) u1 by (simp add: deadline_moved_def)
  moreover have "unique_key rID (job_runs d4)"
    using u(2) assms(7) by (auto simp: r4 unique_key_def fresh_claim_def new_run_def)
  moreover have "process R ustr W w token runID intn exec n i (d, s) =
      (case wOthers W (n + 3) (d4, s4) of (d4, s4) \<Rightarrow>
       case record_result W intn runID token ?row (exec ?row) (n + 3) d4 of
         (d5, ms) \<Rightarrow> (leave_processing R ustr W w i (n + 4) (d5, s4), [WorkerInFlight 1, WorkerInFlight (- 1)] @ ms))"
    by (simp add: process_def run_claimed_def x k(2) c(1) g d3_def[symmetric] h Let_def)
  moreover have "lookup rID runID (job_runs d4) = Some (new_run runID (go_now (wEnv W 0)) ?row)"
    using new_run_lookup[OF assms(7)] r4 by simp
  ultimately show thesis using that moved(2) dl i4 by blast
qed

lemma process_claimed:
  assumes "quiet W" "lists_ok R L" "no_errors R" "db_inv d" "lookup jID i (jobs d) = Some j"
    "jState j = StatePending" "\<not> locked (wEnv W 0)" "fresh_claim token runID d"
  obtains d4 s4 dl where "process R ustr W w token runID intn exec n i (d, s) =
      (case record_result W intn runID token (claimed_by W w token j) (exec (claimed_by W w token j)) (n + 3) d4 of
         (d5, ms) \<Rightarrow> ((d5, fst (RemoveFromProcessing R ustr w i s4)), [WorkerInFlight 1, WorkerInFlight (- 1)] @ ms))"
    "L s4 = L s" "unique_key jID (jobs d4)" "unique_key rID (job_runs d4)"
    "lookup jID i (jobs d4) = Some ((claimed_by W w token j)\<lparr>jState := StateRunning, jDeadline := dl\<rparr>)"
    "\<And>k. k \<noteq> i \<Longrightarrow> lookup jID k (jobs d4) = lookup jID k (jobs d)"
    "lookup rID runID (job_runs d4) = Some (new_run runID (go_now (wEnv W 0)) (claimed_by W w token j))"
proof (rule process_executed[OF quiet_calm_at[OF assms(1)] assms(2,4-8), where n = n and ustr = ustr and w = w
      and intn = intn and exec = exec and s = s], unfold quietD(2)[OF assms(1)] quiet_ctx(2)[OF assms(1)] leave_processing_def prod.case)
qed (rule that)

lemma claimed_by_fields:
  "jID (claimed_by W w token j) = jID j" "jType (claimed_by W w token j) = jType j"
  "jPayload (claimed_by W w token j) = jPayload j" "jTenantID (claimed_by W w token j) = jTenantID j"
  "jAttempt (claimed_by W w token j) = jAttempt j" "jMaxRetries (claimed_by W w token j) = jMaxRetries j"
  "jBackoffSeconds (claimed_by W w token j) = jBackoffSeconds j" "jClaimToken (claimed_by W w token j) = Some token"
  by (simp_all add: claimed_by_def claim_row_def)

text \<open>Processing a pending job whose execution succeeds: the job ends as succeeded, with the worker that
  claimed it and its completion time and without token or deadline, its run is closed as succeeded,
  no other job changes, the entry leaves the worker's processing list, no other list changes, and
  one success is counted, however many heartbeats ran.\<close>

lemma process_success:
  assumes "quiet W" "lists_ok R L" "no_errors R" "db_inv d" "lookup jID i (jobs d) = Some j"
    and "jState j = StatePending" "\<not> locked (wEnv W 0)" "fresh_claim token runID d"
    and "duration_ms (go_now (wEnv W (n + 3))) (go_now (wEnv W 0)) = Some ms"
    and "\<And>x. jType x = jType j \<Longrightarrow> jPayload x = jPayload j \<Longrightarrow> exec x = None"
  shows "\<exists>d' s'. process R ustr W w token runID intn exec n i (d, s) =
      ((d', s'), job_report (jType j) ''succeeded'' (jTenantID j)) \<and>
    (\<forall>k. lookup jID k (jobs d') = (if k = i then Some (j\<lparr>jState := StateSucceeded,
        jClaimedAt := Some (go_now (wEnv W 0)), jClaimedBy := Some w, jClaimToken := None, jDeadline := None,
        jCompletedAt := Some (go_now (wEnv W (n + 3)))\<rparr>) else lookup jID k (jobs d))) \<and>
    map_option (\<lambda>r. (rJobID r, rState r, rDurationMs r)) (lookup rID runID (job_runs d')) = Some (i, StateSucceeded, Some ms) \<and>
    L s' = (L s)(processingPrefix @ w := removeAll (ustr i) (L s (processingPrefix @ w)))"
proof -
  let ?row = "claimed_by W w token j"
  obtain d4 s4 dl where p: "process R ustr W w token runID intn exec n i (d, s) =
      (case record_result W intn runID token ?row (exec ?row) (n + 3) d4 of
         (d5, ms) \<Rightarrow> ((d5, fst (RemoveFromProcessing R ustr w i s4)), [WorkerInFlight 1, WorkerInFlight (- 1)] @ ms))"
    and d4: "L s4 = L s" "unique_key jID (jobs d4)" "unique_key rID (job_runs d4)"
      "lookup jID i (jobs d4) = Some (?row\<lparr>jState := StateRunning, jDeadline := dl\<rparr>)"
      "\<And>k. k \<noteq> i \<Longrightarrow> lookup jID k (jobs d4) = lookup jID k (jobs d)"
      "lookup rID runID (job_runs d4) = Some (new_run runID (go_now (wEnv W 0)) ?row)"
    by (rule process_claimed[OF assms(1-8)]) (rule that, assumption+)
  have id: "jID j = i" using jt.lookup_SomeD[OF assms(5)] by simp
  have "in_flight (jState (?row\<lparr>jState := StateRunning, jDeadline := dl\<rparr>))"
    "jClaimToken (?row\<lparr>jState := StateRunning, jDeadline := dl\<rparr>) = Some token"
    "duration_ms (go_now (wEnv W (n + 3))) (rStartedAt (new_run runID (go_now (wEnv W 0)) ?row)) = Some ms"
    using assms(9) by (simp_all add: in_flight_def claimed_by_fields new_run_def)
  from CompleteJob_outcome[OF quietD(1)[OF assms(1)] d4(2,3,4) this(2,1) d4(6) this(3)]
  obtain d' where d': "CompleteJob (wEnv W (n + 3)) i runID token d4 = (d', Inr ())"
      "\<forall>k. lookup jID k (jobs d') = (if k = i then Some (?row\<lparr>jState := StateRunning, jDeadline := dl,
        jState := StateSucceeded, jCompletedAt := Some (go_now (wEnv W (n + 3))), jClaimToken := None, jDeadline := None\<rparr>)
        else lookup jID k (jobs d4))"
      "\<forall>k. lookup rID k (job_runs d') = (if k = runID then Some ((new_run runID (go_now (wEnv W 0)) ?row)\<lparr>
        rState := StateSucceeded, rFinishedAt := Some (go_now (wEnv W (n + 3))), rDurationMs := Some ms\<rparr>)
        else lookup rID k (job_runs d4))"
    by blast
  have "exec ?row = None" using assms(10) by (simp add: claimed_by_fields)
  then have proc: "process R ustr W w token runID intn exec n i (d, s) =
      ((d', fst (RemoveFromProcessing R ustr w i s4)), job_report (jType j) ''succeeded'' (jTenantID j))"
    using p d'(1) id by (simp add: record_result_def claimed_by_fields job_report_def quiet_ctx[OF assms(1)])
  have rows: "lookup jID k (jobs d') = (if k = i then Some (j\<lparr>jState := StateSucceeded,
        jClaimedAt := Some (go_now (wEnv W 0)), jClaimedBy := Some w, jClaimToken := None, jDeadline := None,
        jCompletedAt := Some (go_now (wEnv W (n + 3)))\<rparr>) else lookup jID k (jobs d))" for k
    using d'(2) d4(5) by (simp add: claimed_by_def claim_row_def)
  have run: "map_option (\<lambda>r. (rJobID r, rState r, rDurationMs r)) (lookup rID runID (job_runs d')) =
      Some (i, StateSucceeded, Some ms)"
    using d'(3) id by (simp add: new_run_def claimed_by_fields)
  show ?thesis
    by (intro exI[of _ d'] exI[of _ "fst (RemoveFromProcessing R ustr w i s4)"] conjI allI proc rows run)
      (simp add: RemoveFromProcessing_lists[OF assms(2,3)] d4(1))
qed

text \<open>C17. Processing a pending job whose execution fails: with attempts left the job becomes failed and is
  retried at the backoff time, otherwise it is dead; the error is kept and the attempt counted. The
  metrics do not agree with that: they decide by \<open>attempt < max_retries\<close>, not by the incremented counter,
  so the attempt that kills the job is counted as a failure with a retry, and \<open>dead\<close> is counted only for
  jobs without any retry.\<close>

theorem process_failure:
  assumes "quiet W" "lists_ok R L" "no_errors R" "db_inv d" "lookup jID i (jobs d) = Some j"
    and "jState j = StatePending" "\<not> locked (wEnv W 0)" "fresh_claim token runID d"
    and "duration_ms (go_now (wEnv W (n + 3))) (go_now (wEnv W 0)) = Some ms"
    and "\<And>x. jType x = jType j \<Longrightarrow> jPayload x = jPayload j \<Longrightarrow> exec x = Some msg"
  shows "\<exists>d' s' x. process R ustr W w token runID intn exec n i (d, s) =
      ((d', s'), job_report (jType j) (if jAttempt j < jMaxRetries j then ''failed'' else ''dead'') (jTenantID j)) \<and>
    lookup jID i (jobs d') = Some x \<and> jAttempt x = jAttempt j + 1 \<and> jLastError x = Some msg \<and> jClaimToken x = None \<and>
    (if jAttempt j + 1 < jMaxRetries j
     then jState x = StateFailed \<and>
       jRunAt x = NextRetryAt intn (jAttempt j + 1) (jBackoffSeconds j) (go_now (wEnv W (n + 3)))
     else jState x = StateDead) \<and>
    (\<forall>k. k \<noteq> i \<longrightarrow> lookup jID k (jobs d') = lookup jID k (jobs d))"
proof -
  let ?row = "claimed_by W w token j"
  let ?nx = "if jAttempt j < jMaxRetries j
    then Some (NextRetryAt intn (jAttempt j + 1) (jBackoffSeconds j) (go_now (wEnv W (n + 3)))) else None"
  obtain d4 s4 dl where p: "process R ustr W w token runID intn exec n i (d, s) =
      (case record_result W intn runID token ?row (exec ?row) (n + 3) d4 of
         (d5, ms) \<Rightarrow> ((d5, fst (RemoveFromProcessing R ustr w i s4)), [WorkerInFlight 1, WorkerInFlight (- 1)] @ ms))"
    and d4: "L s4 = L s" "unique_key jID (jobs d4)" "unique_key rID (job_runs d4)"
      "lookup jID i (jobs d4) = Some (?row\<lparr>jState := StateRunning, jDeadline := dl\<rparr>)"
      "\<And>k. k \<noteq> i \<Longrightarrow> lookup jID k (jobs d4) = lookup jID k (jobs d)"
      "lookup rID runID (job_runs d4) = Some (new_run runID (go_now (wEnv W 0)) ?row)"
    by (rule process_claimed[OF assms(1-8)]) (rule that, assumption+)
  have id: "jID j = i" using jt.lookup_SomeD[OF assms(5)] by simp
  have "in_flight (jState (?row\<lparr>jState := StateRunning, jDeadline := dl\<rparr>))"
    "jClaimToken (?row\<lparr>jState := StateRunning, jDeadline := dl\<rparr>) = Some token"
    "duration_ms (go_now (wEnv W (n + 3))) (rStartedAt (new_run runID (go_now (wEnv W 0)) ?row)) = Some ms"
    using assms(9) by (simp_all add: in_flight_def claimed_by_fields new_run_def)
  note out = FailJob_outcome[OF quietD(1)[OF assms(1)] d4(2,3,4) this(2,1) d4(6) this(3), of msg ?nx]
  then obtain d' x where d': "FailJob (wEnv W (n + 3)) i runID token msg ?nx d4 = (d', Inr ())"
      "lookup jID i (jobs d') = Some x" "jAttempt x = jAttempt j + 1 \<and> jLastError x = Some msg \<and> jClaimToken x = None"
      "if jAttempt j + 1 < jMaxRetries j then jState x = StateFailed \<and> jRunAt x = the ?nx else jState x = StateDead"
      "\<forall>k. k \<noteq> i \<longrightarrow> lookup jID k (jobs d') = lookup jID k (jobs d4)"
    by (auto simp: claimed_by_fields)
  have "exec ?row = Some msg" using assms(10) by (simp add: claimed_by_fields)
  then have "process R ustr W w token runID intn exec n i (d, s) =
      ((d', fst (RemoveFromProcessing R ustr w i s4)), job_report (jType j) (if jAttempt j < jMaxRetries j then ''failed'' else ''dead'') (jTenantID j))"
    using d'(1) id unfolding p record_result_def claimed_by_fields ShouldRetry_def Let_def by (simp add: job_report_def quiet_ctx[OF assms(1)])
  moreover have "if jAttempt j + 1 < jMaxRetries j
     then jState x = StateFailed \<and>
       jRunAt x = NextRetryAt intn (jAttempt j + 1) (jBackoffSeconds j) (go_now (wEnv W (n + 3)))
     else jState x = StateDead"
    using d'(4) by (simp split: if_splits)
  ultimately show ?thesis using d'(2,3,5) d4(5) by metis
qed

theorem process_failure_witness:
  "let W = alone (\<lambda>i. demo_env (int i * second));
       d = demo_empty\<lparr>jobs := [(demo_job 7)\<lparr>jAttempt := 1\<rparr>]\<rparr> in
   \<exists>d' s'. process mem_redis ref_ustr W ''w'' 4 3 (\<lambda>_. 0) (\<lambda>_. Some ''boom'') 2 7 (d, mem_empty) =
       ((d', s'), job_report ''webhook'' ''failed'' 1) \<and>
     map_option jState (lookup jID 7 (jobs d')) = Some StateDead"
proof -
  let ?W = "alone (\<lambda>i. demo_env (int i * second)) :: mem world"
  let ?j = "(demo_job 7)\<lparr>jAttempt := 1\<rparr>" let ?d = "demo_empty\<lparr>jobs := [?j]\<rparr>"
  have q: "quiet ?W" by (simp add: quiet_def calm_def demo_env_def)
  have "job_wf ?j" by code_simp
  then have i: "db_inv ?d"
    by (simp add: db_inv_def unique_key_def keys_unique_def tokens_unique_def demo_empty_def)
  have j: "lookup jID 7 (jobs ?d) = Some ?j" "jState ?j = StatePending" by code_simp+
  have l: "\<not> locked (wEnv ?W 0)" by (simp add: demo_env_def)
  have f: "fresh_claim 4 3 ?d" by code_simp
  have ms: "duration_ms (go_now (wEnv ?W (2 + 3))) (go_now (wEnv ?W 0)) = Some 5000" by code_simp
  have t: "jType ?j = ''webhook''" "jTenantID ?j = 1" "jAttempt ?j = 1" "jMaxRetries ?j = 2" by code_simp+
  from process_failure[OF q mem_redis_lists_ok mem_redis_no_errors i j l f ms,
      of "\<lambda>_. Some ''boom''" "''boom''" ref_ustr "''w''" "\<lambda>_. 0" mem_empty]
  obtain d' s' where "process mem_redis ref_ustr ?W ''w'' 4 3 (\<lambda>_. 0) (\<lambda>_. Some ''boom'') 2 7 (?d, mem_empty) =
       ((d', s'), job_report ''webhook'' ''failed'' 1)"
      "map_option jState (lookup jID 7 (jobs d')) = Some StateDead"
    unfolding t by force
  then show ?thesis unfolding Let_def by blast
qed

section \<open>Processing, whatever fails\<close>

text \<open>Between the claim and the result the row of job \<open>i\<close> is the claimed row \<open>c\<close>, in flight with some deadline, and
  the other rows are those of \<open>d0\<close>.\<close>

definition in_hand :: "uuid \<Rightarrow> job \<Rightarrow> db \<Rightarrow> db \<Rightarrow> bool" where
  "in_hand i c d0 d \<longleftrightarrow> unique_key jID (jobs d) \<and> (\<forall>k. k \<noteq> i \<longrightarrow> lookup jID k (jobs d) = lookup jID k (jobs d0)) \<and>
     (\<exists>st dl. in_flight st \<and> lookup jID i (jobs d) = Some (c\<lparr>jState := st, jDeadline := dl\<rparr>))"

lemma in_hand_other: "in_hand i c d0 d \<Longrightarrow> k \<noteq> i \<Longrightarrow> lookup jID k (jobs d) = lookup jID k (jobs d0)"
  by (simp add: in_hand_def)

lemma MarkRunning_in_hand:
  assumes "in_hand i c d0 d"
  shows "in_hand i c d0 (fst (MarkRunning e i t d))"
proof -
  let ?d = "d\<lparr>jobs := sql_update (\<lambda>j. jID j = i \<and> jClaimToken j = Some t \<and> jState j = StateClaimed)
      (\<lambda>j. j\<lparr>jState := StateRunning\<rparr>) (jobs d)\<rparr>"
  obtain st dl where x: "in_flight st" "lookup jID i (jobs d) = Some (c\<lparr>jState := st, jDeadline := dl\<rparr>)"
    using assms unfolding in_hand_def by blast
  have "\<exists>st' dl'. in_flight st' \<and> lookup jID i (jobs ?d) = Some (c\<lparr>jState := st', jDeadline := dl'\<rparr>)"
  proof (cases "jClaimToken c = Some t \<and> st = StateClaimed")
    case True
    then show ?thesis using x by (intro exI[of _ StateRunning] exI[of _ dl]) (simp add: lookup_row_update in_flight_def)
  next
    case False
    then show ?thesis using x by (intro exI[of _ st] exI[of _ dl]) (simp add: lookup_row_update)
  qed
  moreover have "lookup jID k (jobs ?d) = lookup jID k (jobs d0)" if "k \<noteq> i" for k
    using that in_hand_other[OF assms that] by (simp add: lookup_row_update split: option.split)
  moreover have "unique_key jID (jobs ?d)" using assms by (simp add: in_hand_def jt.unique_update)
  ultimately have "in_hand i c d0 ?d" unfolding in_hand_def by blast
  moreover have "fst (MarkRunning e i t d) \<in> {d, ?d}"
    by (simp add: MarkRunning_def autocommit_def split: option.split)
  ultimately show ?thesis using assms by (elim insertE emptyE) (simp_all only:)
qed

lemma ExtendDeadline_in_hand:
  assumes "in_hand i c d0 d"
  shows "in_hand i c d0 (fst (ExtendDeadline e i t dl0 d))"
proof -
  let ?d = "d\<lparr>jobs := sql_update (owns i t) (\<lambda>j. j\<lparr>jDeadline := Some dl0\<rparr>) (jobs d)\<rparr>"
  obtain st dl where x: "in_flight st" "lookup jID i (jobs d) = Some (c\<lparr>jState := st, jDeadline := dl\<rparr>)"
    using assms unfolding in_hand_def by blast
  have "\<exists>st' dl'. in_flight st' \<and> lookup jID i (jobs ?d) = Some (c\<lparr>jState := st', jDeadline := dl'\<rparr>)"
    using x by (intro exI[of _ st] exI[of _ "if jClaimToken c = Some t then Some dl0 else dl"])
      (auto simp: lookup_owns_update)
  then have "in_hand i c d0 ?d"
    using assms by (auto simp: in_hand_def jt.unique_update lookup_owns_update split: option.split)
  moreover have "fst (ExtendDeadline e i t dl0 d) \<in> {d, ?d}"
    by (simp add: ExtendDeadline_def autocommit_def split: option.split)
  ultimately show ?thesis using assms by (elim insertE emptyE) (simp_all only:)
qed

lemma heartbeats_in_hand:
  assumes "\<And>x st. wOthers W x st = st" "in_hand i c d0 (fst st)"
  shows "in_hand i c d0 (fst (heartbeats R ustr W i t n m st))"
  using assms(2)
proof (induction n arbitrary: m st)
  case (Suc n)
  have "in_hand i c d0 (fst (beat R ustr W i t m st))"
    using ExtendDeadline_in_hand[OF Suc.prems] by (simp add: beat_def assms(1) case_prod_beta)
  then show ?case using Suc.IH by simp
qed simp

text \<open>What may be recorded of an execution of \<open>c\<close> with outcome \<open>ee\<close>: nothing, or that outcome.\<close>

definition settled :: "uuid \<Rightarrow> job \<Rightarrow> string option \<Rightarrow> job \<Rightarrow> bool" where
  "settled token c ee x \<longleftrightarrow>
     in_flight (jState x) \<and> jClaimToken x = Some token \<and> jAttempt x = jAttempt c \<or>
     ee = None \<and> jState x = StateSucceeded \<and> jClaimToken x = None \<and> jAttempt x = jAttempt c \<or>
     (\<exists>m. ee = Some m \<and> jState x = (if jAttempt c + 1 < jMaxRetries c then StateFailed else StateDead) \<and>
        jClaimToken x = None \<and> jAttempt x = jAttempt c + 1 \<and> jLastError x = Some m)"

lemma record_result_settles:
  assumes "in_hand i c d0 d" "jID c = i" "jClaimToken c = Some token"
  shows "(\<forall>k. k \<noteq> i \<longrightarrow> lookup jID k (jobs (fst (record_result W intn r token c ee m d))) = lookup jID k (jobs d0)) \<and>
    (\<exists>x. lookup jID i (jobs (fst (record_result W intn r token c ee m d))) = Some x \<and> settled token c ee x)"
proof -
  obtain st dl where x: "in_flight st" "lookup jID i (jobs d) = Some (c\<lparr>jState := st, jDeadline := dl\<rparr>)"
    and u: "unique_key jID (jobs d)" using assms(1) unfolding in_hand_def by blast
  have same: ?thesis if "fst (record_result W intn r token c ee m d) = d"
    using x in_hand_other[OF assms(1)] assms(3) by (auto simp: that settled_def)
  show ?thesis
  proof (cases ee)
    case None
    then have e: "fst (record_result W intn r token c ee m d) = fst (CompleteJob (ctx_env W m) i r token d)"
      by (simp add: record_result_def assms(2))
    show ?thesis
    proof (cases rule: CompleteJob_cases[of "ctx_env W m" i r token d])
      case (completed rs)
      then have l: "lookup jID k (jobs (fst (record_result W intn r token c ee m d))) =
          (case lookup jID k (jobs d) of None \<Rightarrow> None | Some y \<Rightarrow>
             Some (if k = i \<and> jClaimToken y = Some token \<and> in_flight (jState y) then complete_row (go_now (ctx_env W m)) y else y))" for k
        by (simp add: e lookup_owns_update)
      then show ?thesis
        using x in_hand_other[OF assms(1)] assms(3) None by (auto simp: settled_def complete_row_def split: option.split)
    qed (use same e in simp)
  next
    case (Some msg)
    then obtain nx where e: "fst (record_result W intn r token c ee m d) = fst (FailJob (ctx_env W m) i r token msg nx d)"
      by (auto simp: record_result_def assms(2) Let_def)
    show ?thesis
    proof (cases rule: FailJob_cases[of "ctx_env W m" i r token msg nx d])
      case (failed cur st' rs)
      have "cur = c\<lparr>jState := st, jDeadline := dl\<rparr>"
        using jt.lookup_unique[OF u failed(1)] failed(2) x(2) by (simp add: owns_def)
      then have st': "st' = (if jAttempt c + 1 < jMaxRetries c then StateFailed else StateDead)" "jAttempt cur = jAttempt c"
        using failed(3) by auto
      have "lookup jID k (jobs (fst (record_result W intn r token c ee m d))) =
          (case lookup jID k (jobs d) of None \<Rightarrow> None | Some y \<Rightarrow>
             Some (if k = i then fail_row st' (jAttempt cur + 1) msg (if st' = StateDead then None else nx) y else y))" for k
        by (simp add: e failed(4) lookup_key_update)
      then show ?thesis
        using x in_hand_other[OF assms(1)] Some by (auto simp: settled_def fail_row_def st' split: option.split)
    qed (use same e in simp)
  qed
qed

lemma record_result_report:
  "[WorkerInFlight 1, WorkerInFlight (- 1)] @ snd (record_result W intn r token c ee m d) = job_report (jType c)
     (case ee of None \<Rightarrow> ''succeeded'' | Some _ \<Rightarrow> if jAttempt c < jMaxRetries c then ''failed'' else ''dead'') (jTenantID c)"
  by (cases ee) (simp_all add: record_result_def job_report_def Let_def ShouldRetry_def)

lemma run_claimed_settles:
  assumes "\<And>x st. wOthers W x st = st" "in_hand i c d0 d" "jID c = i" "jClaimToken c = Some token"
    and "run_claimed R ustr W w token r intn exec n i c (d, s) = ((d', s'), ms)"
  shows "(\<forall>k. k \<noteq> i \<longrightarrow> lookup jID k (jobs d') = lookup jID k (jobs d0)) \<and>
    (\<exists>x. lookup jID i (jobs d') = Some x \<and> settled token c (exec c) x) \<and>
    ms = job_report (jType c) (case exec c of None \<Rightarrow> ''succeeded'' | Some _ \<Rightarrow>
      if jAttempt c < jMaxRetries c then ''failed'' else ''dead'') (jTenantID c)"
proof -
  obtain d3 s3 where h: "heartbeats R ustr W i token n 3 (fst (MarkRunning (ctx_env W 2) i token d), s) = (d3, s3)"
    by (rule prod.exhaust)
  have "in_hand i c d0 (fst (fst (MarkRunning (ctx_env W 2) i token d), s))" using MarkRunning_in_hand[OF assms(2)] by simp
  then have "in_hand i c d0 d3" using heartbeats_in_hand[OF assms(1)] h by (metis fst_conv)
  note s = record_result_settles[OF this assms(3,4), of W intn r "exec c" "n + 3"]
  have "d' = fst (record_result W intn r token c (exec c) (n + 3) d3)"
    "ms = [WorkerInFlight 1, WorkerInFlight (- 1)] @ snd (record_result W intn r token c (exec c) (n + 3) d3)"
    using assms(5) by (auto simp: run_claimed_def leave_processing_def assms(1) h case_prod_beta)
  then show ?thesis using s unfolding record_result_report by blast
qed

text \<open>The claim: unless it returns true nothing is executed; if it had an effect the job was pending.\<close>

lemma TryClaim_true: "snd (TryClaim e r i w t dl d) = Inr (True, rid) \<Longrightarrow>
    \<exists>j \<in> set (jobs d). jID j = i \<and> jState j = StatePending"
  and TryClaim_true_db: "snd (TryClaim e r i w t dl d) = Inr (True, rid) \<Longrightarrow>
    fst (TryClaim e r i w t dl d) = claimed_db (go_now e) r i w t dl d"
  by (auto simp: TryClaim_def in_tx_def autocommit_def split: option.splits if_splits)

lemma claimed_in_hand:
  assumes "unique_key jID (jobs d)" "lookup jID i (jobs d) = Some j"
  shows "in_hand i (claim_row now w t dl j) d (claimed_db now r i w t dl d)"
    and "lookup jID i (jobs (claimed_db now r i w t dl d)) = Some (claim_row now w t dl j)"
proof -
  have l: "lookup jID k (jobs (claimed_db now r i w t dl d)) =
      (case lookup jID k (jobs d) of None \<Rightarrow> None | Some x \<Rightarrow> Some (if k = i then claim_row now w t dl x else x))" for k
    by (simp add: claimed_db_def lookup_key_update)
  then show c: "lookup jID i (jobs (claimed_db now r i w t dl d)) = Some (claim_row now w t dl j)" using assms(2) by simp
  have "claim_row now w t dl j = (claim_row now w t dl j)\<lparr>jState := StateClaimed, jDeadline := Some dl\<rparr>" by (simp add: claim_row_def)
  then have "\<exists>st dl'. in_flight st \<and> lookup jID i (jobs (claimed_db now r i w t dl d)) = Some ((claim_row now w t dl j)\<lparr>jState := st, jDeadline := dl'\<rparr>)"
    using c by (intro exI[of _ StateClaimed] exI[of _ "Some dl"]) (simp add: in_flight_def)
  then show "in_hand i (claim_row now w t dl j) d (claimed_db now r i w t dl d)"
    using assms(1) l by (auto simp: in_hand_def claimed_db_def jt.unique_update split: option.split)
qed

text \<open>C18. A worker records only what it did, whatever fails: any call may fail, be applied without an answer or
  be refused because the context is done. With no other process interfering, only the row of the job changes. A
  job that is not pending, or whose claim does not come through, is not executed: nothing is counted and the
  row stays as it was, or stays claimed when only the answer was lost. Otherwise the claimed job was executed once and
  its outcome counted, and its row is in flight under the worker's token (the result could not be recorded), or succeeded when
  the execution returned no error, or failed or dead with the error and one more attempt when it returned one.\<close>

theorem process_truthful:
  assumes "\<And>x st. wOthers W x st = st" "unique_key jID (jobs d)" "lookup jID i (jobs d) = Some j"
    and "process R ustr W w token runID intn exec n i (d, s) = ((d', s'), ms)"
  shows "(\<forall>k. k \<noteq> i \<longrightarrow> lookup jID k (jobs d') = lookup jID k (jobs d)) \<and>
    (\<exists>x. lookup jID i (jobs d') = Some x \<and>
      (x = j \<and> ms = [] \<or>
       jState j = StatePending \<and>
       (\<exists>now dl. let c = j\<lparr>jState := StateClaimed, jClaimedAt := Some now, jClaimedBy := Some w, jClaimToken := Some token,
                          jDeadline := Some dl\<rparr> in
          x = c \<and> ms = [] \<or>
          ms = job_report (jType j) (case exec c of None \<Rightarrow> ''succeeded'' | Some _ \<Rightarrow>
            if jAttempt j < jMaxRetries j then ''failed'' else ''dead'') (jTenantID j) \<and>
          ((jState x = StateClaimed \<or> jState x = StateRunning) \<and> jClaimToken x = Some token \<and> jAttempt x = jAttempt j \<or>
           exec c = None \<and> jState x = StateSucceeded \<and> jClaimToken x = None \<and> jAttempt x = jAttempt j \<or>
           (\<exists>m. exec c = Some m \<and> jState x = (if jAttempt j + 1 < jMaxRetries j then StateFailed else StateDead) \<and>
              jClaimToken x = None \<and> jAttempt x = jAttempt j + 1 \<and> jLastError x = Some m)))))"
proof -
  define dl now where "dl = go_now (wEnv W 0) + (visibilityTimeout + 30 * second)" and "now = go_now (ctx_env W 0)"
  define c where "c = claim_row now w token dl j"
  obtain d1 res where t: "TryClaim (ctx_env W 0) runID i w token dl d = (d1, res)" by (rule prod.exhaust)
  have c: "c = j\<lparr>jState := StateClaimed, jClaimedAt := Some now, jClaimedBy := Some w, jClaimToken := Some token,
      jDeadline := Some dl\<rparr>" by (simp add: c_def claim_row_def)
  have id: "jID c = i" "jClaimToken c = Some token" using jt.lookup_SomeD[OF assms(3)] by (simp_all add: c)
  note h = claimed_in_hand[OF assms(2,3), where now = now and w = w and t = token and dl = dl and r = runID, folded c_def]
  have p: "jState j = StatePending" if "x \<in> set (jobs d)" "jID x = i" "jState x = StatePending" for x
    using that jt.lookup_unique[OF assms(2) that(1)] assms(3) by simp
  have quit: ?thesis if "ms = []" "d' = d1"
  proof (cases rule: TryClaim_cases[of "ctx_env W 0" runID i w token dl d])
    case same
    then show ?thesis using that t assms(3) by simp
  next
    case (claimed x)
    then have "d' = claimed_db now runID i w token dl d" "jState j = StatePending" using that t p by (simp_all add: now_def)
    then show ?thesis using that h in_hand_other[OF h(1)] unfolding c Let_def by blast
  qed
  show ?thesis
  proof (cases "\<exists>rid. res = Inr (True, rid)")
    case False
    then have "ms = []" "d' = d1"
      using assms(4) by (auto simp: process_def assms(1) t dl_def[symmetric] Let_def leave_processing_def split: sum.splits bool.splits)
    then show ?thesis by (rule quit)
  next
    case True
    then obtain rid where rid: "res = Inr (True, rid)" by blast
    then have j: "jState j = StatePending" and d1: "d1 = claimed_db now runID i w token dl d"
      using TryClaim_true[of "ctx_env W 0" runID i w token dl d rid] TryClaim_true_db[of "ctx_env W 0" runID i w token dl d rid] t p
      by (auto simp: now_def)
    show ?thesis
    proof (cases "GetJob (ctx_env W 1) i d1")
      case (Inl e)
      then show ?thesis using assms(4) by (intro quit) (auto simp: process_def assms(1) t rid dl_def[symmetric] Let_def)
    next
      case (Inr c')
      then have "c' = c" using h(2) d1 by (auto simp: GetJob_def query_def split: option.splits)
      then have r: "run_claimed R ustr W w token rid intn exec n i c (d1, s) = ((d', s'), ms)"
        using assms(4) Inr by (simp add: process_def assms(1) t rid dl_def[symmetric] Let_def)
      have f: "jAttempt c = jAttempt j" "jMaxRetries c = jMaxRetries j" "jType c = jType j" "jTenantID c = jTenantID j" by (simp_all add: c)
      note rs = run_claimed_settles[OF assms(1) h(1) id r[unfolded d1], unfolded settled_def f in_flight_def]
      then obtain x where x: "lookup jID i (jobs d') = Some x" by blast
      show ?thesis
        by (rule conjI, use rs in blast, rule exI[of _ x], rule conjI[OF x], rule disjI2, rule conjI[OF j], rule exI[of _ now],
            rule exI[of _ dl], unfold Let_def c[symmetric], use rs x in auto)
    qed
  qed
qed

theorem process_truthful_witness:
  "let W = alone (\<lambda>i. if i = 2 then (demo_env 0)\<lparr>stmt_err := \<lambda>_. Some ''reset'', applied := True\<rparr> else demo_env 0);
       d = demo_empty\<lparr>jobs := [demo_job 7]\<rparr>;
       ((d', s'), ms) = process mem_redis ref_ustr W ''w'' 4 3 (\<lambda>_. 0) (\<lambda>_. Some ''boom'') 1 7 (d, mem_empty) in
   lookup jID 7 (jobs d) = Some (demo_job 7) \<and> unique_key jID (jobs d) \<and>
   (\<exists>x. lookup jID 7 (jobs d') = Some x \<and> jState x = StateFailed \<and> jAttempt x = 1 \<and> jLastError x = Some ''boom'') \<and>
   ms = job_report ''webhook'' ''failed'' 1"
proof -
  let ?W = "alone (\<lambda>i. if i = 2 then (demo_env 0)\<lparr>stmt_err := \<lambda>_. Some ''reset'', applied := True\<rparr> else demo_env 0) :: mem world"
  let ?d = "demo_empty\<lparr>jobs := [demo_job 7]\<rparr>"
  have o: "wOthers ?W x st = st" for x st by simp
  obtain d' s' ms where p: "process mem_redis ref_ustr ?W ''w'' 4 3 (\<lambda>_. 0) (\<lambda>_. Some ''boom'') 1 7 (?d, mem_empty) = ((d', s'), ms)"
    by (metis prod.exhaust)
  have u: "unique_key jID (jobs ?d)" "lookup jID 7 (jobs ?d) = Some (demo_job 7)" by code_simp+
  have "case process mem_redis ref_ustr ?W ''w'' 4 3 (\<lambda>_. 0) (\<lambda>_. Some ''boom'') 1 7 (?d, mem_empty) of
      ((d', s'), ms) \<Rightarrow> ms \<noteq> [] \<and> map_option jClaimToken (lookup jID 7 (jobs d')) = Some None" by code_simp
  then have m: "ms \<noteq> []" "map_option jClaimToken (lookup jID 7 (jobs d')) = Some None" using p by simp_all
  have f: "jType (demo_job 7) = ''webhook''" "jTenantID (demo_job 7) = 1" "jAttempt (demo_job 7) = 0" "jMaxRetries (demo_job 7) = 2" by code_simp+
  from process_truthful[OF o u p, unfolded f] m
  have "(\<exists>x. lookup jID 7 (jobs d') = Some x \<and> jState x = StateFailed \<and> jAttempt x = 1 \<and> jLastError x = Some ''boom'') \<and>
      ms = job_report ''webhook'' ''failed'' 1" by (auto simp: Let_def)
  then show ?thesis using u p by simp
qed

section \<open>The main loop\<close>

lemma dequeue_loop_no_panic:
  assumes "\<forall>t \<in> set ts. 0 < twWeight t" "\<forall>p \<in> set polls. draws_ok (pDraws p)"
  shows "dequeue_loop R ustr uparse dest ts deadline polls s \<noteq> Some (s', Panicked)"
  using assms(2)
proof (induction polls arbitrary: s)
  case (Cons p ps)
  have "\<exists>os. (if ts = [] then Some (Returns []) else weightedShuffle (pDraws p) ts) = Some (Returns os)"
    using weightedShuffle_permutes[OF assms(1), of "pDraws p"] Cons.prems by auto
  then obtain os where os: "(if ts = [] then Some (Returns []) else weightedShuffle (pDraws p) ts) = Some (Returns os)"
    by blast
  have "try_keys R uparse dest keys s = (s1, Some r) \<Longrightarrow> r \<noteq> Panicked" for keys s s1 r
    by (induction keys arbitrary: s) (auto split: prod.splits sum.splits option.splits redis_error.splits)
  then show ?case using Cons os by (auto split: prod.splits option.splits)
qed simp

lemma reloads_positive:
  "\<forall>t \<in> set ts. 0 < twWeight t \<Longrightarrow>
   \<forall>t \<in> set (fold (\<lambda>(e, scan). loadTenants e scan d) rs ts). 0 < twWeight t"
proof (induction rs arbitrary: ts)
  case (Cons r rs)
  then show ?case using Cons.IH[OF loadTenants_positive[OF Cons.prems]] by (cases r) simp
qed simp

text \<open>A turn in which the dequeue returns: the clock reaches its deadline at the latest.\<close>

definition turn_ok :: "'r turn \<Rightarrow> bool" where
  "turn_ok u \<longleftrightarrow> (\<forall>p \<in> set (tuPolls u). draws_ok (pDraws p)) \<and>
     (\<exists>p \<in> set (tuPolls u). tuStart u + dequeueTimeout \<le> pClock p)"

lemma turn_dequeue:
  assumes "\<forall>t \<in> set ts. 0 < twWeight t" "turn_ok u"
  obtains s' r where "Dequeue R ustr uparse (tuStart u) (tuPolls u) w ts dequeueTimeout s = Some (s', r)"
    "r \<noteq> Panicked"
proof -
  have "\<exists>res. Dequeue R ustr uparse (tuStart u) (tuPolls u) w ts dequeueTimeout s = Some res"
    unfolding Dequeue_def
    by (rule dequeue_loop_returns) (use assms in \<open>auto simp: turn_ok_def\<close>)
  then obtain s' r where q: "Dequeue R ustr uparse (tuStart u) (tuPolls u) w ts dequeueTimeout s = Some (s', r)" by auto
  moreover have "r \<noteq> Panicked"
    using q dequeue_loop_no_panic[OF assms(1)] assms(2) unfolding Dequeue_def turn_ok_def by metis
  ultimately show thesis by (rule that)
qed

lemma work_loop_stops:
  assumes "\<forall>t \<in> set ts. 0 < twWeight t" "\<forall>u \<in> set us. turn_ok u" "\<exists>u \<in> set us. tuShutdown u \<or> tuDone u"
  shows "\<exists>st' ms. work_loop R ustr uparse w us ts st = Some (st', ms, Stopped)"
  using assms
proof (induction us arbitrary: ts st)
  case (Cons u us)
  obtain d s where o: "tuOthers u st = (d, s)" by (cases "tuOthers u st")
  define ts' where "ts' = fold (\<lambda>(e, scan). loadTenants e scan d) (tuReloads u) ts"
  have pos: "\<forall>t \<in> set ts'. 0 < twWeight t" unfolding ts'_def by (rule reloads_positive[OF Cons.prems(1)])
  obtain s' r where q: "Dequeue R ustr uparse (tuStart u) (tuPolls u) w ts' dequeueTimeout s = Some (s', r)"
    "r \<noteq> Panicked" using turn_dequeue[OF pos, of u R ustr uparse w s] Cons.prems(2) by auto
  show ?case
  proof (cases "tuShutdown u \<or> tuDone u")
    case False
    then have IH: "\<exists>st' ms. work_loop R ustr uparse w us ts' st0 = Some (st', ms, Stopped)" for st0
      using Cons.IH[OF pos, of st0] Cons.prems by auto
    have "\<exists>st' ms'. map_option (\<lambda>(st'', ms', end). (st'', ms @ ms', end)) (work_loop R ustr uparse w us ts' st0) =
        Some (st', ms', Stopped)" for ms st0 using IH[of st0] by auto
    then show ?thesis
      using False IH q
      by (cases r) (simp_all add: o ts'_def [symmetric] Let_def case_prod_beta)
  qed simp
qed simp

text \<open>C24. A worker stops when told to and never panics: \<open>rand.Intn\<close> panics on a bound that is not positive, and
  the column \<open>weight\<close> may hold zero or negative values, but whatever the tenant table holds, however
  often the weights are reloaded and however often loading or dequeuing fails, \<open>Run\<close> reaches the turn that
  finds \<open>shutdown\<close> or the context closed, or returns before, and returns there normally.\<close>

theorem Run_stops:
  assumes "\<forall>u \<in> set turns. turn_ok u" "\<exists>u \<in> set turns. tuShutdown u \<or> tuDone u"
  shows "\<exists>st' ms. Run R ustr uparse workerID first turns st = Some (st', ms, Stopped)"
  unfolding Run_def
  by (rule work_loop_stops[OF loadTenants_positive assms]) simp

definition demo_turn :: "mem turn" where
  "demo_turn = \<lparr>tuShutdown = False, tuDone = False, tuOthers = (\<lambda>st. st), tuReloads = [], tuStart = 0,
     tuPolls = [demo_poll, demo_poll\<lparr>pClock := 5 * second\<rparr>], tuDoneAfter = False,
     tuWorld = alone (\<lambda>_. demo_env 0), tuToken = 4, tuRunID = 3,
     tuIntn = (\<lambda>_. 0), tuExec = (\<lambda>_. None), tuBeats = 0\<rparr>"

lemma demo_turn_ok: "turn_ok demo_turn" "turn_ok (demo_turn\<lparr>tuShutdown := True\<rparr>)"
  using demo_draws by (auto simp: turn_ok_def demo_turn_def dequeueTimeout_def demo_poll_def second_def)

theorem Run_stops_witness:
  "let d = demo_empty\<lparr>jobs := [demo_job 7], tenants := [\<lparr>tID = 1, tName = ''a'', tAPIKey = ''k'', tRateLimit = 1,
             tWeight = - 5, tStatus = ''active''\<rparr>]\<rparr> in
   \<exists>st' ms. Run mem_redis ref_ustr ref_uparse ''w'' (demo_env 0, \<lambda>t. t)
     [demo_turn, demo_turn\<lparr>tuShutdown := True\<rparr>] (d, demo_mem) = Some (st', ms, Stopped)"
  unfolding Let_def by (rule Run_stops) (use demo_turn_ok in \<open>auto simp: demo_turn_def\<close>)

section \<open>Heartbeats keep a claim\<close>

text \<open>C23. A healthy worker keeps its claim: once a heartbeat of the current owner has come through, whatever
  the deadline was before, the reaper does not list the job for the next 15 seconds, three heartbeat
  intervals.\<close>

theorem heartbeat_keeps_claim:
  assumes "quiet W" "scan_ok scan" "unique_key jID (jobs d)" "token_of d i = Some token"
    and "lookup jID i (jobs d) = Some j" "in_flight (jState j)"
    and "GetStaleClaims e scan (fst (beat R ustr W i token m (d, s))) = Inr stale"
    and "pg_now e \<le> go_now (wEnv W m) + 3 * heartbeatInterval"
  shows "i \<notin> jID ` set stale"
proof
  assume "i \<in> jID ` set stale"
  let ?d = "fst (ExtendDeadline (wEnv W m) i token (go_now (wEnv W m) + HeartbeatTTL) d)"
  have b: "fst (beat R ustr W i token m (d, s)) = ?d" by (simp add: beat_def quietD(2)[OF assms(1)] quiet_ctx[OF assms(1)])
  have "stale = sql_select scan (expired (pg_now e)) (jobs ?d)"
    using assms(7) by (auto simp: b GetStaleClaims_def query_def split: option.splits)
  then obtain x where x: "x \<in> set (jobs ?d)" "expired (pg_now e) x" "jID x = i"
    using \<open>i \<in> jID ` set stale\<close> by (auto simp: set_sql_select[OF assms(2)])
  have "lookup jID i (jobs ?d) = Some x"
    using jt.lookup_unique[OF _ x(1)] ExtendDeadline_calm(3)[OF quietD(1)[OF assms(1)]] assms(3) x(3) by simp
  moreover have "lookup jID i (jobs ?d) = Some (j\<lparr>jDeadline := Some (go_now (wEnv W m) + HeartbeatTTL)\<rparr>)"
    using ExtendDeadline_calm(1)[OF quietD(1)[OF assms(1)], of i m i token] assms(4-6) by (simp add: token_of_def)
  ultimately show False using x(2) assms(8) by (auto simp: expired_def HeartbeatTTL_def heartbeatInterval_def)
qed

theorem heartbeat_keeps_claim_witness:
  "let j = (demo_job 7)\<lparr>jState := StateRunning, jClaimToken := Some 4, jDeadline := Some 1\<rparr>;
       d = demo_empty\<lparr>jobs := [j]\<rparr>; W = alone (\<lambda>_. demo_env second);
       e = demo_env (16 * second) in
   GetStaleClaims e (\<lambda>t. t) d = Inr [j] \<and>
   GetStaleClaims e (\<lambda>t. t) (fst (beat mem_redis ref_ustr W 7 4 3 (d, mem_empty))) = Inr [] \<and> 7 \<notin> jID ` set ([] :: job list)"
proof -
  let ?j = "(demo_job 7)\<lparr>jState := StateRunning, jClaimToken := Some 4, jDeadline := Some 1\<rparr>"
  let ?d = "demo_empty\<lparr>jobs := [?j]\<rparr>" let ?e = "demo_env (16 * second)"
  let ?W = "alone (\<lambda>_. demo_env second) :: mem world"
  have q: "quiet ?W" by (simp add: quiet_def calm_def demo_env_def)
  have u: "unique_key jID (jobs ?d)" "token_of ?d 7 = Some 4" "lookup jID 7 (jobs ?d) = Some ?j" "in_flight (jState ?j)"
    by code_simp+
  have g: "GetStaleClaims ?e (\<lambda>t. t) (fst (beat mem_redis ref_ustr ?W 7 4 3 (?d, mem_empty))) = Inr []"
    and l: "pg_now ?e \<le> go_now (wEnv ?W 3) + 3 * heartbeatInterval" by code_simp+
  have "GetStaleClaims ?e (\<lambda>t. t) ?d = Inr [?j]" by code_simp
  then show ?thesis unfolding Let_def using heartbeat_keeps_claim[OF q scan_ok_id u g l] g by blast
qed

end
