(* ===== verification/RateLimit.thy ===== *)
theory RateLimit
  imports Queue GoText
begin

text \<open>
  internal/ratelimit/ratelimit.go: the fixed-window limiter. The counters live in Redis;
  \<open>counters_ok R C X Clk pass\<close> states what the documentation promises of \<open>INCR\<close>, of \<open>EXPIRE\<close> and of the passing of
  time: \<open>C s k\<close> is the counter stored at \<open>k\<close> (0 when there is none), \<open>X s k\<close> the time at which the key \<open>k\<close> expires, if
  one was set, \<open>Clk s\<close> the clock of the server, and \<open>pass t s\<close> the server when its clock has come to \<open>t\<close>. A key whose
  time to live is over is removed with its counter; a time to live of 0 or less removes it at once.
\<close>

section \<open>The limiter\<close>

definition counters_ok ::
    "'r redis \<Rightarrow> ('r \<Rightarrow> string \<Rightarrow> int) \<Rightarrow> ('r \<Rightarrow> string \<Rightarrow> time option) \<Rightarrow> ('r \<Rightarrow> time) \<Rightarrow> (time \<Rightarrow> 'r \<Rightarrow> 'r) \<Rightarrow> bool" where
  "counters_ok R C X Clk pass \<longleftrightarrow>
     (\<forall>k s s' n. Incr R k s = (s', Inr n) \<longrightarrow>
        n = C s k + 1 \<and> C s' = (C s)(k := C s k + 1) \<and> X s' = X s \<and> Clk s' = Clk s) \<and>
     (\<forall>k n s s' a. Expire R k (n * second) s = (s', a) \<longrightarrow> Clk s' = Clk s \<and>
        (C s' = C s \<and> X s' = X s \<or>
         (if 0 < n then C s' = C s \<and> X s' = (X s)(k := Some (Clk s + n * second))
          else C s' = (C s)(k := 0) \<and> X s' = (X s)(k := None))) \<and>
        (a = Inr True \<longrightarrow> n \<le> 0 \<longrightarrow> C s' k = 0)) \<and>
     (\<forall>t s. Clk s \<le> t \<longrightarrow> Clk (pass t s) = t \<and>
        (\<forall>k. (case X s k of
           Some e \<Rightarrow> if e \<le> t then C (pass t s) k = 0 \<and> X (pass t s) k = None
             else C (pass t s) k = C s k \<and> X (pass t s) k = Some e
         | None \<Rightarrow> C (pass t s) k = C s k \<and> X (pass t s) k = None)))"

text \<open>The commands of the limiter leave the lists alone.\<close>

definition limiter_lists :: "'r redis \<Rightarrow> ('r \<Rightarrow> string \<Rightarrow> string list) \<Rightarrow> bool" where
  "limiter_lists R L \<longleftrightarrow> (\<forall>k s. L (fst (Incr R k s)) = L s) \<and> (\<forall>k t s. L (fst (Expire R k t s)) = L s)"

text \<open>\<open>time.Now().Unix()\<close>.\<close>

definition unix_second :: "time \<Rightarrow> int" where
  "unix_second t = t div second"

definition rate_key :: "(uuid \<Rightarrow> string) \<Rightarrow> uuid \<Rightarrow> int \<Rightarrow> string" where
  "rate_key ustr tenantID sec = ''ratelimit:'' @ ustr tenantID @ '':'' @ int_str sec"

definition Allow ::
    "'r redis \<Rightarrow> (uuid \<Rightarrow> string) \<Rightarrow> time \<Rightarrow> uuid \<Rightarrow> int \<Rightarrow> 'r \<Rightarrow> 'r \<times> (redis_error + bool)" where
  "Allow R ustr now tenantID limit s =
     (let key = rate_key ustr tenantID (unix_second now) in
      case Incr R key s of
        (s', Inl x) \<Rightarrow> (s', Inl x)
      | (s', Inr n) \<Rightarrow>
          (if n = 1 then fst (Expire R key (2 * second) s') else s', Inr (n \<le> limit)))"

section \<open>Keys\<close>

lemma colon_split:
  assumes "xs @ CHR '':'' # a = ys @ CHR '':'' # b" "CHR '':'' \<notin> set a" "CHR '':'' \<notin> set b"
  shows "xs = ys \<and> a = b"
proof -
  let ?p = "\<lambda>c. c \<noteq> CHR '':''"
  have t: "takeWhile ?p (rev (us @ CHR '':'' # c)) = rev c" if "CHR '':'' \<notin> set c" for us c
    using that by (subst rev_append, subst rev.simps(2), subst append_assoc, subst takeWhile_append2) auto
  have "rev a = rev b" using t[OF assms(2), of xs] t[OF assms(3), of ys] unfolding assms(1) by (rule trans[OF sym])
  then show ?thesis using assms(1) by simp
qed

lemma rate_key_inj:
  assumes "uuid_ok ustr uparse"
  shows "rate_key ustr t x = rate_key ustr u y \<longleftrightarrow> t = u \<and> x = y"
proof
  assume "rate_key ustr t x = rate_key ustr u y"
  then have "ustr t @ CHR '':'' # int_str x = ustr u @ CHR '':'' # int_str y" by (simp add: rate_key_def)
  from colon_split[OF this int_str_no_colon int_str_no_colon]
  show "t = u \<and> x = y" using uuid_ok_inj[OF assms] int_str_inj by blast
qed simp

lemma Allow_lists: "limiter_lists R L \<Longrightarrow> L (fst (Allow R ustr now t limit s)) = L s"
  unfolding limiter_lists_def
  by (auto simp: Allow_def Let_def split: prod.split sum.split) (metis fst_conv)+

lemma mem_redis_limiter: "limiter_lists mem_redis mLists"
  by (simp add: limiter_lists_def mem_redis_def)

lemma unix_second_mono: "a \<le> b \<Longrightarrow> unix_second a \<le> unix_second b"
  by (simp add: unix_second_def second_def zdiv_mono1)

section \<open>A sequence of requests\<close>

text \<open>A request: its tenant, the clock of the process that answers it, and the clock of the Redis server when
  its commands arrive. The answers to a sequence of requests, each tenant with its limit; \<open>None\<close> when Redis
  reported an error.\<close>

record rate_request =
  rqTenant :: uuid
  rqNow :: time
  rqAt :: time

fun allow_all ::
    "'r redis \<Rightarrow> (time \<Rightarrow> 'r \<Rightarrow> 'r) \<Rightarrow> (uuid \<Rightarrow> string) \<Rightarrow> (uuid \<Rightarrow> int) \<Rightarrow> rate_request list \<Rightarrow> 'r \<Rightarrow> bool option list" where
  "allow_all R pass ustr limits [] s = []"
| "allow_all R pass ustr limits (q # qs) s =
     (case Allow R ustr (rqNow q) (rqTenant q) (limits (rqTenant q)) (pass (rqAt q) s) of
        (s', r) \<Rightarrow> (case r of Inl _ \<Rightarrow> None | Inr b \<Rightarrow> Some b) # allow_all R pass ustr limits qs s')"

text \<open>The requests of a tenant in a second, and how many of \<open>qs\<close> fall to the tenant and the second of \<open>q\<close>.\<close>

definition in_window :: "uuid \<Rightarrow> int \<Rightarrow> rate_request \<Rightarrow> bool" where
  "in_window t x q \<longleftrightarrow> rqTenant q = t \<and> unix_second (rqNow q) = x"

definition same_window :: "rate_request \<Rightarrow> rate_request list \<Rightarrow> nat" where
  "same_window q qs = length (filter (in_window (rqTenant q) (unix_second (rqNow q))) qs)"

text \<open>The requests reach the server in the order of its clock, and those of a tenant that read the same second
  reach it within two seconds.\<close>

definition prompt :: "rate_request list \<Rightarrow> bool" where
  "prompt qs \<longleftrightarrow> sorted (map rqAt qs) \<and>
     (\<forall>p \<in> set qs. \<forall>q \<in> set qs. rqTenant p = rqTenant q \<and> unix_second (rqNow p) = unix_second (rqNow q) \<longrightarrow>
        rqAt q < rqAt p + 2 * second)"

text \<open>What the counter of one window holds after the requests \<open>ws\<close> of this window: their number, to be forgotten two
  seconds after the first of them at the earliest; once that time has come nothing is known of it.\<close>

definition window_ok :: "rate_request list \<Rightarrow> int \<Rightarrow> time option \<Rightarrow> time \<Rightarrow> bool" where
  "window_ok ws c x now \<longleftrightarrow>
     (case ws of
        [] \<Rightarrow> c = 0 \<and> x = None
      | w # _ \<Rightarrow> rqAt w + 2 * second \<le> now \<or> c = int (length ws) \<and> (\<forall>e. x = Some e \<longrightarrow> rqAt w + 2 * second \<le> e))"

lemma window_ok_pass:
  assumes "counters_ok R C X Clk pass" "Clk s \<le> t" "window_ok ws (C s k) (X s k) (Clk s)"
  shows "window_ok ws (C (pass t s) k) (X (pass t s) k) (Clk (pass t s))"
proof -
  have p: "Clk (pass t s) = t" "case X s k of
           Some e \<Rightarrow> if e \<le> t then C (pass t s) k = 0 \<and> X (pass t s) k = None
             else C (pass t s) k = C s k \<and> X (pass t s) k = Some e
         | None \<Rightarrow> C (pass t s) k = C s k \<and> X (pass t s) k = None"
    using assms(1,2) unfolding counters_ok_def by blast+
  show ?thesis
    using assms(2,3) p by (cases "X s k"; cases ws) (auto simp: window_ok_def split: if_splits)
qed

text \<open>One call of \<open>Allow\<close> on a window whose first request is less than two seconds old.\<close>

lemma Allow_window:
  fixes q :: rate_request
  assumes "counters_ok R C X Clk pass" "\<And>k s. \<exists>s' n. Incr R k s = (s', Inr n)"
    and "Allow R ustr (rqNow q) (rqTenant q) limit s = (s', r)" "Clk s = rqAt q"
    and "k = rate_key ustr (rqTenant q) (unix_second (rqNow q))"
    and "window_ok ws (C s k) (X s k) (Clk s)" "\<forall>w \<in> set ws. rqAt q < rqAt w + 2 * second"
  shows "r = Inr (int (length ws) + 1 \<le> limit) \<and> window_ok (ws @ [q]) (C s' k) (X s' k) (Clk s') \<and>
    Clk s' = Clk s \<and> (\<forall>k'. k' \<noteq> k \<longrightarrow> C s' k' = C s k' \<and> X s' k' = X s k')"
proof -
  obtain s1 n where i: "Incr R k s = (s1, Inr n)" using assms(2) by blast
  have s1: "n = C s k + 1" "C s1 = (C s)(k := C s k + 1)" "X s1 = X s" "Clk s1 = Clk s"
    using assms(1) i unfolding counters_ok_def by blast+
  have c: "C s k = int (length ws)" "ws = [] \<Longrightarrow> X s k = None"
    "ws \<noteq> [] \<Longrightarrow> X s k = Some e \<Longrightarrow> rqAt (hd ws) + 2 * second \<le> e" for e
    using assms(4,6,7) by (cases ws; force simp: window_ok_def)+
  obtain s2 a where e: "Expire R k (2 * second) s1 = (s2, a)" by (rule prod.exhaust)
  have s2: "Clk s2 = Clk s1" "C s2 = C s1" "X s2 = X s1 \<or> X s2 = (X s1)(k := Some (Clk s1 + 2 * second))"
    using assms(1) e unfolding counters_ok_def by (metis zero_less_numeral)+
  have "s' = (if n = 1 then s2 else s1)" "r = Inr (n \<le> limit)"
    using assms(3,5) i e by (auto simp: Allow_def Let_def)
  then show ?thesis
    using s1 s2 c assms(4) by (cases ws) (auto simp: window_ok_def)
qed

definition windows_ok :: "('r \<Rightarrow> string \<Rightarrow> int) \<Rightarrow> ('r \<Rightarrow> string \<Rightarrow> time option) \<Rightarrow> ('r \<Rightarrow> time) \<Rightarrow> (uuid \<Rightarrow> string) \<Rightarrow> rate_request list \<Rightarrow> 'r \<Rightarrow> bool" where
  "windows_ok C X Clk ustr ps s \<longleftrightarrow>
     (\<forall>t x. window_ok (filter (in_window t x) ps) (C s (rate_key ustr t x)) (X s (rate_key ustr t x)) (Clk s))"

lemma windows_ok_step:
  assumes "counters_ok R C X Clk pass" "uuid_ok ustr uparse" "\<And>k s. \<exists>s' n. Incr R k s = (s', Inr n)"
    and "windows_ok C X Clk ustr ps s" "Clk s \<le> rqAt q" "prompt (ps @ q # qs)"
    and "Allow R ustr (rqNow q) (rqTenant q) limit (pass (rqAt q) s) = (s', r)"
  shows "r = Inr (int (same_window q (ps @ [q])) \<le> limit)" "windows_ok C X Clk ustr (ps @ [q]) s'" "Clk s' = rqAt q"
proof -
  let ?s = "pass (rqAt q) s" and ?t = "rqTenant q" and ?x = "unix_second (rqNow q)"
  have w: "window_ok (filter (in_window t x) ps) (C ?s (rate_key ustr t x)) (X ?s (rate_key ustr t x)) (Clk ?s)" for t x
    using window_ok_pass[OF assms(1,5)] assms(4) unfolding windows_ok_def by blast
  have clk: "Clk ?s = rqAt q" using assms(1,5) unfolding counters_ok_def by blast
  have "\<forall>w \<in> set (filter (in_window ?t ?x) ps). rqAt q < rqAt w + 2 * second"
    using assms(6) by (auto simp: prompt_def in_window_def)
  note a = Allow_window[OF assms(1,3,7) clk refl w this]
  then show "r = Inr (int (same_window q (ps @ [q])) \<le> limit)" "Clk s' = rqAt q"
    using clk by (simp_all add: same_window_def in_window_def add.commute)
  have "window_ok (filter (in_window t x) (ps @ [q])) (C s' (rate_key ustr t x)) (X s' (rate_key ustr t x)) (Clk s')" for t x
  proof (cases "t = ?t \<and> x = ?x")
    case True
    then have "filter (in_window t x) (ps @ [q]) = filter (in_window ?t ?x) ps @ [q]" by (simp add: in_window_def)
    then show ?thesis using a True by metis
  next
    case False
    then have "rate_key ustr t x \<noteq> rate_key ustr ?t ?x" "\<not> in_window t x q" using rate_key_inj[OF assms(2)] by (auto simp: in_window_def)
    then show ?thesis using a w[of t x] by simp
  qed
  then show "windows_ok C X Clk ustr (ps @ [q]) s'" unfolding windows_ok_def by blast
qed

lemma allow_all_counts:
  assumes "counters_ok R C X Clk pass" "uuid_ok ustr uparse" "\<And>k s. \<exists>s' n. Incr R k s = (s', Inr n)"
    and "windows_ok C X Clk ustr ps s" "\<forall>q \<in> set qs. Clk s \<le> rqAt q" "prompt (ps @ qs)" "i < length qs"
  shows "allow_all R pass ustr limits qs s ! i =
    Some (int (same_window (qs ! i) (ps @ take (Suc i) qs)) \<le> limits (rqTenant (qs ! i)))"
  using assms(4-7)
proof (induction qs arbitrary: ps s i)
  case (Cons q qs)
  obtain s' r where a: "Allow R ustr (rqNow q) (rqTenant q) (limits (rqTenant q)) (pass (rqAt q) s) = (s', r)" by (rule prod.exhaust)
  have q: "Clk s \<le> rqAt q" using Cons.prems(2) by simp
  note st = windows_ok_step[OF assms(1-3) Cons.prems(1) q Cons.prems(3) a]
  show ?case
  proof (cases i)
    case 0
    then show ?thesis using st(1) by (simp add: a)
  next
    case (Suc j)
    have "\<forall>p \<in> set qs. Clk s' \<le> rqAt p" using Cons.prems(3) st(3) by (simp add: prompt_def sorted_append)
    then have "allow_all R pass ustr limits qs s' ! j =
        Some (int (same_window (qs ! j) ((ps @ [q]) @ take (Suc j) qs)) \<le> limits (rqTenant (qs ! j)))"
      using Cons.prems(3,4) Suc by (intro Cons.IH[OF st(2)]) simp_all
    then show ?thesis by (simp add: a Suc)
  qed
qed simp

section \<open>A server whose keys expire\<close>

record ttl_server =
  tCounters :: "string \<Rightarrow> int"
  tExpiry :: "string \<Rightarrow> time option"
  tClock :: time

definition ttl_redis :: "ttl_server redis" where
  "ttl_redis = \<lparr>
     LPush = (\<lambda>k v m. (m, Inl RedisNil)), LMoveRL = (\<lambda>k q m. (m, Inl RedisNil)), LRem0 = (\<lambda>k v m. (m, Inl RedisNil)),
     LLen = (\<lambda>k m. (m, Inl RedisNil)), SetEx = (\<lambda>k v t m. (m, Inl RedisNil)),
     Incr = (\<lambda>k m. (m\<lparr>tCounters := (tCounters m)(k := tCounters m k + 1)\<rparr>, Inr (tCounters m k + 1))),
     Expire = (\<lambda>k t m. (if 0 < t then m\<lparr>tExpiry := (tExpiry m)(k := Some (tClock m + t))\<rparr>
        else m\<lparr>tCounters := (tCounters m)(k := 0), tExpiry := (tExpiry m)(k := None)\<rparr>, Inr True)),
     Del = (\<lambda>k m. (m\<lparr>tCounters := (tCounters m)(k := 0), tExpiry := (tExpiry m)(k := None)\<rparr>, Inr 1))\<rparr>"

definition ttl_pass :: "time \<Rightarrow> ttl_server \<Rightarrow> ttl_server" where
  "ttl_pass t m =
     (let gone = (\<lambda>k. case tExpiry m k of Some e \<Rightarrow> e \<le> t | None \<Rightarrow> False) in
      \<lparr>tCounters = (\<lambda>k. if gone k then 0 else tCounters m k), tExpiry = (\<lambda>k. if gone k then None else tExpiry m k), tClock = t\<rparr>)"

lemma ttl_counters_ok: "counters_ok ttl_redis tCounters tExpiry tClock ttl_pass"
  by (auto simp: counters_ok_def ttl_redis_def ttl_pass_def Let_def second_def zero_less_mult_iff split: option.splits if_splits)

section \<open>Properties\<close>

text \<open>C30. The limiter is exact and separate for every tenant and second: in any sequence of requests of any
  tenants, the one at position \<open>i\<close> is allowed if and only if it is one of the first \<open>limit\<close> requests of its
  tenant in its second; requests of other tenants, of other seconds and rejected ones of the same
  second do not change that. The counters expire on the server while this goes on; their two seconds are enough
  as long as the requests of one tenant and second reach the server within two seconds. (A fixed window: two
  adjacent seconds together can have twice the limit.)\<close>

theorem Allow_exact:
  assumes "counters_ok R C X Clk pass" "uuid_ok ustr uparse" "\<And>k s. \<exists>s' n. Incr R k s = (s', Inr n)"
    and "\<And>t x. C s (rate_key ustr t x) = 0 \<and> X s (rate_key ustr t x) = None" "\<forall>q \<in> set qs. Clk s \<le> rqAt q" "prompt qs"
    and "i < length qs"
  shows "allow_all R pass ustr limits qs s ! i =
    Some (int (same_window (qs ! i) (take (Suc i) qs)) \<le> limits (rqTenant (qs ! i)))"
proof -
  have "windows_ok C X Clk ustr [] s" using assms(4) by (simp add: windows_ok_def window_ok_def)
  then show ?thesis using allow_all_counts[OF assms(1-3), of "[]" s qs i limits] assms(5-7) by simp
qed

definition demo_requests :: "rate_request list" where
  "demo_requests = map (\<lambda>(t, now, arrived). \<lparr>rqTenant = t, rqNow = now, rqAt = arrived\<rparr>)
     [(1, 0, 3), (1, 5, 7), (2, 6, 7), (1, second - 1, 2 * second), (1, second, 2 * second), (1, 4 * second, 5 * second)]"

definition demo_server :: ttl_server where
  "demo_server = \<lparr>tCounters = (\<lambda>_. 0), tExpiry = (\<lambda>_. None), tClock = 0\<rparr>"

theorem Allow_exact_witness:
  "map (\<lambda>i. same_window (demo_requests ! i) (take (Suc i) demo_requests)) [0, 1, 2, 3, 4, 5] = [1, 2, 1, 3, 1, 1] \<and>
   allow_all ttl_redis ttl_pass ref_ustr (\<lambda>_. 2) demo_requests demo_server ! 1 = Some True \<and>
   allow_all ttl_redis ttl_pass ref_ustr (\<lambda>_. 2) demo_requests demo_server ! 3 = Some False \<and>
   allow_all ttl_redis ttl_pass ref_ustr (\<lambda>_. 2) demo_requests demo_server ! 4 = Some True"
proof -
  have n: "\<exists>s' n. Incr ttl_redis k s = (s', Inr n)" for k s by (simp add: ttl_redis_def)
  have z: "tCounters demo_server (rate_key ref_ustr t x) = 0 \<and> tExpiry demo_server (rate_key ref_ustr t x) = None" for t x
    by (simp add: demo_server_def)
  have c: "\<forall>q \<in> set demo_requests. tClock demo_server \<le> rqAt q" "prompt demo_requests" "length demo_requests = 6"
    "rqTenant (demo_requests ! 1) = 1" by code_simp+
  have w: "map (\<lambda>i. same_window (demo_requests ! i) (take (Suc i) demo_requests)) [0, 1, 2, 3, 4, 5] = [1, 2, 1, 3, 1, 1]" by code_simp
  note a = Allow_exact[OF ttl_counters_ok ref_uuid_ok n z c(1,2), of _ "\<lambda>_. 2"]
  show ?thesis using w a[of 1] a[of 3] a[of 4] c(3) by simp
qed

end
