(* ===== verification/Context.thy ===== *)
theory Context
  imports Store
begin

text \<open>
  What a context carries through a request or the processing of a job: internal/tenant/tenant.go and
  internal/telemetry/telemetry.go. A context is the chain of its values, the latest first. Spans and the
  exporter belong to OpenTelemetry: how the span is found in a context and the constructors of exporter,
  resource and provider are parameters.
\<close>

section \<open>Contexts\<close>

text \<open>The keys are values of unexported types, so no other package can use them; other packages have keys of their own.\<close>

datatype context_key = TenantKey | CorrelationIDKey | OtherKey nat

record span_context =
  scTraceID :: string
  scSpanID :: string
  scValid :: bool

datatype context_value = TenantValue Tenant | StringValue string | OtherValue nat

type_synonym ctx = "(context_key \<times> context_value) list"

definition Background :: ctx where
  "Background = []"

definition WithValue :: "ctx \<Rightarrow> context_key \<Rightarrow> context_value \<Rightarrow> ctx" where
  "WithValue ctx k v = (k, v) # ctx"

definition Value :: "ctx \<Rightarrow> context_key \<Rightarrow> context_value option" where
  "Value ctx k = map_of ctx k"

lemma Value_simps [simp]:
  "Value (WithValue ctx k v) k' = (if k' = k then Some v else Value ctx k')" "Value Background k = None"
  by (simp_all add: Value_def WithValue_def Background_def)

section \<open>The tenant\<close>

definition FromContext :: "ctx \<Rightarrow> Tenant option" where
  "FromContext ctx = (case Value ctx TenantKey of Some (TenantValue t) \<Rightarrow> Some t | _ \<Rightarrow> None)"

definition WithTenant :: "ctx \<Rightarrow> Tenant \<Rightarrow> ctx" where
  "WithTenant ctx t = WithValue ctx TenantKey (TenantValue t)"

text \<open>The fallback is the id 00000000-0000-0000-0000-000000000001.\<close>

definition IDFromContext :: "ctx \<Rightarrow> uuid" where
  "IDFromContext ctx = (case FromContext ctx of None \<Rightarrow> 1 | Some t \<Rightarrow> tID t)"

section \<open>The correlation id and the logger\<close>

definition WithCorrelationID :: "ctx \<Rightarrow> string \<Rightarrow> ctx" where
  "WithCorrelationID ctx i = WithValue ctx CorrelationIDKey (StringValue i)"

definition CorrelationID :: "ctx \<Rightarrow> string" where
  "CorrelationID ctx = (case Value ctx CorrelationIDKey of Some (StringValue i) \<Rightarrow> i | _ \<Rightarrow> '''')"

text \<open>The attributes \<open>L\<close> adds to the default logger; \<open>spanOf\<close> is \<open>trace.SpanFromContext\<close> with \<open>SpanContext\<close>.\<close>

definition L_attrs :: "(ctx \<Rightarrow> span_context) \<Rightarrow> ctx \<Rightarrow> (string \<times> string) list" where
  "L_attrs spanOf ctx =
     (if CorrelationID ctx \<noteq> '''' then [(''correlation_id'', CorrelationID ctx)] else []) @
     (let sc = spanOf ctx in
      if scValid sc then [(''trace_id'', scTraceID sc), (''span_id'', scSpanID sc)] else [])"

section \<open>Values do not get in each other's way\<close>

text \<open>One kind of value: what was put is got, and putting it does not change what other keys hold.\<close>

locale context_slot =
  fixes put :: "ctx \<Rightarrow> 'v \<Rightarrow> ctx" and fetch :: "ctx \<Rightarrow> 'v option" and key :: context_key
  assumes fetch_put: "fetch (put ctx v) = Some v"
    and put_other: "k \<noteq> key \<Longrightarrow> Value (put ctx v) k = Value ctx k"
begin

lemma fetch_foldl: "vs \<noteq> [] \<Longrightarrow> fetch (foldl put ctx vs) = Some (last vs)"
  by (induction vs arbitrary: ctx rule: rev_induct) (simp_all add: fetch_put)

end

interpretation tenant_slot: context_slot WithTenant FromContext TenantKey
  by unfold_locales (simp_all add: WithTenant_def FromContext_def)

interpretation correlation_slot: context_slot WithCorrelationID "\<lambda>ctx. map_option (\<lambda>_. CorrelationID ctx) (Value ctx CorrelationIDKey)"
    CorrelationIDKey
  by unfold_locales (simp_all add: WithCorrelationID_def CorrelationID_def)

text \<open>In the context of an authenticated request both the correlation id and the tenant are found, and a log line
  written with \<open>L\<close> would carry the id.\<close>

lemma request_context:
  assumes "i \<noteq> ''''"
  shows "FromContext (WithTenant (WithCorrelationID ctx i) t) = Some t \<and>
    CorrelationID (WithTenant (WithCorrelationID ctx i) t) = i \<and>
    (''correlation_id'', i) \<in> set (L_attrs spanOf (WithTenant (WithCorrelationID ctx i) t))"
proof -
  have c: "CorrelationID (WithTenant (WithCorrelationID ctx i) t) = i"
    by (simp add: CorrelationID_def WithCorrelationID_def tenant_slot.put_other)
  then show ?thesis using assms by (simp add: tenant_slot.fetch_put L_attrs_def)
qed

text \<open>
  The context of a worker starts from the background context and gets only values of other packages (the
  span, the cancellation of the signal): its log lines never carry a correlation id, so they cannot be related
  to the request that submitted the job.
\<close>

lemma worker_context:
  assumes "ctx = foldl (\<lambda>c (k, v). WithValue c (OtherKey k) (OtherValue v)) Background kvs"
  shows "CorrelationID ctx = '''' \<and> ''correlation_id'' \<notin> fst ` set (L_attrs spanOf ctx)"
proof -
  have "Value ctx CorrelationIDKey = None"
    unfolding assms by (induction kvs rule: rev_induct) (auto split: prod.split)
  then show ?thesis by (auto simp: CorrelationID_def L_attrs_def Let_def split: if_splits)
qed

section \<open>Starting the tracer\<close>

text \<open>The global state of OpenTelemetry: the provider of tracers and the propagators.\<close>

record 'p otel =
  otProvider :: "'p option"
  otPropagators :: "string list"

definition Init ::
    "(string \<Rightarrow> string + 'e) \<Rightarrow> (string \<Rightarrow> string + 's) \<Rightarrow> ('e \<Rightarrow> 's \<Rightarrow> 'p) \<Rightarrow> string \<Rightarrow> string \<Rightarrow> 'p otel \<Rightarrow> 'p otel \<times> 'p res" where
  "Init newExporter newResource newProvider serviceName endpoint g =
     (case newExporter endpoint of
        Inl m \<Rightarrow> (g, Inl (Wrapped ''create OTLP exporter'' (Driver m)))
      | Inr x \<Rightarrow>
          (case newResource serviceName of
             Inl m \<Rightarrow> (g, Inl (Wrapped ''create OTel resource'' (Driver m)))
           | Inr r \<Rightarrow>
               (let tp = newProvider x r in
                (g\<lparr>otProvider := Some tp, otPropagators := [''tracecontext'', ''baggage'']\<rparr>, Inr tp))))"

text \<open>
  A call that fails leaves the global state as it is. A call that succeeds always installs its own provider, also
  when one is there: a second call is not a no-op as its comment says, and the first provider is
  replaced without being flushed.
\<close>

lemma Init_installs:
  "Init nx nr np svc ep g = (g', r) \<Longrightarrow>
   (case r of Inl _ \<Rightarrow> g' = g | Inr tp \<Rightarrow> otProvider g' = Some tp \<and> (\<exists>x s. nx ep = Inr x \<and> nr svc = Inr s \<and> tp = np x s))"
  by (auto simp: Init_def Let_def split: sum.splits)

end
