(* ===== verification/Api.thy ===== *)
theory Api
  imports Webhook Rfc3339 RateLimit Store_Admin World Context
begin

text \<open>
  internal/api: the middlewares and handlers of the HTTP interface. \<open>Context\<close> models the values of
  the request context. A handler is a function of the shared state (database and Redis) to the new
  state and the response; its calls are numbered as in the theory \<open>World\<close>, call 0 being the lookup of the tenant.

  The router is the package chi: \<open>serve\<close> takes the endpoint it selected and the value of \<open>{id}\<close>. \<open>writeJSON\<close>
  keeps the value it encodes. \<open>time.LoadLocation\<close> and the cron package are the parameters \<open>loc_ok\<close> (whether the
  zone is known) and \<open>cron\<close> (the parsed expression as a function from zone and time to the next time, or
  the parser's message).
\<close>

section \<open>Requests and responses\<close>

text \<open>\<open>hrBody\<close>: the first JSON value of the body, \<open>None\<close> when there is none or it is malformed.\<close>

record request =
  hrMethod :: string
  hrAuthorization :: string
  hrRequestID :: string
  hrID :: string
  hrQuery :: "(string \<times> string) list"
  hrBody :: "json option"

record queue_depth =
  qdTenantID :: uuid
  qdTenant :: string
  qdPriority :: string
  qdDepth :: int

datatype body =
    NoBody
  | ErrorBody string
  | JobBody job
  | JobsBody "job list" nat
  | ScheduleBody Schedule
  | SchedulesBody "Schedule list" nat
  | StatsBody "queue_depth list" "(string \<times> nat) list"
  | RunsBody "JobRun list" nat
  | DeadLetterBody "DeadLetterEntry list" nat

record response =
  rsCode :: int
  rsHeaders :: "(string \<times> string) list"
  rsBody :: body

type_synonym 'r handler = "db \<times> 'r \<Rightarrow> (db \<times> 'r) \<times> response"

definition writeJSON :: "int \<Rightarrow> body \<Rightarrow> response" where
  "writeJSON code v = \<lparr>rsCode = code, rsHeaders = [(''Content-Type'', ''application/json'')], rsBody = v\<rparr>"

definition writeError :: "int \<Rightarrow> string \<Rightarrow> response" where
  "writeError code msg = writeJSON code (ErrorBody msg)"

definition noContent :: response where
  "noContent = \<lparr>rsCode = 204, rsHeaders = [], rsBody = NoBody\<rparr>"

definition query_get :: "request \<Rightarrow> string \<Rightarrow> string" where
  "query_get rq k = (case map_of (hrQuery rq) k of None \<Rightarrow> [] | Some v \<Rightarrow> v)"

section \<open>Middlewares\<close>

definition extractBearerToken :: "request \<Rightarrow> string" where
  "extractBearerToken rq =
     (let hdr = hrAuthorization rq in
      if hdr = [] then []
      else case SplitN2 hdr of
             [scheme, rest] \<Rightarrow> if EqualFold scheme ''bearer'' then TrimSpace rest else []
           | _ \<Rightarrow> [])"

text \<open>Below, the tenant \<open>WithTenant\<close> puts into the context is the argument of the next handler, and the correlation id
  \<open>WithCorrelationID\<close> puts there, which no handler reads, only appears in the response header.\<close>

definition authMiddleware :: "'r world \<Rightarrow> request \<Rightarrow> (Tenant \<Rightarrow> 'r handler) \<Rightarrow> 'r handler" where
  "authMiddleware W rq next st =
     (let key = extractBearerToken rq in
      if key = [] then (st, writeError 401 ''missing api key'')
      else let st0 = wOthers W 0 st in
        case GetTenantByAPIKey (wEnv W 0) key (fst st0) of
          Inl _ \<Rightarrow> (st0, writeError 401 ''invalid api key'')
        | Inr t \<Rightarrow> next t st0)"

definition add_headers :: "(string \<times> string) list \<Rightarrow> response \<Rightarrow> response" where
  "add_headers hs r = r\<lparr>rsHeaders := hs @ rsHeaders r\<rparr>"

definition correlationMiddleware :: "string \<Rightarrow> request \<Rightarrow> 'r handler \<Rightarrow> 'r handler" where
  "correlationMiddleware newID rq next st =
     (let ident = (if hrRequestID rq = [] then newID else hrRequestID rq) in
      case next st of (st', r) \<Rightarrow> (st', add_headers [(''X-Request-Id'', ident)] r))"

definition corsMiddleware :: "request \<Rightarrow> 'r handler \<Rightarrow> 'r handler" where
  "corsMiddleware rq next st =
     (let hs = [(''Access-Control-Allow-Origin'', ''*''),
                (''Access-Control-Allow-Headers'', ''Authorization, Content-Type, X-Request-ID''),
                (''Access-Control-Allow-Methods'', ''GET, POST, DELETE, OPTIONS'')] in
      if hrMethod rq = ''OPTIONS'' then (st, add_headers hs noContent)
      else case next st of (st', r) \<Rightarrow> (st', add_headers hs r))"

section \<open>Submitting a job\<close>

record submitJobRequest =
  reqType :: string
  reqPayload :: "json option"
  reqPriority :: "int option"
  reqRunAt :: "time option"
  reqMaxRetries :: "int option"
  reqBackoffSeconds :: "int option"
  reqIdempotencyKey :: "string option"

fun dec_time_ptr :: "time option \<Rightarrow> json \<Rightarrow> time option option" where
  "dec_time_ptr x (JStr s) = map_option Some (UnmarshalTime s)"
| "dec_time_ptr x JNull = Some None"
| "dec_time_ptr x _ = None"

definition decode_submit :: "json option \<Rightarrow> submitJobRequest option" where
  "decode_submit b =
     do {
       v \<leftarrow> b;
       ty \<leftarrow> field dec_string ''type'' [] v;
       p \<leftarrow> field dec_raw ''payload'' None v;
       pr \<leftarrow> field (dec_int_ptr 16) ''priority'' None v;
       r \<leftarrow> field dec_time_ptr ''run_at'' None v;
       m \<leftarrow> field (dec_int_ptr 64) ''max_retries'' None v;
       bo \<leftarrow> field (dec_int_ptr 64) ''backoff_seconds'' None v;
       k \<leftarrow> field dec_string_ptr ''idempotency_key'' None v;
       Some \<lparr>reqType = ty, reqPayload = p, reqPriority = pr, reqRunAt = r, reqMaxRetries = m,
             reqBackoffSeconds = bo, reqIdempotencyKey = k\<rparr>
     }"

definition or_default :: "'a option \<Rightarrow> 'a \<Rightarrow> 'a" where
  "or_default x y = (case x of None \<Rightarrow> y | Some v \<Rightarrow> v)"

definition submitted_job :: "uuid \<Rightarrow> Tenant \<Rightarrow> time \<Rightarrow> submitJobRequest \<Rightarrow> job" where
  "submitted_job newID t now q =
     (let (runAt, state) = (case reqRunAt q of
            None \<Rightarrow> (now, StatePending)
          | Some r \<Rightarrow> if now < r then (r, StateScheduled) else (now, StatePending))
      in \<lparr>jID = newID, jTenantID = tID t, jType = reqType q, jPayload = reqPayload q,
          jPriority = or_default (reqPriority q) PriorityNormal, jState = state, jRunAt = runAt,
          jClaimedAt = None, jClaimedBy = None, jClaimToken = None, jDeadline = None, jAttempt = 0,
          jMaxRetries = or_default (reqMaxRetries q) 3, jBackoffSeconds = or_default (reqBackoffSeconds q) 30,
          jIdempotencyKey = reqIdempotencyKey q, jLastError = None, jCreatedAt = now, jCompletedAt = None\<rparr>)"

text \<open>The rate limit check (call 1): an error of the limiter lets the request pass. \<open>limited\<close>: there is a limiter.\<close>

definition rate_check ::
    "'r redis \<Rightarrow> (uuid \<Rightarrow> string) \<Rightarrow> bool \<Rightarrow> 'r world \<Rightarrow> Tenant \<Rightarrow> db \<times> 'r \<Rightarrow> (db \<times> 'r) \<times> bool" where
  "rate_check R ustr limited W t st =
     (if \<not> limited then (st, True)
      else case wOthers W 1 st of (d, s) \<Rightarrow>
        case Allow R ustr (go_now (wEnv W 1)) (tID t) (tRateLimit t) s of
          (s', Inl _) \<Rightarrow> ((d, s'), True)
        | (s', Inr ok) \<Rightarrow> ((d, s'), ok))"

text \<open>The insertion (call 2) and what follows it (call 3): the lookup of the original job, or the enqueueing.\<close>

definition submit_insert ::
    "'r redis \<Rightarrow> (uuid \<Rightarrow> string) \<Rightarrow> 'r world \<Rightarrow> job \<Rightarrow> 'r handler" where
  "submit_insert R ustr W j st =
     (case wOthers W 2 st of (d, s) \<Rightarrow>
      case InsertJob (wEnv W 2) j d of
        (d', Inl x) \<Rightarrow>
          if errors_Is x ErrDuplicate
          then (case jIdempotencyKey j of
                  None \<Rightarrow> ((d', s), writeError 409 ''duplicate idempotency key'')
                | Some k \<Rightarrow>
                    let st3 = wOthers W 3 (d', s) in
                    case GetJobByIdempotencyKey (wEnv W 3) (jTenantID j) k (fst st3) of
                      Inr existing \<Rightarrow> (st3, writeJSON 200 (JobBody existing))
                    | Inl _ \<Rightarrow> (st3, writeError 409 ''duplicate idempotency key''))
          else ((d', s), writeError 500 ''failed to create job'')
      | (d', Inr _) \<Rightarrow>
          if jState j = StatePending
          then (case wOthers W 3 (d', s) of (d3, s3) \<Rightarrow>
                 ((d3, fst (Enqueue R ustr (jTenantID j) (jID j) (jPriority j) s3)), writeJSON 201 (JobBody j)))
          else ((d', s), writeJSON 201 (JobBody j)))"

definition handleSubmitJob ::
    "'r redis \<Rightarrow> (uuid \<Rightarrow> string) \<Rightarrow> bool \<Rightarrow> 'r world \<Rightarrow> uuid \<Rightarrow> request \<Rightarrow> Tenant \<Rightarrow> 'r handler" where
  "handleSubmitJob R ustr limited W newID rq t st =
     (case decode_submit (hrBody rq) of
        None \<Rightarrow> (st, writeError 400 ''invalid request body'')
      | Some q \<Rightarrow>
          if reqType q = [] then (st, writeError 400 ''type is required'')
          else if reqPayload q = None then (st, writeError 400 ''payload is required'')
          else case rate_check R ustr limited W t st of
                 (st1, False) \<Rightarrow> (st1, writeError 429 ''rate limit exceeded'')
               | (st1, True) \<Rightarrow> submit_insert R ustr W (submitted_job newID t (go_now (wEnv W 2)) q) st1)"

section \<open>Reading, cancelling and replaying jobs\<close>

definition handleGetJob :: "(string \<Rightarrow> uuid option) \<Rightarrow> 'r world \<Rightarrow> request \<Rightarrow> Tenant \<Rightarrow> 'r handler" where
  "handleGetJob uparse W rq t st =
     (case uparse (hrID rq) of
        None \<Rightarrow> (st, writeError 400 ''invalid job id'')
      | Some ident \<Rightarrow>
          let st1 = wOthers W 1 st in
          case GetJobForTenant (wEnv W 1) ident (tID t) (fst st1) of
            Inl x \<Rightarrow> (st1, if errors_Is x ErrNotFound then writeError 404 ''job not found''
                           else writeError 500 ''failed to get job'')
          | Inr j \<Rightarrow> (st1, writeJSON 200 (JobBody j)))"

text \<open>A page size from the query: a number from 1 to 500, else the default.\<close>

definition limit_param :: "string \<Rightarrow> int" where
  "limit_param v =
     (if v = [] then 50
      else case Atoi v of None \<Rightarrow> 50 | Some n \<Rightarrow> if 0 < n \<and> n \<le> 500 then n else 50)"

definition offset_param :: "string \<Rightarrow> int" where
  "offset_param v =
     (if v = [] then 0 else case Atoi v of None \<Rightarrow> 0 | Some n \<Rightarrow> if 0 \<le> n then n else 0)"

definition list_filter :: "Tenant \<Rightarrow> request \<Rightarrow> ListFilter" where
  "list_filter t rq =
     \<lparr>lfTenantID = Some (tID t),
      lfState = (let v = query_get rq ''state'' in if v = [] then None else Some v),
      lfLimit = limit_param (query_get rq ''limit''),
      lfOffset = offset_param (query_get rq ''offset'')\<rparr>"

definition handleListJobs ::
    "(job list \<Rightarrow> job list) \<Rightarrow> 'r world \<Rightarrow> request \<Rightarrow> Tenant \<Rightarrow> 'r handler" where
  "handleListJobs scan W rq t st =
     (let st1 = wOthers W 1 st in
      case ListJobs (wEnv W 1) scan (list_filter t rq) (fst st1) of
        Inl _ \<Rightarrow> (st1, writeError 500 ''failed to list jobs'')
      | Inr js \<Rightarrow> (st1, writeJSON 200 (JobsBody js (length js))))"

definition handleCancelJob :: "(string \<Rightarrow> uuid option) \<Rightarrow> 'r world \<Rightarrow> request \<Rightarrow> Tenant \<Rightarrow> 'r handler" where
  "handleCancelJob uparse W rq t st =
     (case uparse (hrID rq) of
        None \<Rightarrow> (st, writeError 400 ''invalid job id'')
      | Some ident \<Rightarrow>
          (case wOthers W 1 st of (d, s) \<Rightarrow>
           case CancelJob (wEnv W 1) ident (tID t) d of
             (d', Inl x) \<Rightarrow> ((d', s), if errors_Is x ErrNotFound then writeError 404 ''job not found or not cancellable''
                                       else writeError 500 ''failed to cancel job'')
           | (d', Inr _) \<Rightarrow> ((d', s), noContent)))"

definition handleReplayJob ::
    "'r redis \<Rightarrow> (uuid \<Rightarrow> string) \<Rightarrow> (string \<Rightarrow> uuid option) \<Rightarrow> 'r world \<Rightarrow> request \<Rightarrow> Tenant \<Rightarrow> 'r handler" where
  "handleReplayJob R ustr uparse W rq t st =
     (case uparse (hrID rq) of
        None \<Rightarrow> (st, writeError 400 ''invalid job id'')
      | Some ident \<Rightarrow>
          (case wOthers W 1 st of (d, s) \<Rightarrow>
           case ReplayJob (wEnv W 1) (wEnv W 2) ident (tID t) d of
             (d', Inl x) \<Rightarrow> ((d', s), if errors_Is x ErrNotFound then writeError 404 ''job not found or not in dead state''
                                       else writeError 500 ''failed to replay job'')
           | (d', Inr j) \<Rightarrow>
               (case wOthers W 3 (d', s) of (d3, s3) \<Rightarrow>
                 ((d3, fst (Enqueue R ustr (tID t) ident (jPriority j) s3)), writeJSON 200 (JobBody j)))))"

section \<open>Schedules\<close>

record createScheduleRequest =
  csName :: string
  csCron :: string
  csTimezone :: string
  csJobTemplate :: "json option"

definition decode_schedule :: "json option \<Rightarrow> createScheduleRequest option" where
  "decode_schedule b =
     do {
       v \<leftarrow> b;
       n \<leftarrow> field dec_string ''name'' [] v;
       c \<leftarrow> field dec_string ''cron'' [] v;
       z \<leftarrow> field dec_string ''timezone'' [] v;
       j \<leftarrow> field dec_raw ''job_template'' None v;
       Some \<lparr>csName = n, csCron = c, csTimezone = z, csJobTemplate = j\<rparr>
     }"

type_synonym cron_parser = "string \<Rightarrow> string + (string \<Rightarrow> time \<Rightarrow> time)"

definition schedule_of ::
    "uuid \<Rightarrow> Tenant \<Rightarrow> createScheduleRequest \<Rightarrow> string \<Rightarrow> time \<Rightarrow> Schedule" where
  "schedule_of newID t q tz nextRunAt =
     \<lparr>sID = newID, sTenantID = tID t, sName = csName q, sCron = csCron q, sTimezone = tz,
      sJobTemplate = csJobTemplate q, sEnabled = True, sLastRunAt = None, sNextRunAt = nextRunAt\<rparr>"

definition handleCreateSchedule ::
    "(string \<Rightarrow> bool) \<Rightarrow> cron_parser \<Rightarrow> 'r world \<Rightarrow> uuid \<Rightarrow> request \<Rightarrow> Tenant \<Rightarrow> 'r handler" where
  "handleCreateSchedule loc_ok cron W newID rq t st =
     (case decode_schedule (hrBody rq) of
        None \<Rightarrow> (st, writeError 400 ''invalid request body'')
      | Some q \<Rightarrow>
          if csName q = [] then (st, writeError 400 ''name is required'')
          else if csCron q = [] then (st, writeError 400 ''cron is required'')
          else if csJobTemplate q = None then (st, writeError 400 ''job_template is required'')
          else
            let tz = (if csTimezone q = [] then ''UTC'' else csTimezone q) in
            if \<not> loc_ok tz then (st, writeError 400 ''invalid timezone'')
            else case cron (csCron q) of
                   Inl m \<Rightarrow> (st, writeError 400 (''invalid cron expression: '' @ m))
                 | Inr nxt \<Rightarrow>
                     (case wOthers W 1 st of (d, s) \<Rightarrow>
                      let sched = schedule_of newID t q tz (nxt tz (go_now (wEnv W 1))) in
                      case InsertSchedule (wEnv W 1) sched d of
                        (d', Inl x) \<Rightarrow> ((d', s), if errors_Is x ErrDuplicate then writeError 409 ''schedule name already exists''
                                                  else writeError 500 ''failed to create schedule'')
                      | (d', Inr _) \<Rightarrow> ((d', s), writeJSON 201 (ScheduleBody sched))))"

definition handleListSchedules ::
    "(Schedule list \<Rightarrow> Schedule list) \<Rightarrow> (string \<Rightarrow> 'k::linorder) \<Rightarrow> 'r world \<Rightarrow> Tenant \<Rightarrow> 'r handler" where
  "handleListSchedules scan coll W t st =
     (let st1 = wOthers W 1 st in
      case ListSchedules (wEnv W 1) scan coll (tID t) (fst st1) of
        Inl _ \<Rightarrow> (st1, writeError 500 ''failed to list schedules'')
      | Inr ss \<Rightarrow> (st1, writeJSON 200 (SchedulesBody ss (length ss))))"

definition handleGetSchedule :: "(string \<Rightarrow> uuid option) \<Rightarrow> 'r world \<Rightarrow> request \<Rightarrow> 'r handler" where
  "handleGetSchedule uparse W rq st =
     (case uparse (hrID rq) of
        None \<Rightarrow> (st, writeError 400 ''invalid schedule id'')
      | Some ident \<Rightarrow>
          let st1 = wOthers W 1 st in
          case GetSchedule (wEnv W 1) ident (fst st1) of
            Inl x \<Rightarrow> (st1, if errors_Is x ErrNotFound then writeError 404 ''schedule not found''
                           else writeError 500 ''failed to get schedule'')
          | Inr s \<Rightarrow> (st1, writeJSON 200 (ScheduleBody s)))"

definition handleDeleteSchedule :: "(string \<Rightarrow> uuid option) \<Rightarrow> 'r world \<Rightarrow> request \<Rightarrow> Tenant \<Rightarrow> 'r handler" where
  "handleDeleteSchedule uparse W rq t st =
     (case uparse (hrID rq) of
        None \<Rightarrow> (st, writeError 400 ''invalid schedule id'')
      | Some ident \<Rightarrow>
          (case wOthers W 1 st of (d, s) \<Rightarrow>
           case DeleteSchedule (wEnv W 1) ident (tID t) d of
             (d', Inl x) \<Rightarrow> ((d', s), if errors_Is x ErrNotFound then writeError 404 ''schedule not found''
                                       else writeError 500 ''failed to delete schedule'')
           | (d', Inr _) \<Rightarrow> ((d', s), noContent)))"

section \<open>The dashboard\<close>

definition lane_keys :: "(uuid \<Rightarrow> string) \<Rightarrow> Tenant list \<Rightarrow> (Tenant \<times> string \<times> string) list" where
  "lane_keys ustr ts =
     concat (map (\<lambda>t. map (\<lambda>(label, key). (t, label, key @ '':'' @ ustr (tID t)))
       [(''high'', ''queue:1''), (''normal'', ''queue:5''), (''low'', ''queue:10'')]) ts)"

fun read_depths :: "'r redis \<Rightarrow> (Tenant \<times> string \<times> string) list \<Rightarrow> 'r \<Rightarrow> 'r \<times> queue_depth list" where
  "read_depths R [] s = (s, [])"
| "read_depths R ((t, label, key) # rest) s =
     (case LLen R key s of (s', r) \<Rightarrow>
      case read_depths R rest s' of (s'', out) \<Rightarrow>
        (s'', \<lparr>qdTenantID = tID t, qdTenant = tName t, qdPriority = label,
               qdDepth = (case r of Inl _ \<Rightarrow> 0 | Inr n \<Rightarrow> n)\<rparr> # out))"

definition queueDepths ::
    "'r redis \<Rightarrow> (uuid \<Rightarrow> string) \<Rightarrow> (Tenant list \<Rightarrow> Tenant list) \<Rightarrow> env \<Rightarrow> db \<times> 'r \<Rightarrow> (db \<times> 'r) \<times> queue_depth list res" where
  "queueDepths R ustr tscan e st =
     (case st of (d, s) \<Rightarrow>
      case GetTenants e tscan d of
        Inl x \<Rightarrow> (st, Inl x)
      | Inr ts \<Rightarrow> (case read_depths R (lane_keys ustr ts) s of (s', out) \<Rightarrow> ((d, s'), Inr out)))"

definition handleStats ::
    "'r redis \<Rightarrow> (uuid \<Rightarrow> string) \<Rightarrow> (Tenant list \<Rightarrow> Tenant list) \<Rightarrow> 'r world \<Rightarrow> 'r handler" where
  "handleStats R ustr tscan W st =
     (case queueDepths R ustr tscan (wEnv W 1) (wOthers W 1 st) of
        (st1, Inl _) \<Rightarrow> (st1, writeError 500 ''failed to read queue depths'')
      | (st1, Inr depths) \<Rightarrow>
          let st2 = wOthers W 2 st1 in
          case CountJobsByState (wEnv W 2) (fst st2) of
            Inl _ \<Rightarrow> (st2, writeError 500 ''failed to read job counts'')
          | Inr counts \<Rightarrow> (st2, writeJSON 200 (StatsBody depths counts)))"

text \<open>One tick of the stream of \<open>handleWebSocket\<close>: the snapshot it sends, if there is one.\<close>

definition ws_tick ::
    "'r redis \<Rightarrow> (uuid \<Rightarrow> string) \<Rightarrow> (Tenant list \<Rightarrow> Tenant list) \<Rightarrow> 'r world \<Rightarrow> db \<times> 'r \<Rightarrow>
     (db \<times> 'r) \<times> (queue_depth list \<times> (string \<times> nat) list \<times> time) option" where
  "ws_tick R ustr tscan W st =
     (case queueDepths R ustr tscan (wEnv W 1) (wOthers W 1 st) of
        (st1, Inl _) \<Rightarrow> (st1, None)
      | (st1, Inr depths) \<Rightarrow>
          let st2 = wOthers W 2 st1 in
          case CountJobsByState (wEnv W 2) (fst st2) of
            Inl _ \<Rightarrow> (st2, None)
          | Inr counts \<Rightarrow> (st2, Some (depths, counts, go_now (wEnv W 2))))"

definition handleRecentRuns :: "(JobRun list \<Rightarrow> JobRun list) \<Rightarrow> 'r world \<Rightarrow> request \<Rightarrow> 'r handler" where
  "handleRecentRuns scan W rq st =
     (let st1 = wOthers W 1 st in
      case ListRecentRuns (wEnv W 1) scan (limit_param (query_get rq ''limit'')) (fst st1) of
        Inl _ \<Rightarrow> (st1, writeError 500 ''failed to list runs'')
      | Inr rs \<Rightarrow> (st1, writeJSON 200 (RunsBody rs (length rs))))"

definition handleDeadLetter :: "(dead_letter_row list \<Rightarrow> dead_letter_row list) \<Rightarrow> 'r world \<Rightarrow> request \<Rightarrow> 'r handler" where
  "handleDeadLetter scan W rq st =
     (let st1 = wOthers W 1 st in
      case ListDeadLetter (wEnv W 1) scan (limit_param (query_get rq ''limit'')) (fst st1) of
        Inl _ \<Rightarrow> (st1, writeError 500 ''failed to list dead letter'')
      | Inr es \<Rightarrow> (st1, writeJSON 200 (DeadLetterBody es (length es))))"

section \<open>The server\<close>

text \<open>The routes below \<open>/v1\<close>, in the order of \<open>New\<close>.\<close>

datatype endpoint =
    SubmitJob | ListJobsEP | GetJobEP | CancelJobEP | ReplayJobEP
  | CreateSchedule | ListSchedulesEP | GetScheduleEP | DeleteScheduleEP
  | Stats | RecentRuns | DeadLetter

text \<open>What a request meets outside the server: the world of its calls, fresh ids, scan orders of the server.\<close>

record ('r, 'k) setting =
  stRedis :: "'r redis"
  stStr :: "uuid \<Rightarrow> string"
  stParse :: "string \<Rightarrow> uuid option"
  stLimited :: bool
  stWorld :: "'r world"
  stNewID :: uuid
  stCorrelationID :: string
  stLocOk :: "string \<Rightarrow> bool"
  stCron :: cron_parser
  stJobs :: "job list \<Rightarrow> job list"
  stSchedules :: "Schedule list \<Rightarrow> Schedule list"
  stColl :: "string \<Rightarrow> 'k"
  stTenants :: "Tenant list \<Rightarrow> Tenant list"
  stRuns :: "JobRun list \<Rightarrow> JobRun list"
  stDead :: "dead_letter_row list \<Rightarrow> dead_letter_row list"

definition dispatch :: "('r, 'k::linorder) setting \<Rightarrow> endpoint \<Rightarrow> request \<Rightarrow> Tenant \<Rightarrow> 'r handler" where
  "dispatch c ep rq t =
     (case ep of
        SubmitJob \<Rightarrow> handleSubmitJob (stRedis c) (stStr c) (stLimited c) (stWorld c) (stNewID c) rq t
      | ListJobsEP \<Rightarrow> handleListJobs (stJobs c) (stWorld c) rq t
      | GetJobEP \<Rightarrow> handleGetJob (stParse c) (stWorld c) rq t
      | CancelJobEP \<Rightarrow> handleCancelJob (stParse c) (stWorld c) rq t
      | ReplayJobEP \<Rightarrow> handleReplayJob (stRedis c) (stStr c) (stParse c) (stWorld c) rq t
      | CreateSchedule \<Rightarrow> handleCreateSchedule (stLocOk c) (stCron c) (stWorld c) (stNewID c) rq t
      | ListSchedulesEP \<Rightarrow> handleListSchedules (stSchedules c) (stColl c) (stWorld c) t
      | GetScheduleEP \<Rightarrow> handleGetSchedule (stParse c) (stWorld c) rq
      | DeleteScheduleEP \<Rightarrow> handleDeleteSchedule (stParse c) (stWorld c) rq t
      | Stats \<Rightarrow> handleStats (stRedis c) (stStr c) (stTenants c) (stWorld c)
      | RecentRuns \<Rightarrow> handleRecentRuns (stRuns c) (stWorld c) rq
      | DeadLetter \<Rightarrow> handleDeadLetter (stDead c) (stWorld c) rq)"

definition serve :: "('r, 'k::linorder) setting \<Rightarrow> endpoint \<Rightarrow> request \<Rightarrow> 'r handler" where
  "serve c ep rq =
     corsMiddleware rq (correlationMiddleware (stCorrelationID c) rq
       (authMiddleware (stWorld c) rq (dispatch c ep rq)))"

end
