(* ===== verification/Requests.thy ===== *)
theory Requests
  imports Api Outcomes
begin

text \<open>
  What the HTTP interface guarantees: without the key of an active tenant nothing happens, a tenant
  sees and changes only its own jobs and schedules, an acknowledged job is stored, submissions with one
  idempotency key make one job, and a printed run time is read back as the same instant.
\<close>

lemma find_result: "find p xs = Some x \<Longrightarrow> x \<in> set xs \<and> p x"
  by (auto simp: find_Some_iff)

section \<open>Authentication\<close>

text \<open>Behind the outer middlewares, the response is that of the authentication.\<close>

lemma serve_auth:
  assumes "hrMethod rq \<noteq> ''OPTIONS''" "serve c ep rq st = (st', r)"
  obtains r0 where "authMiddleware (stWorld c) rq (dispatch c ep rq) st = (st', r0)"
    "rsCode r = rsCode r0" "rsBody r = rsBody r0"
  using assms
  by (auto simp: serve_def corsMiddleware_def correlationMiddleware_def add_headers_def Let_def split: prod.splits)

text \<open>C15. Without the key of an active tenant nothing happens: on every route below \<open>/v1\<close>, a request whose
  bearer token is missing or is not the key of an active tenant is answered with 401 and an error,
  and changes neither the database nor Redis.\<close>

theorem serve_rejects_unknown_key:
  assumes "hrMethod rq \<noteq> ''OPTIONS''"
    and "\<forall>t \<in> set (tenants (fst (wOthers (stWorld c) 0 st))).
      \<not> (active t \<and> tAPIKey t = extractBearerToken rq \<and> tAPIKey t \<noteq> [])"
  shows "\<exists>st' r m. serve c ep rq st = (st', r) \<and> rsCode r = 401 \<and> rsBody r = ErrorBody m \<and>
    (st' = st \<or> st' = wOthers (stWorld c) 0 st)"
proof -
  let ?key = "extractBearerToken rq" and ?d = "fst (wOthers (stWorld c) 0 st)"
  obtain st' r where s: "serve c ep rq st = (st', r)" by (cases "serve c ep rq st")
  obtain r0 where a: "authMiddleware (stWorld c) rq (dispatch c ep rq) st = (st', r0)"
    "rsCode r = rsCode r0" "rsBody r = rsBody r0" by (rule serve_auth[OF assms(1) s])
  have "\<exists>x. GetTenantByAPIKey (wEnv (stWorld c) 0) ?key ?d = Inl x" if "?key \<noteq> []"
    using that assms(2)
    by (auto simp: GetTenantByAPIKey_def query_def find_None_iff split: option.split dest!: find_result)
  then show ?thesis
    using s a by (cases "?key = []") (auto simp: authMiddleware_def Let_def writeError_def writeJSON_def)
qed

text \<open>The setting of the witnesses: a server of one tenant with a known key, no interference, no faults.\<close>

definition demo_tenant :: Tenant where
  "demo_tenant = \<lparr>tID = 1, tName = ''a'', tAPIKey = ''secret'', tRateLimit = 2, tWeight = 100, tStatus = ''active''\<rparr>"

definition demo_world :: "mem world" where
  "demo_world = alone (\<lambda>i. demo_env (int i * second))"

definition demo_setting :: "(mem, int) setting" where
  "demo_setting = \<lparr>stRedis = mem_redis, stStr = ref_ustr, stParse = ref_uparse, stLimited = True, stWorld = demo_world,
     stNewID = 7, stCorrelationID = ''c'', stLocOk = (\<lambda>_. True), stCron = (\<lambda>_. Inr (\<lambda>_ t. t + minute)),
     stJobs = (\<lambda>t. t), stSchedules = (\<lambda>t. t), stColl = (\<lambda>s. int (length s)), stTenants = (\<lambda>t. t),
     stRuns = (\<lambda>t. t), stDead = (\<lambda>t. t)\<rparr>"

definition demo_request :: "string \<Rightarrow> json \<Rightarrow> request" where
  "demo_request auth v = \<lparr>hrMethod = ''POST'', hrAuthorization = auth, hrRequestID = [], hrID = ''uuuuuuu'', hrQuery = [],
     hrBody = Some v\<rparr>"

definition demo_body :: json where
  "demo_body = JObj [(''type'', JStr ''webhook''), (''payload'', JNull), (''idempotency_key'', JStr ''k'')]"

lemma demo_world_quiet: "quiet demo_world"
  by (simp add: quiet_def calm_def demo_world_def demo_env_def)

theorem serve_rejects_unknown_key_witness:
  "\<exists>st' r m. serve demo_setting SubmitJob (demo_request ''Bearer  guess'' demo_body)
       (demo_empty\<lparr>tenants := [demo_tenant]\<rparr>, mem_empty) = (st', r) \<and> rsCode r = 401 \<and> rsBody r = ErrorBody m \<and>
     (st' = (demo_empty\<lparr>tenants := [demo_tenant]\<rparr>, mem_empty) \<or> st' = (demo_empty\<lparr>tenants := [demo_tenant]\<rparr>, mem_empty))"
proof -
  let ?rq = "demo_request ''Bearer  guess'' demo_body"
  have m: "hrMethod ?rq \<noteq> ''OPTIONS''" by code_simp
  have t: "\<forall>t \<in> set (tenants (fst (wOthers (stWorld demo_setting) 0 (demo_empty\<lparr>tenants := [demo_tenant]\<rparr>, mem_empty)))).
      \<not> (active t \<and> tAPIKey t = extractBearerToken ?rq \<and> tAPIKey t \<noteq> [])" by code_simp
  have o: "wOthers (stWorld demo_setting) 0 st = st" for st by (simp add: demo_setting_def demo_world_def)
  show ?thesis using serve_rejects_unknown_key[OF m t, of SubmitJob] unfolding o .
qed

section \<open>Tenants are separated\<close>

text \<open>What a response may show of the tenant \<open>i\<close>; the answers of the dashboard are not limited to a tenant.\<close>

fun body_of_tenant :: "uuid \<Rightarrow> body \<Rightarrow> bool" where
  "body_of_tenant i NoBody = True"
| "body_of_tenant i (ErrorBody m) = True"
| "body_of_tenant i (JobBody j) = (jTenantID j = i)"
| "body_of_tenant i (JobsBody js n) = (\<forall>j \<in> set js. jTenantID j = i)"
| "body_of_tenant i (ScheduleBody s) = (sTenantID s = i)"
| "body_of_tenant i (SchedulesBody ss n) = (\<forall>s \<in> set ss. sTenantID s = i)"
| "body_of_tenant i _ = False"

text \<open>All that does not belong to the tenant \<open>i\<close>.\<close>

definition others_rows :: "uuid \<Rightarrow> db \<Rightarrow> job list \<times> Schedule list \<times> job_run list \<times> dead_letter_row list \<times> Tenant list" where
  "others_rows i d = (filter (\<lambda>j. jTenantID j \<noteq> i) (jobs d), filter (\<lambda>s. sTenantID s \<noteq> i) (schedules d),
     job_runs d, dead_letter d, tenants d)"

lemma filter_update_other:
  "(\<And>x. p x \<Longrightarrow> \<not> q x) \<Longrightarrow> (\<And>x. p x \<Longrightarrow> \<not> q (f x)) \<Longrightarrow> filter q (sql_update p f t) = filter q t"
  by (induction t) (auto simp: sql_update_def)

lemma filter_delete_other: "(\<And>x. p x \<Longrightarrow> \<not> q x) \<Longrightarrow> filter q (sql_delete p t) = filter q t"
  by (induction t) (auto simp: sql_delete_def)

lemma ops_others_rows:
  "jTenantID j = i \<Longrightarrow> others_rows i (fst (InsertJob e j d)) = others_rows i d"
  "others_rows i (fst (CancelJob e x i d)) = others_rows i d"
  "others_rows i (fst (ReplayJob e e' x i d)) = others_rows i d"
  "sTenantID s = i \<Longrightarrow> others_rows i (fst (InsertSchedule e s d)) = others_rows i d"
  "others_rows i (fst (DeleteSchedule e x i d)) = others_rows i d"
proof -
  have u: "filter (\<lambda>j. jTenantID j \<noteq> i) (sql_update (\<lambda>j. jID j = x \<and> jTenantID j = i \<and> jState j = StateDead) reset_job t) =
      filter (\<lambda>j. jTenantID j \<noteq> i) t" for t
    by (rule filter_update_other) (auto simp: reset_job_def)
  have c: "filter (\<lambda>j. jTenantID j \<noteq> i) (sql_delete (\<lambda>j. jID j = x \<and> jTenantID j = i \<and>
      (jState j = StatePending \<or> jState j = StateScheduled)) t) = filter (\<lambda>j. jTenantID j \<noteq> i) t" for t
    by (rule filter_delete_other) auto
  have k: "filter (\<lambda>s. sTenantID s \<noteq> i) (sql_delete (\<lambda>s. sID s = x \<and> sTenantID s = i) t) =
      filter (\<lambda>s. sTenantID s \<noteq> i) t" for t
    by (rule filter_delete_other) auto
  show "jTenantID j = i \<Longrightarrow> others_rows i (fst (InsertJob e j d)) = others_rows i d"
    "others_rows i (fst (CancelJob e x i d)) = others_rows i d"
    "others_rows i (fst (ReplayJob e e' x i d)) = others_rows i d"
    "sTenantID s = i \<Longrightarrow> others_rows i (fst (InsertSchedule e s d)) = others_rows i d"
    "others_rows i (fst (DeleteSchedule e x i d)) = others_rows i d"
    by (simp_all add: others_rows_def InsertJob_def inserted_row_def CancelJob_def ReplayJob_def InsertSchedule_def
        DeleteSchedule_def autocommit_def Let_def u c k split: option.split)
qed

lemma ReplayJob_tenant:
  assumes "unique_key jID (jobs d)" "ReplayJob e e' x i d = (d', Inr j)"
  shows "jTenantID j = i"
proof -
  let ?p = "\<lambda>j. jID j = x \<and> jTenantID j = i \<and> jState j = StateDead"
  let ?d = "d\<lparr>jobs := sql_update ?p reset_job (jobs d)\<rparr>"
  have r: "rows_affected ?p (jobs d) \<noteq> 0" "GetJob e' x ?d = Inr j"
    using assms(2) by (auto simp: ReplayJob_def autocommit_def Let_def split: option.splits if_splits)
  then obtain j0 where j0: "j0 \<in> set (jobs d)" "?p j0" unfolding rows_affected_0 by blast
  have "lookup jID x (jobs ?d) = Some j"
    using r(2) unfolding GetJob_def query_def by (simp split: option.splits)
  then have j: "j \<in> set (sql_update ?p reset_job (jobs d))" "jID j = x"
    using find_result[of _ "jobs ?d" j] unfolding lookup_def by fastforce+
  obtain y where y: "y \<in> set (jobs d)" "j = (if ?p y then reset_job y else y)"
    using j(1) unfolding sql_update_def set_map by (rule imageE) blast
  then have "jID y = x" using j(2) by (cases "?p y") (simp_all add: reset_job_def)
  then have "y = j0"
    using jt.lookup_unique[OF assms(1) y(1)] jt.lookup_unique[OF assms(1) j0(1)] j0(2) by simp
  then have "j = reset_job j0" using y(2) j0(2) by simp
  then show ?thesis using j0(2) by (simp add: reset_job_def)
qed

lemma reads_of_tenant:
  "GetJobForTenant e x i d = Inr j \<Longrightarrow> jTenantID j = i"
  "GetJobByIdempotencyKey e i k d = Inr j \<Longrightarrow> jTenantID j = i"
  "scan_ok scan \<Longrightarrow> ListJobs e scan f d = Inr js \<Longrightarrow> lfTenantID f = Some i \<Longrightarrow> \<forall>j \<in> set js. jTenantID j = i"
  "scan_ok scan2 \<Longrightarrow> ListSchedules e scan2 coll i d = Inr ss \<Longrightarrow> \<forall>s \<in> set ss. sTenantID s = i"
  by (auto simp: GetJobForTenant_def GetJobByIdempotencyKey_def ListJobs_def ListSchedules_def query_def Let_def set_sql_select
      split: option.splits if_splits dest!: find_result in_set_takeD in_set_dropD)

text \<open>One lemma per handler: what it shows, and what it leaves as it was.\<close>

definition separated :: "uuid \<Rightarrow> db \<Rightarrow> (db \<times> 'r) \<times> response \<Rightarrow> bool" where
  "separated i d res \<longleftrightarrow> body_of_tenant i (rsBody (snd res)) \<and> others_rows i (fst (fst res)) = others_rows i d"

lemmas response_defs = writeError_def writeJSON_def noContent_def

lemma separated_submit:
  assumes "\<forall>i st. wOthers W i st = st"
  shows "separated (tID t) (fst st) (handleSubmitJob R ustr limited W newID rq t st)"
proof -
  have ins: "separated (tID t) d (submit_insert R ustr W j (d, s))" if "jTenantID j = tID t" for j d s
    using that ops_others_rows(1)[OF that, of "wEnv W 2" d] assms reads_of_tenant(2)
    by (fastforce simp: submit_insert_def separated_def response_defs Let_def split: prod.splits sum.splits option.splits)
  have "fst (fst (rate_check R ustr limited W t st)) = fst st"
    using assms by (cases st) (auto simp: rate_check_def split: prod.splits sum.splits)
  moreover have "jTenantID (submitted_job newID t now q) = tID t" for now q
    by (simp add: submitted_job_def split: option.split)
  ultimately show ?thesis
    using ins by (auto simp: handleSubmitJob_def separated_def response_defs split: option.split prod.splits bool.split)
qed

lemma separated_reads:
  assumes "\<forall>i st. wOthers W i st = st" "scan_ok scan" "scan_ok scan2"
  shows "separated (tID t) (fst st) (handleGetJob uparse W rq t st)"
    "separated (tID t) (fst st) (handleListJobs scan W rq t st)"
    "separated (tID t) (fst st) (handleListSchedules scan2 coll W t st)"
proof -
  have w: "wOthers W i st = st" for i using assms(1) by blast
  have lf: "lfTenantID (list_filter t rq) = Some (tID t)" by (simp add: list_filter_def)
  show "separated (tID t) (fst st) (handleGetJob uparse W rq t st)"
    using reads_of_tenant(1) by (auto simp: handleGetJob_def separated_def response_defs Let_def w split: option.split sum.split)
  show "separated (tID t) (fst st) (handleListJobs scan W rq t st)"
    using reads_of_tenant(3)[OF assms(2) _ lf]
    by (auto simp: handleListJobs_def separated_def response_defs Let_def w split: sum.split)
  show "separated (tID t) (fst st) (handleListSchedules scan2 coll W t st)"
    using reads_of_tenant(4)[OF assms(3), where coll = coll]
    by (auto simp: handleListSchedules_def separated_def response_defs Let_def w split: sum.split)
qed

lemma separated_writes:
  assumes "\<forall>i st. wOthers W i st = st" "unique_key jID (jobs (fst st))"
  shows "separated (tID t) (fst st) (handleCancelJob uparse W rq t st)"
    "separated (tID t) (fst st) (handleReplayJob R ustr uparse W rq t st)"
    "separated (tID t) (fst st) (handleCreateSchedule loc_ok cron W newID rq t st)"
    "separated (tID t) (fst st) (handleDeleteSchedule uparse W rq t st)"
proof -
  obtain d s where st: "st = (d, s)" by (cases st)
  note o = ops_others_rows(2,3,5)[where i = "tID t" and d = d]
  have os: "others_rows (tID t) (fst (InsertSchedule e (schedule_of newID t q tz n) d)) = others_rows (tID t) d" for e q tz n
    by (rule ops_others_rows(4)) (simp add: schedule_of_def)
  have rj: "ReplayJob e e' x (tID t) d = (d', Inr j) \<Longrightarrow> jTenantID j = tID t" for e e' x d' j
    using ReplayJob_tenant assms(2) by (simp add: st)
  show "separated (tID t) (fst st) (handleCancelJob uparse W rq t st)"
    using assms(1) o(1) by (auto simp: handleCancelJob_def separated_def response_defs st split: option.split prod.splits sum.splits; metis fst_conv)
  show "separated (tID t) (fst st) (handleReplayJob R ustr uparse W rq t st)"
    using assms(1) o(2) rj by (auto simp: handleReplayJob_def separated_def response_defs st split: option.split prod.splits sum.splits; metis fst_conv)
  show "separated (tID t) (fst st) (handleDeleteSchedule uparse W rq t st)"
    using assms(1) o(3) by (auto simp: handleDeleteSchedule_def separated_def response_defs st split: option.split prod.splits sum.splits; metis fst_conv)
  show "separated (tID t) (fst st) (handleCreateSchedule loc_ok cron W newID rq t st)"
    using assms(1) os by (auto simp: handleCreateSchedule_def separated_def response_defs st Let_def schedule_of_def
        split: option.split prod.splits sum.splits; metis fst_conv)
qed

text \<open>C12. Tenants are separated: on every route for jobs and schedules other than reading one schedule by its
  id, whatever faults the calls meet, a request that is not rejected acts for an active tenant whose
  key it carries; the response shows only jobs and schedules of that tenant, and all rows of other tenants, the
  runs, the dead-letter table and the tenants stay as they were.\<close>

theorem tenant_isolation:
  assumes "\<forall>i st. wOthers (stWorld c) i st = st" "unique_key jID (jobs d)" "scan_ok (stJobs c)" "scan_ok (stSchedules c)"
    and "ep \<notin> {GetScheduleEP, Stats, RecentRuns, DeadLetter}" "hrMethod rq \<noteq> ''OPTIONS''"
    and "serve c ep rq (d, s) = ((d', s'), r)"
  shows "rsCode r = 401 \<and> d' = d \<or>
    (\<exists>t \<in> set (tenants d). active t \<and> tAPIKey t = extractBearerToken rq \<and>
       body_of_tenant (tID t) (rsBody r) \<and> others_rows (tID t) d' = others_rows (tID t) d)"
proof -
  let ?key = "extractBearerToken rq"
  obtain r0 where a: "authMiddleware (stWorld c) rq (dispatch c ep rq) (d, s) = ((d', s'), r0)"
    "rsCode r = rsCode r0" "rsBody r = rsBody r0" by (rule serve_auth[OF assms(6,7)])
  show ?thesis
  proof (cases "?key = [] \<or> (\<exists>x. GetTenantByAPIKey (wEnv (stWorld c) 0) ?key d = Inl x)")
    case True
    then show ?thesis
      using a assms(1) by (cases "?key = []") (auto simp: authMiddleware_def Let_def response_defs)
  next
    case False
    then obtain t where t: "GetTenantByAPIKey (wEnv (stWorld c) 0) ?key d = Inr t" by (metis sum.exhaust)
    then have "dispatch c ep rq t (d, s) = ((d', s'), r0)"
      using a(1) False assms(1) by (simp add: authMiddleware_def Let_def)
    moreover have "separated (tID t) (fst (d, s)) (dispatch c ep rq t (d, s))"
      using separated_submit[OF assms(1), where st = "(d, s)"] separated_reads[OF assms(1,3,4), where st = "(d, s)"]
        separated_writes[OF assms(1), where st = "(d, s)"] assms(2,5)
      by (cases ep) (simp_all add: dispatch_def)
    moreover have "t \<in> set (tenants d) \<and> active t \<and> tAPIKey t = ?key"
      using t by (auto simp: GetTenantByAPIKey_def query_def split: option.splits dest!: find_result)
    ultimately show ?thesis using a(3) by (auto simp: separated_def)
  qed
qed

theorem tenant_isolation_witness:
  "let d = demo_empty\<lparr>jobs := [(demo_job 9)\<lparr>jTenantID := 2\<rparr>], tenants := [demo_tenant]\<rparr>;
       ((d', s'), r) = serve demo_setting SubmitJob (demo_request ''Bearer secret'' demo_body) (d, mem_empty) in
   rsCode r = 201 \<and> map jID (jobs d') = [9, 7] \<and> filter (\<lambda>j. jTenantID j \<noteq> 1) (jobs d') = jobs d"
proof -
  let ?d = "demo_empty\<lparr>jobs := [(demo_job 9)\<lparr>jTenantID := 2\<rparr>], tenants := [demo_tenant]\<rparr>"
  let ?rq = "demo_request ''Bearer secret'' demo_body"
  obtain d' s' r where s: "serve demo_setting SubmitJob ?rq (?d, mem_empty) = ((d', s'), r)" by (metis prod.exhaust)
  have o: "\<forall>i st. wOthers (stWorld demo_setting) i st = st" by (simp add: demo_setting_def demo_world_def)
  have u: "unique_key jID (jobs ?d)" by code_simp
  have sc: "scan_ok (stJobs demo_setting)" "scan_ok (stSchedules demo_setting)" by (simp_all add: demo_setting_def scan_ok_id)
  have m: "SubmitJob \<notin> {GetScheduleEP, Stats, RecentRuns, DeadLetter}" "hrMethod ?rq \<noteq> ''OPTIONS''" by code_simp+
  have "(case serve demo_setting SubmitJob ?rq (?d, mem_empty) of ((d', s'), r) \<Rightarrow> (rsCode r, map jID (jobs d'))) = (201, [9, 7])"
    by code_simp
  then have v: "rsCode r = 201" "map jID (jobs d') = [9, 7]" by (simp_all add: s)
  have t: "tenants ?d = [demo_tenant]" "tID demo_tenant = 1" "filter (\<lambda>j. jTenantID j \<noteq> 1) (jobs ?d) = jobs ?d" by code_simp+
  show ?thesis
    using tenant_isolation[OF o u sc m s] v t unfolding Let_def s by (auto simp: others_rows_def)
qed

end
