(* ===== verification/Submission.thy ===== *)
theory Submission
  imports Requests Lifecycle
begin

text \<open>
  Submitting jobs: what each answer means for the database, that one idempotency key makes one job
  however often it is submitted, and that a run time survives being printed and read.
\<close>

section \<open>One submission\<close>

lemma submitted_job_fields [simp]:
  "jID (submitted_job n t now q) = n" "jTenantID (submitted_job n t now q) = tID t"
  "jIdempotencyKey (submitted_job n t now q) = reqIdempotencyKey q" "jAttempt (submitted_job n t now q) = 0"
  "jPayload (submitted_job n t now q) = reqPayload q" "jType (submitted_job n t now q) = reqType q"
  "inserted_row (submitted_job n t now q) = submitted_job n t now q"
  by (simp_all add: submitted_job_def inserted_row_def split: option.split)

lemma submitted_job_state:
  "jState (submitted_job n t now q) = (case reqRunAt q of None \<Rightarrow> StatePending | Some r \<Rightarrow> if now < r then StateScheduled else StatePending)"
  "jRunAt (submitted_job n t now q) = (case reqRunAt q of None \<Rightarrow> now | Some r \<Rightarrow> max now r)"
  by (simp_all add: submitted_job_def split: option.split)

definition well_formed :: "request \<Rightarrow> submitJobRequest \<Rightarrow> bool" where
  "well_formed rq q \<longleftrightarrow> decode_submit (hrBody rq) = Some q \<and> reqType q \<noteq> [] \<and> reqPayload q \<noteq> None"

lemma rate_check_db: "\<forall>i st. wOthers W i st = st \<Longrightarrow> fst (fst (rate_check R ustr limited W t (d, s))) = d"
  by (auto simp: rate_check_def split: prod.split sum.split)

lemma rate_check_lists:
  assumes "limiter_lists R L" "\<forall>i st. wOthers W i st = st"
  shows "L (snd (fst (rate_check R ustr limited W t (d, s)))) = L s"
proof -
  have a: "L (fst (Allow R ustr now i n s)) = L s" for now i n by (rule Allow_lists[OF assms(1)])
  show ?thesis using assms(2) a by (auto simp: rate_check_def split: prod.split sum.split) (metis fst_conv)+
qed

text \<open>Every submission is malformed, or rejected by the limiter, or reaches the insertion.\<close>

lemma submit_cases [consumes 1, case_names Malformed Limited Inserted]:
  assumes "\<forall>i st. wOthers W i st = st"
  obtains
    (Malformed) r where "handleSubmitJob R ustr limited W newID rq t (d, s) = ((d, s), r)" "rsCode r = 400"
      "\<And>q. \<not> well_formed rq q"
  | (Limited) s1 r where "handleSubmitJob R ustr limited W newID rq t (d, s) = ((d, s1), r)" "rsCode r = 429"
      "rate_check R ustr limited W t (d, s) = ((d, s1), False)"
  | (Inserted) q s1 where "well_formed rq q" "rate_check R ustr limited W t (d, s) = ((d, s1), True)"
      "handleSubmitJob R ustr limited W newID rq t (d, s) =
         submit_insert R ustr W (submitted_job newID t (go_now (wEnv W 2)) q) (d, s1)"
proof (cases "\<exists>q. well_formed rq q")
  case False
  then show thesis
    by (intro Malformed[of "snd (handleSubmitJob R ustr limited W newID rq t (d, s))"])
      (auto simp: handleSubmitJob_def well_formed_def response_defs split: option.split)
next
  case True
  then obtain q where q: "well_formed rq q" by blast
  obtain d1 s1 b where c: "rate_check R ustr limited W t (d, s) = ((d1, s1), b)" by (metis prod.exhaust)
  then have "d1 = d" using rate_check_db[OF assms, of R ustr limited t d s] by simp
  then have c: "rate_check R ustr limited W t (d, s) = ((d, s1), b)" using c by simp
  show thesis
  proof (cases b)
    case True
    then show thesis using q c by (intro Inserted[OF q]) (auto simp: handleSubmitJob_def well_formed_def)
  next
    case False
    then show thesis
      using q c by (intro Limited[of s1 "writeError 429 ''rate limit exceeded''"])
        (auto simp: handleSubmitJob_def well_formed_def response_defs)
  qed
qed

text \<open>A job that was created: what it is, that it was stored, and that it is on its queue when it is pending.\<close>

lemma submit_created:
  assumes "quiet W" "limiter_lists R L" "lists_ok R L" "no_errors R"
    and "handleSubmitJob R ustr limited W newID rq t (d, s) = ((d', s'), r)" "rsCode r = 201"
  obtains q where "well_formed rq q" "rsBody r = JobBody (submitted_job newID t (go_now (wEnv W 2)) q)"
    "d' = d\<lparr>jobs := jobs d @ [submitted_job newID t (go_now (wEnv W 2)) q]\<rparr>"
    "d' = apply_op (Op_InsertJob (wEnv W 2) (submitted_job newID t (go_now (wEnv W 2)) q)) d"
    "\<not> unique_violated d (submitted_job newID t (go_now (wEnv W 2)) q)"
    "\<And>k. L s' k = (if jState (submitted_job newID t (go_now (wEnv W 2)) q) = StatePending \<and>
          job_key ustr (submitted_job newID t (go_now (wEnv W 2)) q) = k then ustr newID # L s k else L s k)"
proof -
  have no: "\<forall>i st. wOthers W i st = st" using quietD(2)[OF assms(1)] by blast
  note l = rate_check_lists[OF assms(2) no, of ustr limited t d s]
  from no show thesis
  proof (cases rule: submit_cases[where R = R and ustr = ustr and limited = limited and newID = newID and rq = rq and t = t and d = d and s = s])
    case (Inserted q s1)
    define j where "j = submitted_job newID t (go_now (wEnv W 2)) q"
    have h: "submit_insert R ustr W j (d, s1) = ((d', s'), r)" using Inserted(3) assms(5) by (simp add: j_def)
    have f: "jID j = newID" "jTenantID j = tID t" "inserted_row j = j" by (simp_all add: j_def)
    obtain d1 o1 where o1: "InsertJob (wEnv W 2) j d = (d1, o1)" by (rule prod.exhaust)
    have ok: "o1 = Inr ()"
    proof (cases o1)
      case (Inl x)
      then show ?thesis
        using h o1 no assms(6)
        by (auto simp: submit_insert_def response_defs Let_def split: if_splits option.splits sum.splits)
    qed simp
    then have d1: "\<not> unique_violated d j" "d1 = d\<lparr>jobs := jobs d @ [j]\<rparr>"
      using InsertJob_cases[of "wEnv W 2" j d d1] o1 f(3) by simp_all
    have res: "d' = d1" "rsBody r = JobBody j" "s' = (if jState j = StatePending then fst (Enqueue R ustr (tID t) newID (jPriority j) s1) else s1)"
      using h o1 ok no f by (auto simp: submit_insert_def response_defs split: if_splits)
    have "L s' k = (if jState j = StatePending \<and> job_key ustr j = k then ustr newID # L s k else L s k)" for k
      using Enqueue_job[OF assms(3,4), of ustr j s1] f(1,2) l Inserted(2) by (simp add: res(3))
    then show thesis
      using that[OF Inserted(1)] res d1 o1 unfolding j_def by simp
  qed (use assms(5,6) in auto)
qed

text \<open>C14. What the answer to a submission means, whatever faults its calls meet: 201 says that exactly the
  shown job was added to the table, pending or scheduled, even when Redis failed; 400 and 429 say that the database
  is unchanged; so do 200, 409 and 500, unless the insertion reported an error although the server
  may have executed it.\<close>

theorem submit_acknowledged:
  assumes "\<forall>i st. wOthers W i st = st" "handleSubmitJob R ustr limited W newID rq t (d, s) = ((d', s'), r)"
  shows "rsCode r \<in> {200, 201, 400, 409, 429, 500} \<and>
    (rsCode r = 201 \<longrightarrow> (\<exists>j. rsBody r = JobBody j \<and> jID j = newID \<and> jTenantID j = tID t \<and>
       jState j \<in> {StatePending, StateScheduled} \<and> d' = d\<lparr>jobs := jobs d @ [j]\<rparr>)) \<and>
    (rsCode r \<in> {400, 429} \<longrightarrow> d' = d) \<and>
    (rsCode r \<in> {200, 409, 500} \<and> stmt_err (wEnv W 2) 0 = None \<longrightarrow> d' = d)"
  using assms(1)
proof (cases rule: submit_cases[where R = R and ustr = ustr and limited = limited and newID = newID and rq = rq and t = t and d = d and s = s])
  case (Inserted q s1)
  define j where "j = submitted_job newID t (go_now (wEnv W 2)) q"
  have st: "jState j \<in> {StatePending, StateScheduled}" by (simp add: j_def submitted_job_state split: option.split)
  have i: "submit_insert R ustr W j (d, s1) = ((d', s'), r)" using Inserted(3) assms(2) by (simp add: j_def)
  show ?thesis
  proof (cases "snd (InsertJob (wEnv W 2) j d)")
    case (Inl x)
    then obtain d1 where o: "InsertJob (wEnv W 2) j d = (d1, Inl x)" by (metis prod.collapse)
    then have "stmt_err (wEnv W 2) 0 = None \<Longrightarrow> d1 = d"
      by (auto simp: InsertJob_def Let_def split: if_splits)
    with i o assms(1) show ?thesis
      by (auto simp: submit_insert_def response_defs Let_def split: if_splits option.splits sum.splits)
  next
    case (Inr u)
    then obtain d1 where o: "InsertJob (wEnv W 2) j d = (d1, Inr ())" by (metis prod.collapse old.unit.exhaust)
    then have "d1 = d\<lparr>jobs := jobs d @ [j]\<rparr>" using InsertJob_cases[OF o] by (simp add: j_def)
    with i o assms(1) st show ?thesis
      by (auto simp: submit_insert_def response_defs Let_def j_def split: if_splits)
  qed
qed (use assms(2) in auto)

theorem submit_acknowledged_witness:
  "let ((d', s'), r) = handleSubmitJob mem_redis ref_ustr True demo_world 7 (demo_request [] demo_body) demo_tenant
         (demo_empty, mem_empty) in
   rsCode r = 201 \<and> (\<exists>j. rsBody r = JobBody j \<and> jID j = 7 \<and> jobs d' = [j])"
proof -
  obtain d' s' r where h: "handleSubmitJob mem_redis ref_ustr True demo_world 7 (demo_request [] demo_body) demo_tenant
      (demo_empty, mem_empty) = ((d', s'), r)" by (metis prod.exhaust)
  have "rsCode (snd (handleSubmitJob mem_redis ref_ustr True demo_world 7 (demo_request [] demo_body) demo_tenant
      (demo_empty, mem_empty))) = 201" by code_simp
  then have c: "rsCode r = 201" by (simp add: h)
  have o: "\<forall>i st. wOthers demo_world i st = st" by (simp add: demo_world_def)
  show ?thesis
    using submit_acknowledged[OF o h] c unfolding h by (auto simp: demo_empty_def)
qed

section \<open>Idempotency keys\<close>

text \<open>The messages of the server for a violated unique constraint carry the code 23505.\<close>

definition unique_code :: "'r world \<Rightarrow> bool" where
  "unique_code W \<longleftrightarrow> (\<forall>i. isUniqueViolation (unique_msg (wEnv W i)))"

definition keyed :: "uuid \<Rightarrow> string \<Rightarrow> job \<Rightarrow> bool" where
  "keyed i k = (\<lambda>j. jTenantID j = i \<and> jIdempotencyKey j = Some k)"

text \<open>A submission of the tenant \<open>t\<close> with the key \<open>k\<close> whose values the columns can hold.\<close>

definition submits :: "'r world \<Rightarrow> uuid \<Rightarrow> request \<Rightarrow> Tenant \<Rightarrow> string \<Rightarrow> bool" where
  "submits W newID rq t k \<longleftrightarrow> (\<exists>q. well_formed rq q \<and> reqIdempotencyKey q = Some k \<and>
     storable (submitted_job newID t (go_now (wEnv W 2)) q))"

lemma submit_again:
  assumes "quiet W" "unique_code W" "submits W newID rq t k" "find (keyed (tID t) k) (jobs d) = Some x"
    and "limiter_lists R L" "handleSubmitJob R ustr limited W newID rq t (d, s) = ((d', s'), r)"
  shows "d' = d \<and> L s' = L s \<and> (rsCode r = 429 \<or> rsCode r = 200 \<and> rsBody r = JobBody x)"
proof -
  have no: "\<forall>i st. wOthers W i st = st" using quietD(2)[OF assms(1)] by blast
  note l = rate_check_lists[OF assms(5) no, of ustr limited t d s]
  from no show ?thesis
  proof (cases rule: submit_cases[where R = R and ustr = ustr and limited = limited and newID = newID and rq = rq and t = t and d = d and s = s])
    case (Inserted q s1)
    let ?j = "submitted_job newID t (go_now (wEnv W 2)) q"
    have q: "reqIdempotencyKey q = Some k" "storable ?j"
      using assms(3) Inserted(1) by (auto simp: submits_def well_formed_def)
    have "unique_violated d ?j"
      using find_result[OF assms(4)] q by (auto simp: unique_violated_def keyed_def)
    then have i: "InsertJob (wEnv W 2) ?j d = (d, Inl ErrDuplicate)"
      using InsertJob_duplicate[OF quietD(1)[OF assms(1)] q(2)] assms(2) by (simp add: unique_code_def)
    have g: "GetJobByIdempotencyKey (wEnv W 3) (tID t) k d = Inr x"
      using assms(4) quietD(1)[OF assms(1), of 3]
      by (simp add: GetJobByIdempotencyKey_def query_def calm_def keyed_def)
    show ?thesis
      using Inserted assms(6) l no q i g by (simp add: submit_insert_def response_defs Let_def)
  qed (use assms(3,6) l in \<open>auto simp: submits_def\<close>)
qed

lemma submit_first:
  assumes "quiet W" "submits W newID rq t k" "find (keyed (tID t) k) (jobs d) = None" "newID \<notin> jID ` set (jobs d)"
    and "limiter_lists R L" "lists_ok R L" "handleSubmitJob R ustr limited W newID rq t (d, s) = ((d', s'), r)"
  shows "rsCode r = 429 \<and> d' = d \<and> L s' = L s \<or>
    (\<exists>j. rsCode r = 201 \<and> rsBody r = JobBody j \<and> jID j = newID \<and> keyed (tID t) k j \<and>
       d' = d\<lparr>jobs := jobs d @ [j]\<rparr> \<and> find (keyed (tID t) k) (jobs d') = Some j \<and>
       (L s' = L s \<or> L s' = pushed (job_key ustr j) (ustr newID) (L s)))"
proof -
  have no: "\<forall>i st. wOthers W i st = st" using quietD(2)[OF assms(1)] by blast
  note l = rate_check_lists[OF assms(5) no, of ustr limited t d s]
  from no show ?thesis
  proof (cases rule: submit_cases[where R = R and ustr = ustr and limited = limited and newID = newID and rq = rq and t = t and d = d and s = s])
    case (Inserted q s1)
    define j where "j = submitted_job newID t (go_now (wEnv W 2)) q"
    have q: "reqIdempotencyKey q = Some k" "storable j"
      using assms(2) Inserted(1) by (auto simp: submits_def well_formed_def j_def)
    have none: "\<forall>y \<in> set (jobs d). \<not> keyed (tID t) k y" using assms(3) by (simp add: find_None_iff)
    then have "\<not> unique_violated d j"
      using assms(4) q by (auto simp: unique_violated_def keyed_def j_def)
    then have i: "InsertJob (wEnv W 2) j d = (d\<lparr>jobs := jobs d @ [j]\<rparr>, Inr ())"
      using InsertJob_new[OF quietD(1)[OF assms(1)] q(2)] by (simp add: j_def)
    have k: "keyed (tID t) k j" using q by (simp add: keyed_def j_def)
    have f: "find (keyed (tID t) k) (jobs d @ [j]) = Some j" using none k by (simp add: find_snoc)
    have p: "L (fst (Enqueue R ustr (tID t) newID (jPriority j) s1)) = L s1 \<or>
        L (fst (Enqueue R ustr (tID t) newID (jPriority j) s1)) = pushed (job_key ustr j) (ustr newID) (L s1)"
      using LPush_cases[OF assms(6)]
      by (auto simp: Enqueue_def Let_def job_key_def j_def split: prod.split sum.split) (metis)+
    show ?thesis
      using Inserted(2,3) assms(7) l no i k f p unfolding j_def [symmetric]
      by (auto simp: submit_insert_def response_defs j_def split: if_splits)
  qed (use assms(2,7) l in \<open>auto simp: submits_def\<close>)
qed

text \<open>Submissions of one tenant in a row, each with its world and the id it would give the job.\<close>

fun submit_all ::
    "'r redis \<Rightarrow> (uuid \<Rightarrow> string) \<Rightarrow> bool \<Rightarrow> Tenant \<Rightarrow> ('r world \<times> uuid \<times> request) list \<Rightarrow> db \<times> 'r \<Rightarrow>
     (db \<times> 'r) \<times> response list" where
  "submit_all R ustr limited t [] st = (st, [])"
| "submit_all R ustr limited t ((W, newID, rq) # rest) st =
     (case handleSubmitJob R ustr limited W newID rq t st of (st1, r) \<Rightarrow>
      case submit_all R ustr limited t rest st1 of (st2, rs) \<Rightarrow> (st2, r # rs))"

definition submissions_ok :: "Tenant \<Rightarrow> string \<Rightarrow> ('r world \<times> uuid \<times> request) list \<Rightarrow> bool" where
  "submissions_ok t k xs \<longleftrightarrow> (\<forall>(W, newID, rq) \<in> set xs. quiet W \<and> unique_code W \<and> submits W newID rq t k)"

lemma submit_all_again:
  assumes "submissions_ok t k xs" "find (keyed (tID t) k) (jobs d) = Some x" "limiter_lists R L"
    and "submit_all R ustr limited t xs (d, s) = ((d', s'), rs)"
  shows "d' = d \<and> L s' = L s \<and> (\<forall>r \<in> set rs. rsCode r = 429 \<or> rsCode r = 200 \<and> rsBody r = JobBody x)"
  using assms(1,4)
proof (induction xs arbitrary: s rs)
  case (Cons a xs)
  obtain W n rq where a: "a = (W, n, rq)" by (cases a)
  obtain d1 s1 r where h: "handleSubmitJob R ustr limited W n rq t (d, s) = ((d1, s1), r)" by (metis prod.exhaust)
  obtain rs1 where rs: "submit_all R ustr limited t xs (d1, s1) = ((d', s'), rs1)" "rs = r # rs1"
    using Cons.prems(2) by (auto simp: a h split: prod.splits)
  have ok: "quiet W" "unique_code W" "submits W n rq t k" "submissions_ok t k xs"
    using Cons.prems(1) by (auto simp: submissions_ok_def a)
  note 1 = submit_again[OF ok(1-3) assms(2,3) h]
  then show ?case using Cons.IH[OF ok(4), of s1 rs1] rs by auto
qed (auto)

text \<open>The responses \<open>rs\<close> show one job that was added, created by one of them.\<close>

definition one_job ::
    "('r \<Rightarrow> string \<Rightarrow> string list) \<Rightarrow> (uuid \<Rightarrow> string) \<Rightarrow> db \<times> 'r \<Rightarrow> db \<times> 'r \<Rightarrow> response list \<Rightarrow> bool" where
  "one_job L ustr st st' rs \<longleftrightarrow>
    (\<exists>j pre r post. rs = pre @ r # post \<and> (\<forall>x \<in> set pre. rsCode x = 429) \<and> rsCode r = 201 \<and> rsBody r = JobBody j \<and>
       (\<forall>x \<in> set post. rsCode x = 429 \<or> rsCode x = 200 \<and> rsBody x = JobBody j) \<and>
       fst st' = (fst st)\<lparr>jobs := jobs (fst st) @ [j]\<rparr> \<and>
       (L (snd st') = L (snd st) \<or> L (snd st') = pushed (job_key ustr j) (ustr (jID j)) (L (snd st))))"

lemma one_job_skip:
  assumes "one_job L ustr (d, s1) st' rs" "rsCode r = 429" "L s1 = L s"
  shows "one_job L ustr (d, s) st' (r # rs)"
proof -
  obtain j pre x post where "rs = pre @ x # post" "\<forall>x \<in> set pre. rsCode x = 429" "rsCode x = 201" "rsBody x = JobBody j"
    "\<forall>x \<in> set post. rsCode x = 429 \<or> rsCode x = 200 \<and> rsBody x = JobBody j" "fst st' = d\<lparr>jobs := jobs d @ [j]\<rparr>"
    "L (snd st') = L s \<or> L (snd st') = pushed (job_key ustr j) (ustr (jID j)) (L s)"
    using assms(1,3) unfolding one_job_def by auto
  then show ?thesis
    using assms(2) unfolding one_job_def
    by (intro exI[of _ j] exI[of _ "r # pre"] exI[of _ x] exI[of _ post]) simp
qed

text \<open>C13. Retried submissions make one job: however often a tenant submits with one idempotency key that it has
  not used before, even with different contents, at most one job is added; every
  answer is 429 (rate limit), or shows the same job, with 201 for the first one only; and the job is put on
  its queue at most once.\<close>

theorem submit_idempotent:
  assumes "submissions_ok t k xs" "find (keyed (tID t) k) (jobs d) = None" "\<forall>x \<in> set xs. fst (snd x) \<notin> jID ` set (jobs d)"
    and "limiter_lists R L" "lists_ok R L" "submit_all R ustr limited t xs (d, s) = ((d', s'), rs)"
  shows "(\<forall>r \<in> set rs. rsCode r = 429) \<and> d' = d \<and> L s' = L s \<or> one_job L ustr (d, s) (d', s') rs"
  using assms(1,3,6)
proof (induction xs arbitrary: s rs)
  case (Cons a xs)
  obtain W n rq where a: "a = (W, n, rq)" by (cases a)
  obtain d1 s1 r where h: "handleSubmitJob R ustr limited W n rq t (d, s) = ((d1, s1), r)" by (metis prod.exhaust)
  obtain rs1 where rs: "submit_all R ustr limited t xs (d1, s1) = ((d', s'), rs1)" "rs = r # rs1"
    using Cons.prems(3) by (auto simp: a h split: prod.splits)
  have ok: "quiet W" "submits W n rq t k" "submissions_ok t k xs" "n \<notin> jID ` set (jobs d)"
    using Cons.prems(1,2) by (auto simp: submissions_ok_def a)
  from submit_first[OF ok(1,2) assms(2) ok(4) assms(4,5) h]
  consider (limited) "rsCode r = 429" "d1 = d" "L s1 = L s"
    | (created) j where "rsCode r = 201" "rsBody r = JobBody j" "jID j = n" "d1 = d\<lparr>jobs := jobs d @ [j]\<rparr>"
      "find (keyed (tID t) k) (jobs d1) = Some j" "L s1 = L s \<or> L s1 = pushed (job_key ustr j) (ustr n) (L s)" by blast
  then show ?case
  proof cases
    case limited
    then show ?thesis
      using Cons.IH[OF ok(3), of s1 rs1] Cons.prems(2) rs one_job_skip[of L ustr d s1 "(d', s')" rs1 r s] by auto
  next
    case created
    from submit_all_again[OF ok(3) created(5) assms(4) rs(1)] created rs(2)
    show ?thesis
      unfolding one_job_def by (intro disjI2 exI[of _ j] exI[of _ "[]"] exI[of _ r] exI[of _ rs1]) auto
  qed
qed simp

theorem submit_idempotent_witness:
  "let xs = [(demo_world, 7, demo_request [] demo_body),
             (demo_world, 8, demo_request [] (JObj [(''type'', JStr ''other''), (''payload'', JNull), (''idempotency_key'', JStr ''k'')])),
             (demo_world, 9, demo_request [] demo_body)];
       (st', rs) = submit_all mem_redis ref_ustr True demo_tenant xs (demo_empty, mem_empty) in
   map rsCode rs = [201, 200, 429] \<and> one_job mLists ref_ustr (demo_empty, mem_empty) st' rs"
proof -
  let ?xs = "[(demo_world, 7, demo_request [] demo_body),
     (demo_world, 8, demo_request [] (JObj [(''type'', JStr ''other''), (''payload'', JNull), (''idempotency_key'', JStr ''k'')])),
     (demo_world, 9, demo_request [] demo_body)]"
  obtain d' s' rs where h: "submit_all mem_redis ref_ustr True demo_tenant ?xs (demo_empty, mem_empty) = ((d', s'), rs)"
    by (metis prod.exhaust)
  have "map rsCode (snd (submit_all mem_redis ref_ustr True demo_tenant ?xs (demo_empty, mem_empty))) = [201, 200, 429]"
    by code_simp
  then have c: "map rsCode rs = [201, 200, 429]" unfolding h snd_conv .
  have u: "unique_code demo_world" using contains_infix[of "[]" "''23505''" "[]"]
    by (simp add: unique_code_def demo_world_def demo_env_def isUniqueViolation_def)
  have d: "decode_submit (hrBody (demo_request [] demo_body)) = Some \<lparr>reqType = ''webhook'', reqPayload = Some JNull, reqPriority = None,
      reqRunAt = None, reqMaxRetries = None, reqBackoffSeconds = None, reqIdempotencyKey = Some ''k''\<rparr>"
    "decode_submit (hrBody (demo_request [] (JObj [(''type'', JStr ''other''), (''payload'', JNull), (''idempotency_key'', JStr ''k'')]))) =
      Some \<lparr>reqType = ''other'', reqPayload = Some JNull, reqPriority = None,
      reqRunAt = None, reqMaxRetries = None, reqBackoffSeconds = None, reqIdempotencyKey = Some ''k''\<rparr>" by code_simp+
  have ok: "submissions_ok demo_tenant ''k'' ?xs"
    using u demo_world_quiet
    by (simp add: submissions_ok_def submits_def well_formed_def d storable_def submitted_job_def or_default_def int2_ok_def int4_ok_def
        PriorityNormal_def)
  have n: "find (keyed (tID demo_tenant) ''k'') (jobs demo_empty) = None" "\<forall>x \<in> set ?xs. fst (snd x) \<notin> jID ` set (jobs demo_empty)"
    by (simp_all add: demo_empty_def)
  from c have "\<exists>r \<in> set rs. rsCode r = 201" by (cases rs) auto
  then have "one_job mLists ref_ustr (demo_empty, mem_empty) (d', s') rs"
    using submit_idempotent[OF ok n mem_redis_limiter mem_redis_lists_ok h] by force
  with c show ?thesis unfolding h Let_def prod.case by blast
qed

section \<open>Run times\<close>

definition run_at_body :: "string \<Rightarrow> json \<Rightarrow> string \<Rightarrow> json" where
  "run_at_body ty p r = JObj [(''type'', JStr ty), (''payload'', p), (''run_at'', JStr r)]"

lemma decode_run_at:
  "decode_submit (Some (run_at_body ty p r)) =
     map_option (\<lambda>x. \<lparr>reqType = ty, reqPayload = Some p, reqPriority = None, reqRunAt = Some x, reqMaxRetries = None,
       reqBackoffSeconds = None, reqIdempotencyKey = None\<rparr>) (UnmarshalTime r)"
proof -
  have e: "EqualFold ''type'' ''payload'' = False" "EqualFold ''type'' ''run_at'' = False" "EqualFold ''payload'' ''type'' = False"
    "EqualFold ''payload'' ''run_at'' = False" "EqualFold ''run_at'' ''type'' = False" "EqualFold ''run_at'' ''payload'' = False"
    "EqualFold ''type'' ''priority'' = False" "EqualFold ''payload'' ''priority'' = False" "EqualFold ''run_at'' ''priority'' = False"
    "EqualFold ''type'' ''max_retries'' = False" "EqualFold ''payload'' ''max_retries'' = False" "EqualFold ''run_at'' ''max_retries'' = False"
    "EqualFold ''type'' ''backoff_seconds'' = False" "EqualFold ''payload'' ''backoff_seconds'' = False"
    "EqualFold ''run_at'' ''backoff_seconds'' = False" "EqualFold ''type'' ''idempotency_key'' = False"
    "EqualFold ''payload'' ''idempotency_key'' = False" "EqualFold ''run_at'' ''idempotency_key'' = False"
    by code_simp+
  show ?thesis
    by (cases "UnmarshalTime r") (simp_all add: decode_submit_def run_at_body_def e)
qed

text \<open>C34. A run time survives printing and reading: when a client submits the text that the interface prints for
  a future time of whole microseconds (in whatever zone the server runs), the accepted job is scheduled for
  exactly that time, and reading it by its id shows the scheduled job with that time again. PostgreSQL keeps
  microseconds, so a finer time would be read back rounded.\<close>

theorem submit_run_at_roundtrip:
  assumes "quiet W" "printable off x" "x mod 1000 = 0" "go_now (wEnv W 2) < x" "ty \<noteq> []" "newID \<notin> jID ` set (jobs d)"
    and "hrBody rq = Some (run_at_body ty p (MarshalTime off x))" "uparse (hrID rq') = Some newID"
  shows "\<exists>d' r j. handleSubmitJob R ustr False W newID rq t (d, s) = ((d', s), r) \<and> rsCode r = 201 \<and> rsBody r = JobBody j \<and>
    jState j = StateScheduled \<and> jRunAt j = x \<and>
    (\<exists>j'. handleGetJob uparse W rq' t (d', s) = ((d', s), writeJSON 200 (JobBody j')) \<and>
       jID j' = newID \<and> jState j' = StateScheduled \<and> jRunAt j' = x)"
proof -
  define j where "j = submitted_job newID t (go_now (wEnv W 2)) \<lparr>reqType = ty, reqPayload = Some p, reqPriority = None,
    reqRunAt = Some x, reqMaxRetries = None, reqBackoffSeconds = None, reqIdempotencyKey = None\<rparr>"
  have no: "wOthers W i st = st" for i st using quietD(2)[OF assms(1)] .
  have q: "decode_submit (hrBody rq) = Some \<lparr>reqType = ty, reqPayload = Some p, reqPriority = None,
    reqRunAt = Some x, reqMaxRetries = None, reqBackoffSeconds = None, reqIdempotencyKey = None\<rparr>"
    using UnmarshalTime_MarshalTime[OF assms(2)] by (simp add: assms(7) decode_run_at)
  have f: "jState j = StateScheduled" "jRunAt j = x" "jID j = newID" "jTenantID j = tID t" "inserted_row j = j"
    using assms(4) by (simp_all add: j_def submitted_job_state)
  have "storable j" by (simp add: j_def storable_def submitted_job_def or_default_def int2_ok_def int4_ok_def PriorityNormal_def)
  moreover have "\<not> unique_violated d j" using assms(6) by (auto simp: unique_violated_def j_def)
  ultimately have i: "InsertJob (wEnv W 2) j d = (d\<lparr>jobs := jobs d @ [j]\<rparr>, Inr ())"
    using InsertJob_new[OF quietD(1)[OF assms(1)]] f(5) by simp
  have "handleSubmitJob R ustr False W newID rq t (d, s) = ((d\<lparr>jobs := jobs d @ [j]\<rparr>, s), writeJSON 201 (JobBody j))"
    using assms(5) f i by (simp add: handleSubmitJob_def q rate_check_def submit_insert_def no j_def [symmetric])
  moreover have "find (\<lambda>j. jID j = newID \<and> jTenantID j = tID t) (jobs d @ [j]) = Some j"
    using assms(6) f by (subst find_snoc) (metis imageI, simp)
  then have "GetJobForTenant (wEnv W 1) newID (tID t) (d\<lparr>jobs := jobs d @ [j]\<rparr>) = Inr j"
    using quietD(1)[OF assms(1), of 1] by (simp add: GetJobForTenant_def query_def calm_def)
  then have "handleGetJob uparse W rq' t (d\<lparr>jobs := jobs d @ [j]\<rparr>, s) = ((d\<lparr>jobs := jobs d @ [j]\<rparr>, s), writeJSON 200 (JobBody j))"
    by (simp add: handleGetJob_def assms(8) no)
  ultimately show ?thesis using f by (intro exI[of _ "d\<lparr>jobs := jobs d @ [j]\<rparr>"] exI[of _ "writeJSON 201 (JobBody j)"] exI[of _ j])
      (simp add: writeJSON_def)
qed

theorem submit_run_at_roundtrip_witness:
  "let x = 1709263799 * second + 500 * millisecond;
       rq = demo_request [] (run_at_body ''webhook'' JNull (MarshalTime (- 210) x)) in
   printable (- 210) x \<and>
   (\<exists>d' r j. handleSubmitJob mem_redis ref_ustr False demo_world 7 rq demo_tenant (demo_empty, mem_empty) = ((d', mem_empty), r) \<and>
      rsBody r = JobBody j \<and> jRunAt j = x)"
proof -
  let ?x = "1709263799 * second + 500 * millisecond"
  have p: "printable (- 210) ?x" "?x mod 1000 = 0" "go_now (wEnv demo_world 2) < ?x" "7 \<notin> jID ` set (jobs demo_empty)"
    "ref_uparse (hrID (demo_request [] JNull)) = Some 7" by code_simp+
  have b: "hrBody (demo_request [] (run_at_body ''webhook'' JNull (MarshalTime (- 210) ?x))) =
      Some (run_at_body ''webhook'' JNull (MarshalTime (- 210) ?x))" by (simp add: demo_request_def)
  have w: "''webhook'' \<noteq> []" by simp
  from submit_run_at_roundtrip[where uparse = ref_uparse and rq' = "demo_request [] JNull" and R = mem_redis and ustr = ref_ustr and
      t = demo_tenant and s = mem_empty, OF demo_world_quiet p(1-3) w p(4) b p(5)] p(1)
  show ?thesis unfolding Let_def by blast
qed

end
