(* ===== verification/Cron.thy ===== *)
theory Cron
  imports Recovery Api
begin

text \<open>
  internal/scheduler/scheduler.go, \<open>expandCron\<close> and \<open>fireSchedule\<close>: turning due schedules into jobs. The cron
  package is the parameter \<open>cron\<close> of the theory \<open>Api\<close>; \<open>expr.Next(now)\<close> is asked with the clock of the process, whose
  zone is called \<open>Local\<close>.
\<close>

section \<open>Firing a schedule\<close>

record job_template =
  tplType :: string
  tplPayload :: "json option"
  tplPriority :: "int option"
  tplMaxRetries :: "int option"
  tplBackoffSeconds :: "int option"

definition decode_template :: "json option \<Rightarrow> job_template option" where
  "decode_template b =
     do {
       v \<leftarrow> b;
       ty \<leftarrow> field dec_string ''type'' [] v;
       p \<leftarrow> field dec_raw ''payload'' None v;
       pr \<leftarrow> field (dec_int_ptr 16) ''priority'' None v;
       m \<leftarrow> field (dec_int_ptr 64) ''max_retries'' None v;
       bo \<leftarrow> field (dec_int_ptr 64) ''backoff_seconds'' None v;
       Some \<lparr>tplType = ty, tplPayload = p, tplPriority = pr, tplMaxRetries = m, tplBackoffSeconds = bo\<rparr>
     }"

definition cron_job :: "uuid \<Rightarrow> Schedule \<Rightarrow> time \<Rightarrow> job_template \<Rightarrow> job" where
  "cron_job newID sched now tp =
     \<lparr>jID = newID, jTenantID = sTenantID sched, jType = tplType tp, jPayload = tplPayload tp,
      jPriority = or_default (tplPriority tp) PriorityNormal, jState = StatePending, jRunAt = now,
      jClaimedAt = None, jClaimedBy = None, jClaimToken = None, jDeadline = None, jAttempt = 0,
      jMaxRetries = or_default (tplMaxRetries tp) 3, jBackoffSeconds = or_default (tplBackoffSeconds tp) 30,
      jIdempotencyKey = None, jLastError = None, jCreatedAt = now, jCompletedAt = None\<rparr>"

text \<open>The calls: \<open>i\<close> the insertion, \<open>i + 1\<close> the enqueueing, \<open>i + 2\<close> the update of the schedule.\<close>

definition fireSchedule ::
    "'r redis \<Rightarrow> (uuid \<Rightarrow> string) \<Rightarrow> cron_parser \<Rightarrow> 'r world \<Rightarrow> nat \<Rightarrow> uuid \<Rightarrow> Schedule \<Rightarrow> db \<times> 'r \<Rightarrow> (db \<times> 'r) \<times> unit res" where
  "fireSchedule R ustr cron W i newID sched st =
     (case cron (sCron sched) of
        Inl m \<Rightarrow> (st, Inl (Wrapped ''parse cron'' (Driver m)))
      | Inr nxt \<Rightarrow>
          let now = go_now (wEnv W i); nextRunAt = nxt ''Local'' now in
          (case decode_template (sJobTemplate sched) of
             None \<Rightarrow> (st, Inl (Wrapped ''unmarshal job template'' (Driver [])))
           | Some tp \<Rightarrow>
               let j = cron_job newID sched now tp in
               (case wOthers W i st of (d, s) \<Rightarrow>
                case InsertJob (wEnv W i) j d of
                  (d1, Inl x) \<Rightarrow> ((d1, s), Inl (Wrapped ''insert cron job'' x))
                | (d1, Inr _) \<Rightarrow>
                    (case wOthers W (i + 1) (d1, s) of (d2, s2) \<Rightarrow>
                     let s3 = fst (Enqueue R ustr (jTenantID j) (jID j) (jPriority j) s2) in
                     case wOthers W (i + 2) (d2, s3) of (d4, s4) \<Rightarrow>
                     case UpdateScheduleAfterRun (wEnv W (i + 2)) (sID sched) now nextRunAt d4 of
                       (d5, Inl x) \<Rightarrow> ((d5, s4), Inl (Wrapped ''update schedule next_run_at'' x))
                     | (d5, Inr _) \<Rightarrow> ((d5, s4), Inr ())))))"

text \<open>\<open>ids i\<close> is the id made for the \<open>i\<close>-th schedule of the batch; an error is logged and the loop goes on.\<close>

definition fire_one ::
    "'r redis \<Rightarrow> (uuid \<Rightarrow> string) \<Rightarrow> cron_parser \<Rightarrow> (nat \<Rightarrow> uuid) \<Rightarrow> 'r world \<Rightarrow> nat \<Rightarrow> Schedule \<Rightarrow> db \<times> 'r \<Rightarrow> db \<times> 'r" where
  "fire_one R ustr cron ids W i sched st = fst (fireSchedule R ustr cron W (3 * i + 1) (ids i) sched st)"

definition expandCron ::
    "'r redis \<Rightarrow> (uuid \<Rightarrow> string) \<Rightarrow> cron_parser \<Rightarrow> (nat \<Rightarrow> uuid) \<Rightarrow> (Schedule list \<Rightarrow> Schedule list) \<Rightarrow> 'r world \<Rightarrow>
     db \<times> 'r \<Rightarrow> db \<times> 'r" where
  "expandCron R ustr cron ids scan W st =
     (let st0 = wOthers W 0 st in
      case GetDueSchedules (wEnv W 0) scan cronBatchSize (fst st0) of
        Inl _ \<Rightarrow> st0
      | Inr scheds \<Rightarrow> for_each (fire_one R ustr cron ids W) 0 scheds st0)"

section \<open>Which schedules can fire\<close>

text \<open>A schedule that can never be fired: its expression or template is not valid, or the job it describes
  has no payload or a number the column cannot hold. Only the expression is checked when a schedule is
  created.\<close>

definition broken :: "cron_parser \<Rightarrow> Schedule \<Rightarrow> bool" where
  "broken cron x \<longleftrightarrow>
     isl (cron (sCron x)) \<or>
     (case decode_template (sJobTemplate x) of None \<Rightarrow> True | Some tp \<Rightarrow> \<not> storable (cron_job 0 x 0 tp))"

lemma storable_cron_job: "storable (cron_job n x now tp) = storable (cron_job 0 x 0 tp)"
  by (simp add: storable_def cron_job_def)

lemma cron_job_fields [simp]:
  "jID (cron_job n x now tp) = n" "jTenantID (cron_job n x now tp) = sTenantID x" "inserted_row (cron_job n x now tp) = cron_job n x now tp"
  "jIdempotencyKey (cron_job n x now tp) = None"
  by (simp_all add: cron_job_def inserted_row_def)

lemma fire_broken:
  assumes "\<forall>i st. wOthers W i st = st" "broken cron x"
  shows "fire_one R ustr cron ids W i x st = st"
proof -
  obtain d s where st: "st = (d, s)" by (cases st)
  show ?thesis
  proof (cases "cron (sCron x)")
    case (Inl m)
    then show ?thesis by (simp add: fire_one_def fireSchedule_def)
  next
    case (Inr nxt)
    show ?thesis
    proof (cases "decode_template (sJobTemplate x)")
      case None
      then show ?thesis using Inr by (simp add: fire_one_def fireSchedule_def)
    next
      case (Some tp)
      let ?e = "wEnv W (3 * i + 1)"
      let ?j = "cron_job (ids i) x (go_now ?e) tp"
      have "\<not> storable ?j" using assms(2) Inr Some storable_cron_job[of "ids i" x _ tp] by (simp add: broken_def)
      then have "InsertJob ?e ?j d = (d, Inl (insert_error (value_msg ?e)))"
        unfolding InsertJob_def storable_def Let_def by auto
      then show ?thesis using Inr Some assms(1) by (simp add: fire_one_def fireSchedule_def st Let_def)
    qed
  qed
qed

text \<open>C37. Schedules that cannot fire block the others: when 200 due schedules whose template or expression is not
  usable come first by their next run time, every tick of the cron loop, now and later,
  leaves the database and the queues exactly as they are: no due schedule behind them is ever fired.\<close>

theorem expandCron_blocked:
  assumes "scan_ok scan"
    and "\<And>W. W \<in> set Ws \<Longrightarrow> \<forall>i st. wOthers W i st = st"
    and "\<And>W y. W \<in> set Ws \<Longrightarrow> y \<in> set (schedules d) \<Longrightarrow> schedule_due (pg_now (wEnv W 0)) y \<Longrightarrow> \<not> broken cron y \<Longrightarrow>
      200 \<le> card {x \<in> set (schedules d). schedule_due (pg_now (wEnv W 0)) x \<and> sNextRunAt x < sNextRunAt y}"
  shows "fold (expandCron R ustr cron ids scan) Ws (d, s) = (d, s)"
  using assms(2,3)
proof (induction Ws)
  case (Cons W Ws)
  have no: "\<forall>i st. wOthers W i st = st" using Cons.prems(1) by simp
  define rows where "rows = sql_select scan (schedule_due (pg_now (wEnv W 0))) (schedules d)"
  have rows: "set rows = {x \<in> set (schedules d). schedule_due (pg_now (wEnv W 0)) x}"
    unfolding rows_def by (rule set_sql_select[OF assms(1)])
  have b: "broken cron y" if "y \<in> set (order_limit sNextRunAt cronBatchSize rows)" for y
  proof (rule ccontr)
    assume "\<not> broken cron y"
    moreover have y: "y \<in> set rows" using that set_order_limit_subset by fastforce
    ultimately have "nat cronBatchSize \<le> card {x \<in> set rows. sNextRunAt x < sNextRunAt y}"
      using Cons.prems(2)[of W y] rows by (simp add: cronBatchSize_def conj_assoc)
    then show False using limit_excludes[OF y] that by blast
  qed
  have "for_each (fire_one R ustr cron ids W) i xs (d, s) = (d, s)" if "\<forall>x \<in> set xs. broken cron x" for i xs
    using that fire_broken[OF no] by (induction xs arbitrary: i) auto
  then have "expandCron R ustr cron ids scan W (d, s) = (d, s)"
    using b no unfolding expandCron_def GetDueSchedules_def query_def rows_def Let_def by (simp split: option.split)
  then show ?case using Cons by simp
qed simp

definition demo_schedule :: "nat \<Rightarrow> json \<Rightarrow> Schedule" where
  "demo_schedule i tpl = \<lparr>sID = of_nat i, sTenantID = 1, sName = nat_str i, sCron = ''* * * * *'', sTimezone = ''UTC'',
     sJobTemplate = Some tpl, sEnabled = True, sLastRunAt = None, sNextRunAt = int i\<rparr>"

text \<open>201 due schedules; the templates of the first 200 have no payload.\<close>

definition demo_schedules :: db where
  "demo_schedules = demo_empty\<lparr>schedules := map (\<lambda>i. demo_schedule i (JObj [(''type'', JStr ''webhook'')])) [0..<200] @
     [demo_schedule 200 (JObj [(''type'', JStr ''webhook''), (''payload'', JNull)])]\<rparr>"

definition demo_cron :: cron_parser where
  "demo_cron = (\<lambda>_. Inr (\<lambda>_ t. t + minute))"

theorem expandCron_blocked_witness:
  "let W = alone (\<lambda>_. demo_env minute) in
   fold (expandCron mem_redis ref_ustr demo_cron of_nat (\<lambda>t. t)) [W, W] (demo_schedules, mem_empty) = (demo_schedules, mem_empty)"
proof -
  let ?W = "alone (\<lambda>_. demo_env minute) :: mem world"
  let ?f = "\<lambda>i. demo_schedule i (JObj [(''type'', JStr ''webhook'')])"
  have d: "decode_template (Some (JObj [(''type'', JStr ''webhook'')])) = Some \<lparr>tplType = ''webhook'', tplPayload = None,
    tplPriority = None, tplMaxRetries = None, tplBackoffSeconds = None\<rparr>" by code_simp
  have b: "broken demo_cron (?f i)" for i
    using d by (auto simp: broken_def demo_schedule_def storable_def cron_job_def)
  have now: "pg_now (wEnv ?W 0) = 60000000000" by code_simp
  have due: "schedule_due (pg_now (wEnv ?W 0)) (?f i)" if "i < 200" for i
    using that unfolding now by (simp add: schedule_due_def demo_schedule_def)
  have "200 \<le> card {x \<in> set (schedules demo_schedules). schedule_due (pg_now (wEnv ?W 0)) x \<and> sNextRunAt x < sNextRunAt y}"
    if y: "y \<in> set (schedules demo_schedules)" "\<not> broken demo_cron y" for y
  proof -
    have y200: "sNextRunAt y = 200" using y b by (auto simp: demo_schedules_def demo_schedule_def)
    have "inj_on ?f {0..<200}"
      by (rule inj_on_inverseI[where g = "\<lambda>x. nat (sNextRunAt x)"]) (simp add: demo_schedule_def)
    then have "card (?f ` {0..<200}) = 200" by (simp add: card_image)
    moreover have "?f ` {0..<200} \<subseteq>
        {x \<in> set (schedules demo_schedules). schedule_due (pg_now (wEnv ?W 0)) x \<and> sNextRunAt x < sNextRunAt y}"
      using due by (auto simp: demo_schedules_def y200) (simp_all add: demo_schedule_def)
    ultimately show ?thesis by (metis (no_types, lifting) card_mono finite_set rev_finite_subset mem_Collect_eq subsetI)
  qed
  then show ?thesis
    unfolding Let_def by (intro expandCron_blocked[OF scan_ok_id]) auto
qed

section \<open>Firing all due schedules\<close>

interpretation sch: keyed_table sID .

text \<open>What the job of a schedule \<open>x\<close> fired at time \<open>now\<close> is, field by field: the values the template gives, the
  defaults where it is silent, and a fresh pending job for the rest.\<close>

definition fired_job :: "time \<Rightarrow> Schedule \<Rightarrow> job \<Rightarrow> bool" where
  "fired_job now x j \<longleftrightarrow>
     (\<exists>v p m b. sJobTemplate x = Some v \<and>
        field dec_string ''type'' [] v = Some (jType j) \<and> field dec_raw ''payload'' None v = Some (jPayload j) \<and>
        field (dec_int_ptr 16) ''priority'' None v = Some p \<and> jPriority j = (case p of Some k \<Rightarrow> k | None \<Rightarrow> 5) \<and>
        field (dec_int_ptr 64) ''max_retries'' None v = Some m \<and> jMaxRetries j = (case m of Some k \<Rightarrow> k | None \<Rightarrow> 3) \<and>
        field (dec_int_ptr 64) ''backoff_seconds'' None v = Some b \<and> jBackoffSeconds j = (case b of Some k \<Rightarrow> k | None \<Rightarrow> 30)) \<and>
     jTenantID j = sTenantID x \<and> jState j = StatePending \<and> jAttempt j = 0 \<and> jRunAt j = now \<and> jCreatedAt j = now \<and>
     jClaimedAt j = None \<and> jClaimedBy j = None \<and> jClaimToken j = None \<and> jDeadline j = None \<and>
     jIdempotencyKey j = None \<and> jLastError j = None \<and> jCompletedAt j = None"

lemma fired_cron_job:
  assumes "decode_template (sJobTemplate x) = Some tp"
  shows "fired_job now x (cron_job n x now tp)"
  using assms by (auto simp: fired_job_def decode_template_def cron_job_def or_default_def PriorityNormal_def
      bind_eq_Some_conv)

text \<open>The schedule after it was fired.\<close>

definition fired_row :: "cron_parser \<Rightarrow> time \<Rightarrow> Schedule \<Rightarrow> Schedule" where
  "fired_row cron now x = (case cron (sCron x) of
     Inl _ \<Rightarrow> x | Inr nxt \<Rightarrow> x\<lparr>sLastRunAt := Some now, sNextRunAt := nxt ''Local'' now\<rparr>)"

lemma fire_works:
  assumes "quiet W" "\<not> broken cron x" "lookup sID (sID x) (schedules d) = Some x" "unique_key sID (schedules d)"
    and "ids i \<notin> jID ` set (jobs d)"
  obtains j where "fired_job (go_now (wEnv W (3 * i + 1))) x j" "jID j = ids i"
    "fire_one R ustr cron ids W i x (d, s) =
       (d\<lparr>jobs := jobs d @ [j], schedules := sql_update (\<lambda>y. sID y = sID x) (fired_row cron (go_now (wEnv W (3 * i + 1)))) (schedules d)\<rparr>,
        fst (Enqueue R ustr (jTenantID j) (jID j) (jPriority j) s))"
proof -
  let ?now = "go_now (wEnv W (3 * i + 1))"
  obtain nxt where nxt: "cron (sCron x) = Inr nxt" using assms(2) by (cases "cron (sCron x)") (auto simp: broken_def)
  obtain tp where tp: "decode_template (sJobTemplate x) = Some tp" "storable (cron_job 0 x 0 tp)"
    using assms(2) by (cases "decode_template (sJobTemplate x)") (auto simp: broken_def)
  let ?j = "cron_job (ids i) x ?now tp"
  have "\<not> unique_violated d ?j" using assms(5) by (auto simp: unique_violated_def image_iff)
  then have ins: "InsertJob (wEnv W (3 * i + 1)) ?j d = (d\<lparr>jobs := jobs d @ [?j]\<rparr>, Inr ())"
    using InsertJob_new[OF quietD(1)[OF assms(1)]] tp(2) storable_cron_job[of "ids i" x ?now tp] by simp
  have "sql_update (\<lambda>y. sID y = sID x) (\<lambda>y. y\<lparr>sLastRunAt := Some ?now, sNextRunAt := nxt ''Local'' ?now\<rparr>) (schedules d) =
      sql_update (\<lambda>y. sID y = sID x) (fired_row cron ?now) (schedules d)"
    unfolding sql_update_def
  proof (rule map_cong[OF refl])
    fix y assume "y \<in> set (schedules d)"
    then have "sID y = sID x \<Longrightarrow> y = x" using sch.unique_eq[OF assms(4)] sch.lookup_SomeD[OF assms(3)] by blast
    then show "(if sID y = sID x then y\<lparr>sLastRunAt := Some ?now, sNextRunAt := nxt ''Local'' ?now\<rparr> else y) =
        (if sID y = sID x then fired_row cron ?now y else y)"
      using nxt by (cases "sID y = sID x") (simp_all add: fired_row_def)
  qed
  then have "fire_one R ustr cron ids W i x (d, s) =
       (d\<lparr>jobs := jobs d @ [?j], schedules := sql_update (\<lambda>y. sID y = sID x) (fired_row cron ?now) (schedules d)\<rparr>,
        fst (Enqueue R ustr (jTenantID ?j) (jID ?j) (jPriority ?j) s))"
    using ins nxt tp(1) quietD[OF assms(1)]
    by (simp add: fire_one_def fireSchedule_def UpdateScheduleAfterRun_def Let_def)
  moreover have "fired_job ?now x ?j" by (rule fired_cron_job[OF tp(1)])
  ultimately show thesis using that[of ?j] by simp
qed

lemma fired_row_key: "sID (fired_row cron now x) = sID x"
  by (simp add: fired_row_def split: sum.split)

lemma fire_loop:
  assumes "quiet W" "lists_ok R L" "no_errors R" "inj_on ids {..<n}"
    and "unique_key sID (schedules d)" "distinct (map sID xs)" "\<forall>k \<in> {i..<n}. ids k \<notin> jID ` set (jobs d)"
    and "i + length xs \<le> n"
    and "\<forall>x \<in> set xs. \<not> broken cron x \<and> lookup sID (sID x) (schedules d) = Some x"
    and "for_each (fire_one R ustr cron ids W) i xs (d, s) = (d', s')"
  shows "\<exists>js. jobs d' = jobs d @ js \<and> (\<forall>q. L s' q = pushes ustr js q @ L s q) \<and>
    list_all2 (\<lambda>x j. \<exists>m. fired_job (go_now (wEnv W m)) x j \<and>
      lookup sID (sID x) (schedules d') = Some (fired_row cron (go_now (wEnv W m)) x)) xs js \<and>
    (\<forall>k. k \<notin> sID ` set xs \<longrightarrow> lookup sID k (schedules d') = lookup sID k (schedules d))"
  using assms(5-10)
proof (induction xs arbitrary: i d s)
  case (Cons x xs)
  define now where "now = go_now (wEnv W (3 * i + 1))"
  let ?f = "fired_row cron now" and ?p = "\<lambda>y. sID y = sID x"
  have x: "\<not> broken cron x" "lookup sID (sID x) (schedules d) = Some x" "ids i \<notin> jID ` set (jobs d)" using Cons.prems(3-5) by auto
  obtain j where j: "fired_job now x j" "jID j = ids i"
    "fire_one R ustr cron ids W i x (d, s) = (d\<lparr>jobs := jobs d @ [j], schedules := sql_update ?p ?f (schedules d)\<rparr>,
        fst (Enqueue R ustr (jTenantID j) (jID j) (jPriority j) s))"
    by (rule fire_works[where ids = ids and i = i, OF assms(1) x(1,2) Cons.prems(1) x(3), of R ustr s, folded now_def]) (rule that, assumption+)
  define d1 where "d1 = d\<lparr>jobs := jobs d @ [j], schedules := sql_update ?p ?f (schedules d)\<rparr>"
  define s1 where "s1 = fst (Enqueue R ustr (jTenantID j) (jID j) (jPriority j) s)"
  have l: "lookup sID k (schedules d1) = map_option (\<lambda>y. if ?p y then ?f y else y) (lookup sID k (schedules d))" for k
    unfolding d1_def by (simp add: sch.lookup_update fired_row_key)
  have nin: "sID x \<notin> sID ` set xs" using Cons.prems(2) by simp
  have l1: "lookup sID k (schedules d1) = lookup sID k (schedules d)" if "k \<noteq> sID x" for k
    using that unfolding l by (cases "lookup sID k (schedules d)") (auto dest: sch.lookup_SomeD)
  have "ids k \<noteq> ids i" if "k \<in> {Suc i..<n}" for k
    using inj_onD[OF assms(4), of k i] that Cons.prems(4) by auto
  then have fresh: "\<forall>k \<in> {Suc i..<n}. ids k \<notin> jID ` set (jobs d1)"
    using Cons.prems(3) j(2) by (simp add: d1_def)
  have pre: "unique_key sID (schedules d1)" "distinct (map sID xs)"
    "Suc i + length xs \<le> n" "\<forall>y \<in> set xs. \<not> broken cron y \<and> lookup sID (sID y) (schedules d1) = Some y"
    "for_each (fire_one R ustr cron ids W) (Suc i) xs (d1, s1) = (d', s')"
    using Cons.prems nin l1 unfolding d1_def s1_def
    by (auto simp: sch.unique_update fired_row_key j(3)) (metis image_eqI)
  from Cons.IH[OF pre(1,2) fresh pre(3-5)] obtain js where js: "jobs d' = jobs d1 @ js" "\<forall>q. L s' q = pushes ustr js q @ L s1 q"
    "list_all2 (\<lambda>x j. \<exists>m. fired_job (go_now (wEnv W m)) x j \<and>
      lookup sID (sID x) (schedules d') = Some (fired_row cron (go_now (wEnv W m)) x)) xs js"
    "\<forall>k. k \<notin> sID ` set xs \<longrightarrow> lookup sID k (schedules d') = lookup sID k (schedules d1)" by blast
  have "lookup sID (sID x) (schedules d') = Some (?f x)" using js(4) nin x(2) by (simp add: l)
  then have "\<exists>m. fired_job (go_now (wEnv W m)) x j \<and> lookup sID (sID x) (schedules d') = Some (fired_row cron (go_now (wEnv W m)) x)"
    using j(1) unfolding now_def by blast
  moreover have "L s' q = pushes ustr (j # js) q @ L s q" for q
    using js(2) by (simp add: s1_def Enqueue_job[OF assms(2,3)] pushes_Cons)
  ultimately show ?case
    using js l1 by (intro exI[of _ "j # js"]) (auto simp: d1_def)
qed auto

text \<open>C31. The cron loop fires every due schedule once: with at most 200 due schedules, all of them usable, one
  tick adds for each exactly one pending job of its tenant, due at once, with the values of its template and the
  defaults (priority 5, 3 attempts, 30 seconds of backoff) where it has none, pushes these jobs onto their queues,
  and moves each schedule to the next time of its expression; the other schedules stay as they are.
  The next time is computed in the zone of the process, not in the zone of the schedule.\<close>

theorem expandCron_outcome:
  assumes "quiet W" "lists_ok R L" "no_errors R" "scan_ok scan" "unique_key sID (schedules d)"
    and "inj_on ids {..<200}" "\<forall>k \<in> {0..<200}. ids k \<notin> jID ` set (jobs d)"
    and "\<forall>x \<in> set (schedules d). schedule_due (pg_now (wEnv W 0)) x \<longrightarrow> \<not> broken cron x"
    and "card {x \<in> set (schedules d). schedule_due (pg_now (wEnv W 0)) x} \<le> 200"
    and "expandCron R ustr cron ids scan W (d, s) = (d', s')"
  shows "\<exists>xs js. distinct xs \<and> set xs = {x \<in> set (schedules d). schedule_due (pg_now (wEnv W 0)) x} \<and>
    jobs d' = jobs d @ js \<and> (\<forall>q. L s' q = pushes ustr js q @ L s q) \<and>
    list_all2 (\<lambda>x j. \<exists>m nxt. fired_job (go_now (wEnv W m)) x j \<and> cron (sCron x) = Inr nxt \<and>
      lookup sID (sID x) (schedules d') =
        Some (x\<lparr>sLastRunAt := Some (go_now (wEnv W m)), sNextRunAt := nxt ''Local'' (go_now (wEnv W m))\<rparr>)) xs js \<and>
    (\<forall>x \<in> set (schedules d) - set xs. lookup sID (sID x) (schedules d') = Some x)"
proof -
  define due where "due = schedule_due (pg_now (wEnv W 0))"
  define rows where "rows = sql_select scan due (schedules d)"
  define xs where "xs = order_limit sNextRunAt cronBatchSize rows"
  have e: "for_each (fire_one R ustr cron ids W) 0 xs (d, s) = (d', s')"
    using assms(10) quietD[OF assms(1)] by (simp add: expandCron_def GetDueSchedules_def xs_def rows_def due_def)
  have m: "mset rows = mset (filter due (schedules d))" unfolding rows_def by (simp add: mset_sql_select[OF assms(4)])
  have u: "distinct (map sID (filter due (schedules d)))"
    using assms(5) unfolding unique_key_def by (rule distinct_map_filter)
  then have "length rows = card {x \<in> set (schedules d). due x}"
    using mset_eq_length[OF m] distinct_card[of "filter due (schedules d)"] by (auto simp: distinct_map)
  then have len: "length rows \<le> nat cronBatchSize" using assms(9) by (simp add: due_def cronBatchSize_def)
  have sx: "mset xs = mset (filter due (schedules d))"
    using len m by (simp add: xs_def order_limit_def)
  then have set: "set xs = {x \<in> set (schedules d). due x}" by (metis mset_eq_setD set_filter)
  have dx: "distinct (map sID xs)" using u sx by (metis mset_map mset_eq_imp_distinct_iff)
  have lx: "\<forall>x \<in> set xs. \<not> broken cron x \<and> lookup sID (sID x) (schedules d) = Some x"
    using set assms(8) sch.lookup_unique[OF assms(5)] by (auto simp: due_def)
  have f: "0 + length xs \<le> 200" using mset_eq_length[OF sx] mset_eq_length[OF m] len by (simp add: cronBatchSize_def)
  obtain js where js: "jobs d' = jobs d @ js" "\<forall>q. L s' q = pushes ustr js q @ L s q"
    "list_all2 (\<lambda>x j. \<exists>m. fired_job (go_now (wEnv W m)) x j \<and>
      lookup sID (sID x) (schedules d') = Some (fired_row cron (go_now (wEnv W m)) x)) xs js"
    "\<forall>k. k \<notin> sID ` set xs \<longrightarrow> lookup sID k (schedules d') = lookup sID k (schedules d)"
    using fire_loop[OF assms(1-3,6,5) dx assms(7) f lx e] by blast
  have "lookup sID (sID x) (schedules d') = Some x" if "x \<in> set (schedules d) - set xs" for x
  proof -
    have "sID x \<notin> sID ` set xs" using that set sch.unique_eq[OF assms(5), of x] by blast
    then show ?thesis using js(4) that sch.lookup_unique[OF assms(5)] by simp
  qed
  moreover have "\<exists>nxt. cron (sCron x) = Inr nxt \<and>
      (\<forall>now. fired_row cron now x = x\<lparr>sLastRunAt := Some now, sNextRunAt := nxt ''Local'' now\<rparr>)" if "x \<in> set xs" for x
    using lx that by (cases "cron (sCron x)") (auto simp: broken_def fired_row_def)
  then have "list_all2 (\<lambda>x j. \<exists>m nxt. fired_job (go_now (wEnv W m)) x j \<and> cron (sCron x) = Inr nxt \<and>
      lookup sID (sID x) (schedules d') =
        Some (x\<lparr>sLastRunAt := Some (go_now (wEnv W m)), sNextRunAt := nxt ''Local'' (go_now (wEnv W m))\<rparr>)) xs js"
    by (intro list.rel_mono_strong[OF js(3)]) metis
  moreover have "distinct xs" using dx by (simp add: distinct_map)
  ultimately show ?thesis
    using js(1,2) set unfolding due_def by (intro exI[of _ xs] exI[of _ js] conjI) simp_all
qed

theorem expandCron_outcome_witness:
  "let x = demo_schedule 5 (JObj [(''type'', JStr ''webhook''), (''payload'', JNull)]); d = demo_empty\<lparr>schedules := [x]\<rparr>;
       W = alone (\<lambda>_. demo_env minute);
       (d', s') = expandCron mem_redis ref_ustr demo_cron of_nat (\<lambda>t. t) W (d, mem_empty) in
   (\<exists>j. jobs d' = [j] \<and> jState j = StatePending \<and> jTenantID j = 1 \<and> jType j = ''webhook'' \<and> jPayload j = Some JNull \<and>
      jPriority j = 5 \<and> jMaxRetries j = 3 \<and> jBackoffSeconds j = 30 \<and> jRunAt j = minute \<and> jAttempt j = 0) \<and>
   lookup sID 5 (schedules d') = Some (x\<lparr>sLastRunAt := Some minute, sNextRunAt := 2 * minute\<rparr>)"
proof -
  let ?v = "JObj [(''type'', JStr ''webhook''), (''payload'', JNull)]"
  let ?x = "demo_schedule 5 (JObj [(''type'', JStr ''webhook''), (''payload'', JNull)])"
  let ?d = "demo_empty\<lparr>schedules := [?x]\<rparr>"
  let ?W = "alone (\<lambda>_. demo_env minute) :: mem world"
  obtain d' s' where e: "expandCron mem_redis ref_ustr demo_cron of_nat (\<lambda>t. t) ?W (?d, mem_empty) = (d', s')" by (rule prod.exhaust)
  have q: "quiet ?W" by (simp add: quiet_def calm_def demo_env_def)
  have i: "inj_on (of_nat :: nat \<Rightarrow> uuid) {..<200}"
    by (rule inj_on_inverseI[where g = unat]) (simp add: unat_of_nat take_bit_nat_eq_self)
  have c: "unique_key sID (schedules ?d)" "schedule_due (pg_now (wEnv ?W 0)) ?x" "\<not> broken demo_cron ?x" "sID ?x = 5" by code_simp+
  have n: "\<forall>k \<in> {0..<200}. (of_nat k :: uuid) \<notin> jID ` set (jobs ?d)" by (simp add: demo_empty_def)
  have due: "{x \<in> set (schedules ?d). schedule_due (pg_now (wEnv ?W 0)) x} = {?x}" using c(2) by auto
  have b: "\<forall>x \<in> set (schedules ?d). schedule_due (pg_now (wEnv ?W 0)) x \<longrightarrow> \<not> broken demo_cron x" using c(3) by simp
  have k: "card {x \<in> set (schedules ?d). schedule_due (pg_now (wEnv ?W 0)) x} \<le> 200" unfolding due by simp
  obtain xs js where r: "distinct xs" "set xs = {?x}" "jobs d' = jobs ?d @ js"
    "list_all2 (\<lambda>x j. \<exists>m nxt. fired_job (go_now (wEnv ?W m)) x j \<and> demo_cron (sCron x) = Inr nxt \<and>
      lookup sID (sID x) (schedules d') =
        Some (x\<lparr>sLastRunAt := Some (go_now (wEnv ?W m)), sNextRunAt := nxt ''Local'' (go_now (wEnv ?W m))\<rparr>)) xs js"
    using expandCron_outcome[OF q mem_redis_lists_ok mem_redis_no_errors scan_ok_id c(1) i n b k e] unfolding due by blast
  have "length xs = 1" using distinct_card[OF r(1)] r(2) by simp
  then have xs: "xs = [?x]" using r(2) by (cases xs) auto
  obtain j where js: "js = [j]" using list_all2_lengthD[OF r(4)] xs by (cases js) auto
  have now: "go_now (demo_env minute) = minute" by (simp add: demo_env_def)
  have j: "fired_job minute ?x j" "lookup sID 5 (schedules d') = Some (?x\<lparr>sLastRunAt := Some minute, sNextRunAt := 2 * minute\<rparr>)"
    using r(4) c(4) by (auto simp: xs js now demo_cron_def)
  obtain v where t: "sJobTemplate ?x = Some v" "sTenantID ?x = 1" "field dec_string ''type'' [] v = Some ''webhook''"
    "field dec_raw ''payload'' None v = Some (Some JNull)" "field (dec_int_ptr 16) ''priority'' None v = Some None"
    "field (dec_int_ptr 64) ''max_retries'' None v = Some None" "field (dec_int_ptr 64) ''backoff_seconds'' None v = Some None"
  proof
    show "sJobTemplate ?x = Some ?v" "sTenantID ?x = 1" by code_simp+
    show "field dec_string ''type'' [] ?v = Some ''webhook''"
      "field dec_raw ''payload'' None ?v = Some (Some JNull)"
      "field (dec_int_ptr 16) ''priority'' None ?v = Some None"
      "field (dec_int_ptr 64) ''max_retries'' None ?v = Some None"
      "field (dec_int_ptr 64) ''backoff_seconds'' None ?v = Some None" by code_simp+
  qed
  have "jState j = StatePending" "jTenantID j = 1" "jType j = ''webhook''" "jPayload j = Some JNull" "jPriority j = 5"
    "jMaxRetries j = 3" "jBackoffSeconds j = 30" "jRunAt j = minute" "jAttempt j = 0"
    using j(1) unfolding fired_job_def t(1,2) by (auto simp: t(3-7))
  moreover have "jobs d' = [j]" using r(3) by (simp add: demo_empty_def js)
  ultimately show ?thesis
    unfolding Let_def e prod.case using j(2) by blast
qed

end
