(* ===== verification/Partition.thy ===== *)
theory Partition
  imports Rfc3339 World
begin

text \<open>
  internal/scheduler/scheduler.go, \<open>ensurePartitions\<close>, and internal/storage/storage.go, \<open>EnsureJobRunsPartition\<close>: the
  monthly partitions of the table \<open>job_runs\<close>. The state is the list of partitions beside the default one;
  the bounds are days (in UTC), the upper one exclusive.
\<close>

section \<open>Creating a partition\<close>

record partition =
  paName :: string
  paFrom :: int
  paTo :: int

text \<open>\<open>%0kd\<close> for a number that is not negative.\<close>

definition zero_pad :: "nat \<Rightarrow> int \<Rightarrow> string" where
  "zero_pad k i = (let s = int_str i in replicate (k - length s) (CHR ''0'') @ s)"

definition month_partition :: "int \<Rightarrow> int \<Rightarrow> partition" where
  "month_partition year month =
     \<lparr>paName = ''job_runs_'' @ zero_pad 4 year @ ''_'' @ zero_pad 2 month,
      paFrom = Date year month 1, paTo = Date year (month + 1) 1\<rparr>"

definition overlaps :: "partition \<Rightarrow> partition \<Rightarrow> bool" where
  "overlaps p q \<longleftrightarrow> paFrom p < paTo q \<and> paFrom q < paTo p"

definition day :: duration where
  "day = 86400 * second"

definition in_partition :: "partition \<Rightarrow> time \<Rightarrow> bool" where
  "in_partition p t \<longleftrightarrow> paFrom p \<le> t div day \<and> t div day < paTo p"

text \<open>\<open>CREATE TABLE IF NOT EXISTS name PARTITION OF job_runs FOR VALUES FROM a TO b\<close>: nothing when the name exists;
  an error when the range overlaps a partition or the default partition holds a row of the range.\<close>

definition EnsureJobRunsPartition ::
    "env \<Rightarrow> int \<Rightarrow> int \<Rightarrow> job_run list \<Rightarrow> partition list \<Rightarrow> partition list \<times> unit res" where
  "EnsureJobRunsPartition e year month runs ps =
     (let p = month_partition year month;
          failed = (\<lambda>x. Inl (Wrapped (''ensure partition '' @ paName p) x));
          ps' = (if paName p \<in> paName ` set ps then ps else ps @ [p]) in
      if paName p \<notin> paName ` set ps \<and>
         ((\<exists>q \<in> set ps. overlaps p q) \<or>
          (\<exists>r \<in> set runs. in_partition p (rStartedAt r) \<and> \<not> (\<exists>q \<in> set ps. in_partition q (rStartedAt r))))
      then (ps, failed (Driver (value_msg e)))
      else case stmt_err e 0 of
        None \<Rightarrow> (ps', Inr ())
      | Some m \<Rightarrow> (if applied e then ps' else ps, failed (Driver m)))"

section \<open>The maintainer\<close>

definition partitionLookaheadMonths :: nat where
  "partitionLookaheadMonths = 3"

text \<open>\<open>t.AddDate(0, i, 0)\<close> on the day of \<open>t\<close>.\<close>

definition AddMonths :: "int \<Rightarrow> int \<Rightarrow> int" where
  "AddMonths i n = (case civil n of (y, m, d) \<Rightarrow> Date y (m + i) d)"

fun ensure_from :: "(nat \<Rightarrow> env) \<Rightarrow> int \<Rightarrow> job_run list \<Rightarrow> nat \<Rightarrow> nat \<Rightarrow> partition list \<Rightarrow> partition list" where
  "ensure_from E today runs i 0 ps = ps"
| "ensure_from E today runs i (Suc k) ps =
     (case civil (AddMonths (int i) today) of (y, m, _) \<Rightarrow>
      ensure_from E today runs (Suc i) k (fst (EnsureJobRunsPartition (E i) y m runs ps)))"

definition ensurePartitions :: "(nat \<Rightarrow> env) \<Rightarrow> job_run list \<Rightarrow> partition list \<Rightarrow> partition list" where
  "ensurePartitions E runs ps = ensure_from E (go_now (E 0) div day) runs 1 partitionLookaheadMonths ps"

section \<open>Months\<close>

text \<open>The first day of month number \<open>k\<close>, counted from January of year 0.\<close>

definition first_of :: "int \<Rightarrow> int" where
  "first_of k = Date (k div 12) (k mod 12 + 1) 1"

lemma Date_month: "Date y m d = first_of (12 * y + m - 1) + d - 1"
proof -
  have "(12 * y + m - 1) div 12 = y + (m - 1) div 12" "(12 * y + m - 1) mod 12 = (m - 1) mod 12"
    using div_mult_self2[of 12 "m - 1" y] mod_mult_self2[of "m - 1" 12 y] by (simp_all add: algebra_simps)
  then show ?thesis by (simp add: first_of_def Date_def Let_def)
qed

lemma first_of_eq: "first_of k = days_before_year (k div 12) + days_before_month (k div 12) (k mod 12 + 1) - epoch"
  unfolding first_of_def by (subst Date_in_range) auto

lemma month_of: "k = 12 * q + r \<Longrightarrow> 0 \<le> r \<Longrightarrow> r < 12 \<Longrightarrow> k div 12 = q \<and> k mod 12 = r" for k :: int
  using int_div_pos_eq[of k 12 q r] int_mod_pos_eq[of k 12 q r] by blast

lemma first_of_Suc: "first_of (k + 1) = first_of k + days_in (k div 12) (k mod 12 + 1)"
proof (cases "k mod 12 = 11")
  case True
  then have "12 * (k div 12) + 11 = k" using mult_div_mod_eq[of 12 k] by simp
  then have "(k + 1) div 12 = k div 12 + 1" "(k + 1) mod 12 = 0"
    using month_of[of "k + 1" "k div 12 + 1" 0] by simp_all
  then show ?thesis
    using True days_before_month_Suc[of 12 "k div 12"] days_before_month_13[of "k div 12"] days_before_year_Suc[of "k div 12"]
    by (simp add: first_of_eq split: if_splits)
next
  case False
  then have m: "0 \<le> k mod 12 + 1" "k mod 12 + 1 < 12" using pos_mod_bound[of 12 k] pos_mod_sign[of 12 k] by simp_all
  have "(k + 1) div 12 = k div 12" "(k + 1) mod 12 = k mod 12 + 1"
    using month_of[OF _ m, of "k + 1" "k div 12"] mult_div_mod_eq[of 12 k] by simp_all
  then show ?thesis
    using days_before_month_Suc[of "k mod 12 + 1" "k div 12"] by (simp add: first_of_eq)
qed

lemma first_of_less: "k < l \<Longrightarrow> first_of (k + 1) \<le> first_of l"
proof (induction l rule: int_gr_induct [of k, consumes 1, case_names base step])
  case (step l)
  then show ?case using first_of_Suc[of l] days_in_range(1)[of "l div 12" "l mod 12 + 1"] by simp
qed simp_all

section \<open>Monthly partitions\<close>

lemma nat_str_fixed: "nat_str n = fixed (length (nat_str n)) n"
proof (induction n rule: nat_str.induct)
  case (1 n)
  then show ?case by (cases "n < 10") (simp_all add: nat_str.simps[of n])
qed

lemma fixed_pad: "n < 10 ^ l \<Longrightarrow> replicate j (CHR ''0'') @ fixed l n = fixed (j + l) n"
proof (induction l arbitrary: n)
  case 0
  then show ?case by (simp add: fixed_0)
next
  case (Suc l)
  then have "n div 10 < 10 ^ l" by (simp add: less_mult_imp_div_less mult.commute)
  from Suc.IH[OF this] show ?case by simp
qed

lemma length_nat_str: "n < 10 ^ length (nat_str n)" "0 < k \<Longrightarrow> n < 10 ^ k \<Longrightarrow> length (nat_str n) \<le> k"
proof -
  show "n < 10 ^ length (nat_str n)"
  proof (induction n rule: nat_str.induct)
    case (1 n)
    then show ?case by (cases "n < 10") (simp_all add: nat_str.simps[of n])
  qed
  show "0 < k \<Longrightarrow> n < 10 ^ k \<Longrightarrow> length (nat_str n) \<le> k"
  proof (induction n arbitrary: k rule: nat_str.induct)
    case (1 n)
    show ?case
    proof (cases "n < 10")
      case True
      then show ?thesis using 1(2) by (simp add: nat_str.simps[of n])
    next
      case False
      then obtain l where k: "k = Suc l" "0 < l" using 1(2,3) by (cases k; cases "k - 1") auto
      then have "n div 10 < 10 ^ l" using 1(3) by (simp add: less_mult_imp_div_less mult.commute)
      then show ?thesis using 1(1)[OF False k(2)] False by (simp add: nat_str.simps[of n] k)
    qed
  qed
qed

lemma zero_pad_fixed:
  assumes "0 \<le> i" "nat i < 10 ^ k" "0 < k"
  shows "zero_pad k i = fixed k (nat i)"
  using fixed_pad[OF length_nat_str(1)[of "nat i"], of "k - length (nat_str (nat i))"] nat_str_fixed[of "nat i"]
    length_nat_str(2)[OF assms(3,2)] assms(1)
  by (simp add: zero_pad_def int_str_def Let_def)

lemma month_name_inj:
  assumes "0 \<le> y" "y \<le> 9999" "0 \<le> z" "z \<le> 9999" "1 \<le> m" "m \<le> 12" "1 \<le> n" "n \<le> 12"
    and "paName (month_partition y m) = paName (month_partition z n)"
  shows "y = z \<and> m = n"
proof -
  have e: "fixed 4 (nat y) @ ''_'' @ fixed 2 (nat m) = fixed 4 (nat z) @ ''_'' @ fixed 2 (nat n)"
    using assms by (simp add: month_partition_def zero_pad_fixed)
  then have "fixed 4 (nat y) = fixed 4 (nat z)" "fixed 2 (nat m) = fixed 2 (nat n)"
    by (simp_all add: append_eq_append_conv del: fixed.simps)
  moreover have "nat y < 10 ^ 4" "nat z < 10 ^ 4" "nat m < 10 ^ 2" "nat n < 10 ^ 2" using assms by simp_all
  ultimately have "nat y = nat z" "nat m = nat n" by (blast intro: fixed_inj)+
  then show ?thesis using assms(1-8) by (simp add: eq_nat_nat_iff)
qed

text \<open>Only whole months of the years 0 to 9999, each once.\<close>

definition monthly :: "partition list \<Rightarrow> bool" where
  "monthly ps \<longleftrightarrow> distinct (map paName ps) \<and>
     (\<forall>p \<in> set ps. \<exists>y m. 0 \<le> y \<and> y \<le> 9999 \<and> 1 \<le> m \<and> m \<le> 12 \<and> p = month_partition y m)"

lemma months_disjoint:
  assumes "1 \<le> m" "m \<le> 12" "1 \<le> n" "n \<le> 12" "(y, m) \<noteq> (z, n)"
  shows "\<not> overlaps (month_partition y m) (month_partition z n)"
proof -
  have b: "paFrom (month_partition y m) = first_of (12 * y + m - 1)" "paTo (month_partition y m) = first_of (12 * y + m - 1 + 1)" for y m
    by (simp_all add: month_partition_def Date_month)
  have "12 * y + m - 1 \<noteq> 12 * z + n - 1"
  proof
    assume e: "12 * y + m - 1 = 12 * z + n - 1"
    then have "y = z" using assms(1-4) by presburger
    with e assms(5) show False by simp
  qed
  then show ?thesis
    using first_of_less[of "12 * y + m - 1" "12 * z + n - 1"] first_of_less[of "12 * z + n - 1" "12 * y + m - 1"]
    unfolding overlaps_def b by linarith
qed

lemma monthly_unique:
  assumes "monthly ps" "p \<in> set ps" "q \<in> set ps" "in_partition p t" "in_partition q t"
  shows "p = q"
proof -
  obtain y m z n where "1 \<le> m" "m \<le> 12" "1 \<le> n" "n \<le> 12" and e: "p = month_partition y m" "q = month_partition z n"
    using assms(1-3) unfolding monthly_def by meson
  moreover have "overlaps p q" using assms(4,5) by (simp add: in_partition_def overlaps_def)
  ultimately have "(y, m) = (z, n)" using months_disjoint by metis
  then show ?thesis using e by simp
qed

text \<open>No run of the month has ended up in the default partition.\<close>

definition not_in_default :: "job_run list \<Rightarrow> partition list \<Rightarrow> partition \<Rightarrow> bool" where
  "not_in_default runs ps p \<longleftrightarrow>
     (\<forall>r \<in> set runs. in_partition p (rStartedAt r) \<longrightarrow> (\<exists>q \<in> set ps. in_partition q (rStartedAt r)))"

lemma ensure_month:
  assumes "monthly ps" "0 \<le> y" "y \<le> 9999" "1 \<le> m" "m \<le> 12" "calm e" "not_in_default runs ps (month_partition y m)"
    and "EnsureJobRunsPartition e y m runs ps = (ps', r)"
  shows "r = Inr () \<and> monthly ps' \<and> month_partition y m \<in> set ps' \<and> set ps \<subseteq> set ps' \<and> set ps' \<subseteq> insert (month_partition y m) (set ps)"
proof (cases "paName (month_partition y m) \<in> paName ` set ps")
  case True
  then obtain q where q: "q \<in> set ps" "paName q = paName (month_partition y m)" by auto
  then obtain z n where "0 \<le> z" "z \<le> 9999" "1 \<le> n" "n \<le> 12" "q = month_partition z n"
    using assms(1) unfolding monthly_def by blast
  then have "q = month_partition y m" using month_name_inj[of z y n m] q(2) assms by auto
  then show ?thesis
    using assms True q(1) by (auto simp: EnsureJobRunsPartition_def Let_def calm_def)
next
  case False
  have "\<not> overlaps (month_partition y m) q" if "q \<in> set ps" for q
  proof -
    obtain z n where z: "1 \<le> n" "n \<le> 12" "q = month_partition z n" using assms(1) \<open>q \<in> set ps\<close> unfolding monthly_def by blast
    have "(y, m) \<noteq> (z, n)" using False that z(3) by auto
    then show ?thesis using months_disjoint[OF assms(4,5) z(1,2)] z(3) by blast
  qed
  then have "EnsureJobRunsPartition e y m runs ps = (ps @ [month_partition y m], Inr ())"
    using False assms(6,7) unfolding not_in_default_def by (auto simp: EnsureJobRunsPartition_def Let_def calm_def)
  moreover have "monthly (ps @ [month_partition y m])"
    using assms(1-5) False unfolding monthly_def by auto
  ultimately show ?thesis using assms(8) by auto
qed

section \<open>The next months\<close>

lemma month_number:
  assumes "1 \<le> m"
  shows "12 * (y + (m - 1) div 12) + ((m - 1) mod 12 + 1) = 12 * y + (m :: int)"
  using mult_div_mod_eq[of 12 "m - 1"] by (simp add: algebra_simps)

text \<open>Up to day 28, adding months gives the same day of the later month.\<close>

lemma AddMonths_28:
  assumes "civil n = (y, m, d)" "d \<le> 28" "0 \<le> i"
  shows "civil (AddMonths i n) = (y + (m + i - 1) div 12, (m + i - 1) mod 12 + 1, d)"
proof -
  let ?y = "y + (m + i - 1) div 12" and ?m = "(m + i - 1) mod 12 + 1"
  have v: "valid_date y m d" using civil_valid[OF assms(1)] by blast
  then have "valid_date ?y ?m d" using assms(2) days_in_range(1)[of ?y ?m] by (auto simp: valid_date_def)
  then have "civil (Date ?y ?m d) = (?y, ?m, d)" by (rule civil_Date)
  moreover have "Date ?y ?m d = Date y (m + i) d"
    unfolding Date_month using month_number[of "m + i" y] v assms(3) by (simp add: valid_date_def algebra_simps)
  ultimately show ?thesis by (simp add: AddMonths_def assms(1))
qed

lemma in_month: "in_partition (month_partition y m) t \<longleftrightarrow>
    first_of (12 * y + m - 1) \<le> t div day \<and> t div day < first_of (12 * y + m)"
  by (simp add: in_partition_def month_partition_def Date_month)

lemma not_in_default_mono: "not_in_default runs ps p \<Longrightarrow> set ps \<subseteq> set qs \<Longrightarrow> not_in_default runs qs p"
  unfolding not_in_default_def by blast

lemma ensure_from_months:
  assumes "civil today = (y, m, d)" "d \<le> 28" "0 \<le> y" "12 * y + m - 1 + int i + int k \<le> 12 * 10000" "1 \<le> i" "\<And>j. calm (E j)"
    and "monthly ps" "\<And>j. j < k \<Longrightarrow> not_in_default runs ps
      (month_partition (y + (m + int (i + j) - 1) div 12) ((m + int (i + j) - 1) mod 12 + 1))"
  shows "monthly (ensure_from E today runs i k ps) \<and> set ps \<subseteq> set (ensure_from E today runs i k ps) \<and>
    (\<forall>j < k. month_partition (y + (m + int (i + j) - 1) div 12) ((m + int (i + j) - 1) mod 12 + 1) \<in>
       set (ensure_from E today runs i k ps))"
  using assms(4,5,7,8)
proof (induction k arbitrary: i ps)
  case (Suc k)
  let ?M = "\<lambda>i. month_partition (y + (m + int i - 1) div 12) ((m + int i - 1) mod 12 + 1)"
  have m: "1 \<le> m" using civil_valid[OF assms(1)] by (simp add: valid_date_def)
  obtain ps1 r where e: "EnsureJobRunsPartition (E i) (y + (m + int i - 1) div 12) ((m + int i - 1) mod 12 + 1) runs ps = (ps1, r)"
    by (rule prod.exhaust)
  have y: "0 \<le> y + (m + int i - 1) div 12" "y + (m + int i - 1) div 12 \<le> 9999"
    using assms(3) m Suc.prems(1,2) by (simp_all add: add_nonneg_nonneg pos_imp_zdiv_nonneg_iff)
  have s: "monthly ps1 \<and> ?M i \<in> set ps1 \<and> set ps \<subseteq> set ps1"
    using ensure_month[OF Suc.prems(3) y _ _ assms(6) _ e] Suc.prems(4)[of 0] by simp
  have "not_in_default runs ps1 (?M (Suc i + j))" if "j < k" for j
    using Suc.prems(4)[of "Suc j"] that s not_in_default_mono[of runs ps _ ps1] by simp
  then have IH: "monthly (ensure_from E today runs (Suc i) k ps1) \<and> set ps1 \<subseteq> set (ensure_from E today runs (Suc i) k ps1) \<and>
      (\<forall>j < k. ?M (Suc i + j) \<in> set (ensure_from E today runs (Suc i) k ps1))"
    using Suc.IH[of "Suc i" ps1] Suc.prems(1) s by simp
  have f: "ensure_from E today runs i (Suc k) ps = ensure_from E today runs (Suc i) k ps1"
    by (simp add: AddMonths_28[OF assms(1,2)] e)
  have "?M (i + j) \<in> set (ensure_from E today runs (Suc i) k ps1)" if "j < Suc k" for j
    using that IH s by (cases j) auto
  then show ?case unfolding f using IH s by blast
qed simp

text \<open>C33. The partitions are ready in time: when the maintainer runs on one of the first 28 days of a month and no
  run was stored in the default partition before, then every instant of the three following months lies in
  exactly one monthly partition, all partitions are still whole months without overlap, and none was
  removed.\<close>

theorem ensurePartitions_ahead:
  assumes "civil (go_now (E 0) div day) = (y, m, d)" "d \<le> 28" "0 \<le> y" "y < 9999" "\<And>j. calm (E j)" "monthly ps"
    and "\<And>z n. 1 \<le> n \<Longrightarrow> n \<le> 12 \<Longrightarrow> 12 * z + n - (12 * y + m) \<in> {1, 2, 3} \<Longrightarrow> not_in_default runs ps (month_partition z n)"
  shows "monthly (ensurePartitions E runs ps) \<and> set ps \<subseteq> set (ensurePartitions E runs ps) \<and>
    (\<forall>t. Date y (m + 1) 1 \<le> t div day \<and> t div day < Date y (m + 4) 1 \<longrightarrow>
       (\<exists>!p. p \<in> set (ensurePartitions E runs ps) \<and> in_partition p t))"
proof -
  let ?qs = "ensurePartitions E runs ps"
  let ?y = "\<lambda>j. y + (m + int (1 + j) - 1) div 12" and ?m = "\<lambda>j. (m + int (1 + j) - 1) mod 12 + 1"
  have m: "1 \<le> m" "m \<le> 12" using civil_valid[OF assms(1)] by (simp_all add: valid_date_def)
  have num: "12 * ?y j + ?m j = 12 * y + m + 1 + int j" for j using month_number[of "m + int (1 + j)" y] m by simp
  have nd: "not_in_default runs ps (month_partition (?y j) (?m j))" if "j < 3" for j
    using num[of j] that by (intro assms(7)) auto
  have e: "monthly ?qs" "set ps \<subseteq> set ?qs" "\<And>j. j < 3 \<Longrightarrow> month_partition (?y j) (?m j) \<in> set ?qs"
    using ensure_from_months[where i = 1 and k = 3, OF assms(1-3) _ _ assms(5,6) nd] assms(4) m
    by (simp_all add: ensurePartitions_def partitionLookaheadMonths_def)
  have "\<exists>!p. p \<in> set ?qs \<and> in_partition p t" if t: "Date y (m + 1) 1 \<le> t div day" "t div day < Date y (m + 4) 1" for t
  proof -
    let ?k = "12 * y + m"
    have "first_of ?k \<le> t div day" "t div day < first_of (?k + 3)" using t by (simp_all add: Date_month algebra_simps)
    then consider "first_of ?k \<le> t div day" "t div day < first_of (?k + 1)"
      | "first_of (?k + 1) \<le> t div day" "t div day < first_of (?k + 2)"
      | "first_of (?k + 2) \<le> t div day" "t div day < first_of (?k + 3)" by linarith
    then have "\<exists>j < 3. in_partition (month_partition (?y j) (?m j)) t"
    proof cases
      case 1
      then show ?thesis unfolding in_month num by (intro exI[of _ 0]) (simp add: algebra_simps)
    next
      case 2
      then show ?thesis unfolding in_month num by (intro exI[of _ 1]) (simp add: algebra_simps)
    next
      case 3
      then show ?thesis unfolding in_month num by (intro exI[of _ 2]) (simp add: algebra_simps)
    qed
    then obtain p where p: "p \<in> set ?qs" "in_partition p t" using e(3) by blast
    with monthly_unique[OF e(1)] show ?thesis by blast
  qed
  with e show ?thesis by blast
qed

theorem ensurePartitions_ahead_witness:
  "let E = (\<lambda>_. demo_env (19701 * day)) in
   civil 19701 = (2023, 12, 10) \<and> civil 19782 = (2024, 2, 29) \<and>
   (\<exists>!p. p \<in> set (ensurePartitions E [] [month_partition 2024 1]) \<and> in_partition p (19782 * day))"
proof -
  let ?E = "\<lambda>_ :: nat. demo_env (19701 * day)"
  have c: "civil (go_now (?E 0) div day) = (2023, 12, 10)" by code_simp
  have e: "calm (?E j)" for j by (simp add: calm_def demo_env_def)
  have m: "monthly [month_partition 2024 1]" unfolding monthly_def by (intro conjI ballI exI[of _ 2024] exI[of _ 1]) simp_all
  have n: "not_in_default [] [month_partition 2024 1] (month_partition z n)" for z n by (simp add: not_in_default_def)
  have d: "Date 2023 (12 + 1) 1 \<le> 19782 * day div day" "19782 * day div day < Date 2023 (12 + 4) 1" by code_simp+
  have y: "(10 :: int) \<le> 28" "(0 :: int) \<le> 2023" "(2023 :: int) < 9999" by simp_all
  have "civil 19701 = (2023, 12, 10)" "civil 19782 = (2024, 2, 29)" by code_simp+
  then show ?thesis
    unfolding Let_def using ensurePartitions_ahead[OF c y e m n] d by blast
qed

text \<open>On the last days of a month a target month can be left out: \<open>AddDate\<close> carries the day into the month after
  it. On January 31 the maintainer creates March and May only.\<close>

lemma ensurePartitions_skips:
  assumes "civil (go_now (E 0) div day) = (y, 1, 31)" "0 \<le> y" "y \<le> 9999" "\<And>j. calm (E j)"
  shows "ensurePartitions E [] [] = [month_partition y 3, month_partition y 5]"
proof -
  let ?n = "go_now (E 0) div day"
  have carry: "Date y m d = Date y (m + 1) (d - days_in y m)" if "1 \<le> m" "m \<le> 12" for m d
  proof -
    have "(12 * y + m - 1) div 12 = y" "(12 * y + m - 1) mod 12 = m - 1"
      using month_of[of "12 * y + m - 1" y "m - 1"] that by simp_all
    then show ?thesis using first_of_Suc[of "12 * y + m - 1"] by (simp add: Date_month)
  qed
  have "days_in y 2 = 28 \<or> days_in y 2 = 29" by (simp add: days_in_def)
  then have a: "\<exists>d. civil (AddMonths 1 ?n) = (y, 3, d)"
    using carry[of 2 31] civil_Date[of y 3 "31 - days_in y 2"] by (auto simp: AddMonths_def assms(1) valid_date_def days_in_def)
  have b: "civil (AddMonths 2 ?n) = (y, 3, 31)"
    using civil_Date[of y 3 31] by (simp add: AddMonths_def assms(1) valid_date_def days_in_def)
  have c: "civil (AddMonths 3 ?n) = (y, 5, 1)"
    using carry[of 4 31] civil_Date[of y 5 1] by (simp add: AddMonths_def assms(1) valid_date_def days_in_def)
  have "paName (month_partition y 5) \<noteq> paName (month_partition y 3)" using month_name_inj[of y y 5 3] assms(2,3) by auto
  moreover have "\<not> overlaps (month_partition y 5) (month_partition y 3)" by (rule months_disjoint) auto
  ultimately show ?thesis
    using a b c assms(4)
    by (auto simp: ensurePartitions_def partitionLookaheadMonths_def numeral_3_eq_3 EnsureJobRunsPartition_def calm_def Let_def)
qed

end
