(* ===== verification/Leader.thy ===== *)
theory Leader
  imports Cron Partition
begin

text \<open>
  internal/leader/leader.go and the loops of internal/scheduler/scheduler.go: the election and what a
  scheduler does before, during and after its leadership. Several schedulers, the etcd server and the
  shared database form a cluster whose steps interleave in any order.

  etcd is a service: an election is the parameter \<open>E\<close>, the changes of the server's state when a
  candidate wins, when its session expires and when it leaves. \<open>election_ok\<close> states what its
  documentation promises: a campaign succeeds only when nobody holds the election, and then the
  candidate holds it until its session expires or it resigns.
\<close>

section \<open>The scheduler loops\<close>

datatype loop = DuePoll | StaleReaper | DeadLetterPromoter | CronExpander | PendingReconciler | PartitionMaintainer

text \<open>What the loops work with, and what one tick meets: the worlds of its calls and the ids it makes.\<close>

record 'r site =
  siRedis :: "'r redis"
  siUstr :: "uuid \<Rightarrow> string"
  siCron :: cron_parser
  siJobs :: "job list \<Rightarrow> job list"
  siSchedules :: "Schedule list \<Rightarrow> Schedule list"

record 'r tick =
  tiWorld :: "'r world"
  tiWorld2 :: "'r world"
  tiIds :: "nat \<Rightarrow> uuid"

type_synonym 'r shared = "(db \<times> 'r) \<times> partition list"

fun loop_body :: "'r site \<Rightarrow> loop \<Rightarrow> 'r tick \<Rightarrow> 'r shared \<Rightarrow> 'r shared" where
  "loop_body S DuePoll t (st, ps) =
     (duePoll (siRedis S) (siUstr S) (siJobs S) (tiWorld t) (tiWorld2 t) st, ps)"
| "loop_body S StaleReaper t (st, ps) = (reapStaleClaims (siRedis S) (siUstr S) (siJobs S) (tiWorld t) st, ps)"
| "loop_body S DeadLetterPromoter t (st, ps) = (promoteDeadJobs (siJobs S) (tiWorld t) st, ps)"
| "loop_body S CronExpander t (st, ps) =
     (expandCron (siRedis S) (siUstr S) (siCron S) (tiIds t) (siSchedules S) (tiWorld t) st, ps)"
| "loop_body S PendingReconciler t (st, ps) = (reconcilePending (siRedis S) (siUstr S) (siJobs S) (tiWorld t) st, ps)"
| "loop_body S PartitionMaintainer t (st, ps) = (st, ensurePartitions (wEnv (tiWorld t)) (job_runs (fst st)) ps)"

text \<open>
  The \<open>for { select { ... } }\<close> of a loop, driven by what the select sees: a tick of its ticker or the end
  of the context. The result tells whether the function returned.
\<close>

datatype 'r wake = Ticked "'r tick" | CtxDone

fun ticker :: "('r tick \<Rightarrow> 'r shared \<Rightarrow> 'r shared) \<Rightarrow> 'r wake list \<Rightarrow> 'r shared \<Rightarrow> 'r shared \<times> bool" where
  "ticker body [] x = (x, False)"
| "ticker body (CtxDone # ws) x = (x, True)"
| "ticker body (Ticked t # ws) x = ticker body ws (body t x)"

definition runDuePoll :: "'r site \<Rightarrow> 'r wake list \<Rightarrow> 'r shared \<Rightarrow> 'r shared \<times> bool" where
  "runDuePoll S ws x = ticker (loop_body S DuePoll) ws x"

definition runStaleReaper :: "'r site \<Rightarrow> 'r wake list \<Rightarrow> 'r shared \<Rightarrow> 'r shared \<times> bool" where
  "runStaleReaper S ws x = ticker (loop_body S StaleReaper) ws x"

definition runDeadLetterPromoter :: "'r site \<Rightarrow> 'r wake list \<Rightarrow> 'r shared \<Rightarrow> 'r shared \<times> bool" where
  "runDeadLetterPromoter S ws x = ticker (loop_body S DeadLetterPromoter) ws x"

definition runPendingReconciler :: "'r site \<Rightarrow> 'r wake list \<Rightarrow> 'r shared \<Rightarrow> 'r shared \<times> bool" where
  "runPendingReconciler S ws x = ticker (loop_body S PendingReconciler) ws x"

text \<open>Two loops do their work once before the first tick; \<open>t0\<close> is what that meets.\<close>

definition runPartitionMaintainer :: "'r site \<Rightarrow> 'r tick \<Rightarrow> 'r wake list \<Rightarrow> 'r shared \<Rightarrow> 'r shared \<times> bool" where
  "runPartitionMaintainer S t0 ws x = ticker (loop_body S PartitionMaintainer) ws (loop_body S PartitionMaintainer t0 x)"

definition runCronExpander :: "'r site \<Rightarrow> 'r tick \<Rightarrow> 'r wake list \<Rightarrow> 'r shared \<Rightarrow> 'r shared \<times> bool" where
  "runCronExpander S t0 ws x = ticker (loop_body S CronExpander) ws (loop_body S CronExpander t0 x)"

section \<open>The election and the cluster\<close>

record 'e election =
  Won :: "nat \<Rightarrow> 'e \<Rightarrow> 'e \<Rightarrow> bool"
  Expired :: "nat \<Rightarrow> 'e \<Rightarrow> 'e \<Rightarrow> bool"
  Left :: "nat \<Rightarrow> 'e \<Rightarrow> 'e \<Rightarrow> bool"

definition election_ok :: "'e election \<Rightarrow> ('e \<Rightarrow> nat option) \<Rightarrow> bool" where
  "election_ok E holder \<longleftrightarrow>
     (\<forall>i e e'. Won E i e e' \<longrightarrow> holder e = None \<and> holder e' = Some i) \<and>
     (\<forall>i e e'. Expired E i e e' \<or> Left E i e e' \<longrightarrow> holder e' = (if holder e = Some i then None else holder e))"

text \<open>\<open>Campaign\<close> with the errors of \<open>NewSession\<close> and of the campaign in the election, if there are any.\<close>

datatype campaign = Lost_Campaign err | Won_Campaign

fun Campaign :: "string option \<Rightarrow> string option \<Rightarrow> campaign" where
  "Campaign (Some m) ce = Lost_Campaign (Wrapped ''create etcd session'' (Driver m))"
| "Campaign None (Some m) = Lost_Campaign (Wrapped ''campaign'' (Driver m))"
| "Campaign None None = Won_Campaign"

text \<open>The leader context is cancelled by the goroutine of \<open>Campaign\<close> or with the context it comes from.\<close>

definition leader_cancel :: "bool \<Rightarrow> bool \<Rightarrow> bool" where
  "leader_cancel sessDone ctxDone \<longleftrightarrow> sessDone \<or> ctxDone"

text \<open>
  Where \<open>Run\<close> of one scheduler is: at the test of its loop, blocked in \<open>Campaign\<close>, leading with the set
  of loops that have not returned and whether the leader context is cancelled, or returned. \<open>nCtx\<close>: the
  context of the process is cancelled; \<open>nLost\<close>: the session is done (\<open>sess.Done()\<close> is closed); \<open>nGauge\<close>: the metric
  \<open>SchedulerIsLeader\<close> of the process.
\<close>

datatype pc = AtLoop | InCampaign | Leading "loop set" bool | Returned

record node =
  nPc :: pc
  nCtx :: bool
  nLost :: bool
  nGauge :: int

record ('e, 'r) cluster =
  clEtcd :: 'e
  clNode :: "nat \<Rightarrow> node"
  clData :: "'r shared"

definition set_node :: "nat \<Rightarrow> node \<Rightarrow> ('e, 'r) cluster \<Rightarrow> ('e, 'r) cluster" where
  "set_node i n c = c\<lparr>clNode := (clNode c)(i := n)\<rparr>"

text \<open>
  \<open>Campaign\<close> returns an error when the session cannot be created or the campaign fails, and \<open>Run\<close> then
  returns. When it succeeds, a goroutine waits for the end of the session and cancels the leader
  context; that is a step of its own (\<open>watch\<close>), as is the cancellation that comes from the context of
  the process. A loop may do work as long as it has not returned, and returns only after the leader
  context is cancelled. \<open>resign\<close> runs after all loops have returned; the error of \<open>Resign\<close> is ignored, so the
  scheduler goes on when the election did not hear of it (\<open>resign_fails\<close>). Other processes work on the
  database at any time; within a tick they are the \<open>wOthers\<close> of its worlds, which keep the database consistent as
  their own operations do.
\<close>

inductive cluster_step :: "'r site \<Rightarrow> 'e election \<Rightarrow> ('e, 'r) cluster \<Rightarrow> ('e, 'r) cluster \<Rightarrow> bool" for S E where
  enter: "clNode c i = n \<Longrightarrow> nPc n = AtLoop \<Longrightarrow> \<not> nCtx n \<Longrightarrow>
    cluster_step S E c (set_node i (n\<lparr>nPc := InCampaign\<rparr>) c)"
| stop: "clNode c i = n \<Longrightarrow> nPc n = AtLoop \<Longrightarrow> nCtx n \<Longrightarrow>
    cluster_step S E c (set_node i (n\<lparr>nPc := Returned\<rparr>) c)"
| fail: "clNode c i = n \<Longrightarrow> nPc n = InCampaign \<Longrightarrow> Campaign se ce = Lost_Campaign x \<Longrightarrow>
    cluster_step S E c (set_node i (n\<lparr>nPc := Returned\<rparr>) c)"
| win: "clNode c i = n \<Longrightarrow> nPc n = InCampaign \<Longrightarrow> Campaign se ce = Won_Campaign \<Longrightarrow> Won E i (clEtcd c) e' \<Longrightarrow>
    cluster_step S E c (set_node i (n\<lparr>nPc := Leading UNIV False, nLost := False, nGauge := 1\<rparr>) (c\<lparr>clEtcd := e'\<rparr>))"
| expire: "clNode c i = n \<Longrightarrow> Expired E i (clEtcd c) e' \<Longrightarrow>
    cluster_step S E c (set_node i (n\<lparr>nLost := True\<rparr>) (c\<lparr>clEtcd := e'\<rparr>))"
| signal: "clNode c i = n \<Longrightarrow> cluster_step S E c (set_node i (n\<lparr>nCtx := True\<rparr>) c)"
| watch: "clNode c i = n \<Longrightarrow> nPc n = Leading ls False \<Longrightarrow> leader_cancel (nLost n) (nCtx n) \<Longrightarrow>
    cluster_step S E c (set_node i (n\<lparr>nPc := Leading ls True\<rparr>) c)"
| work: "nPc (clNode c i) = Leading ls b \<Longrightarrow> l \<in> ls \<Longrightarrow> others_keep db_inv (tiWorld t) \<Longrightarrow>
    others_keep db_inv (tiWorld2 t) \<Longrightarrow>
    cluster_step S E c (c\<lparr>clData := loop_body S l t (clData c)\<rparr>)"
| finish: "clNode c i = n \<Longrightarrow> nPc n = Leading ls True \<Longrightarrow>
    cluster_step S E c (set_node i (n\<lparr>nPc := Leading (ls - {l}) True\<rparr>) c)"
| resign: "clNode c i = n \<Longrightarrow> nPc n = Leading {} b \<Longrightarrow> Left E i (clEtcd c) e' \<Longrightarrow>
    cluster_step S E c (set_node i (n\<lparr>nPc := AtLoop, nGauge := 0\<rparr>) (c\<lparr>clEtcd := e'\<rparr>))"
| resign_fails: "clNode c i = n \<Longrightarrow> nPc n = Leading {} b \<Longrightarrow>
    cluster_step S E c (set_node i (n\<lparr>nPc := AtLoop, nGauge := 0\<rparr>) c)"
| other: "clData c = ((d, s), ps) \<Longrightarrow> op_ok d x \<Longrightarrow>
    cluster_step S E c (c\<lparr>clData := ((apply_op x d, s'), ps)\<rparr>)"

definition cluster_init :: "('e, 'r) cluster \<Rightarrow> bool" where
  "cluster_init c \<longleftrightarrow> (\<forall>i. nPc (clNode c i) = AtLoop \<and> nGauge (clNode c i) = 0)"

text \<open>Some loop of the scheduler has not returned.\<close>

definition running :: "('e, 'r) cluster \<Rightarrow> nat \<Rightarrow> bool" where
  "running c i = (case nPc (clNode c i) of Leading ls b \<Rightarrow> ls \<noteq> {} | _ \<Rightarrow> False)"

section \<open>Lemmas\<close>

lemma set_node_sel [simp]:
  "clNode (set_node i n c) k = (if k = i then n else clNode c k)" "clEtcd (set_node i n c) = clEtcd c"
  "clData (set_node i n c) = clData c"
  by (simp_all add: set_node_def)

text \<open>A leader whose session is not done holds the election.\<close>

definition leaders_hold :: "('e \<Rightarrow> nat option) \<Rightarrow> ('e, 'r) cluster \<Rightarrow> bool" where
  "leaders_hold holder c \<longleftrightarrow>
     (\<forall>i ls b. nPc (clNode c i) = Leading ls b \<and> \<not> nLost (clNode c i) \<longrightarrow> holder (clEtcd c) = Some i)"

lemma leaders_hold_step:
  assumes "election_ok E holder" "cluster_step S E c c'" "leaders_hold holder c"
  shows "leaders_hold holder c'"
  using assms(2,3)
proof (induction rule: cluster_step.induct)
  case (win c i n se ce e')
  then have "holder (clEtcd c) = None" "holder e' = Some i" using assms(1) by (auto simp: election_ok_def)
  with win show ?case by (auto simp: leaders_hold_def)
next
  case (expire c i n e')
  then have "holder e' = (if holder (clEtcd c) = Some i then None else holder (clEtcd c))"
    using assms(1) unfolding election_ok_def by blast
  with expire show ?case by (fastforce simp: leaders_hold_def)
next
  case (resign c i n b e')
  then have "holder e' = (if holder (clEtcd c) = Some i then None else holder (clEtcd c))"
    using assms(1) unfolding election_ok_def by blast
  with resign show ?case by (fastforce simp: leaders_hold_def)
qed (fastforce simp: leaders_hold_def)+

lemma leaders_hold_reach:
  assumes "election_ok E holder" "(cluster_step S E)\<^sup>*\<^sup>* c c'" "cluster_init c"
  shows "leaders_hold holder c'"
  using assms(2)
proof (induction rule: rtranclp_induct)
  case base
  then show ?case using assms(3) by (simp add: leaders_hold_def cluster_init_def)
qed (rule leaders_hold_step[OF assms(1)])

text \<open>The metric \<open>SchedulerIsLeader\<close> is 1 from the election until all loops have returned, also after the session is
  done: what it shows is the running of the loops, not the lease.\<close>

definition gauge_ok :: "('e, 'r) cluster \<Rightarrow> bool" where
  "gauge_ok c \<longleftrightarrow> (\<forall>i. nGauge (clNode c i) = (case nPc (clNode c i) of Leading ls b \<Rightarrow> 1 | _ \<Rightarrow> 0))"

lemma gauge_exact:
  assumes "(cluster_step S E)\<^sup>*\<^sup>* c c'" "cluster_init c"
  shows "gauge_ok c'"
  using assms(1)
proof (induction rule: rtranclp_induct)
  case base
  then show ?case using assms(2) by (simp add: gauge_ok_def cluster_init_def)
next
  case (step c1 c2)
  from step(2,3) show ?case by (induction rule: cluster_step.induct) (auto simp: gauge_ok_def)
qed

lemma InsertJob_inv:
  assumes "db_inv d" "jState j = StatePending \<or> jState j = StateScheduled" "jAttempt j = 0"
  shows "db_inv (fst (InsertJob e j d))"
proof (cases "fst (InsertJob e j d) = d")
  case False
  then show ?thesis
    using cases_insert[OF False] jobs_inv_insert[of d j] assms by (auto simp: db_inv_alt)
qed (simp add: assms)

lemma UpdateSchedule_inv: "db_inv d \<Longrightarrow> db_inv (fst (UpdateScheduleAfterRun e i t n d))"
  unfolding UpdateScheduleAfterRun_def by (rule autocommit_fst) (simp_all add: db_inv_def)

lemma fire_one_inv:
  assumes "others_keep db_inv W" "db_inv (fst st)"
  shows "db_inv (fst (fire_one R ustr cron ids W i x st))"
proof -
  have o: "db_inv (fst (wOthers W k (d, s)))" if "db_inv d" for k d s
    using others_first[OF assms(1), of "(d, s)"] that by simp
  show ?thesis
  proof (cases "cron (sCron x)")
    case (Inr nxt)
    show ?thesis
    proof (cases "decode_template (sJobTemplate x)")
      case (Some tp)
      define k where "k = 3 * i + 1"
      define j where "j = cron_job (ids i) x (go_now (wEnv W k)) tp"
      have j: "jState j = StatePending" "jAttempt j = 0" by (simp_all add: j_def cron_job_def)
      obtain d s where 1: "wOthers W k st = (d, s)" by (rule prod.exhaust)
      obtain d1 r1 where 2: "InsertJob (wEnv W k) j d = (d1, r1)" by (rule prod.exhaust)
      have "db_inv d" using others_first[OF assms, of k] 1 by simp
      then have d1: "db_inv d1" using InsertJob_inv[of d j "wEnv W k"] j 2 by simp
      obtain d2 s2 where 3: "wOthers W (k + 1) (d1, s) = (d2, s2)" by (rule prod.exhaust)
      define s3 where "s3 = fst (Enqueue R ustr (jTenantID j) (jID j) (jPriority j) s2)"
      obtain d4 s4 where 4: "wOthers W (k + 2) (d2, s3) = (d4, s4)" by (rule prod.exhaust)
      have "db_inv d4" using o[OF d1, of "k + 1" s] o[of d2 "k + 2" s3] 3 4 by simp
      then have d5: "db_inv (fst (UpdateScheduleAfterRun (wEnv W (k + 2)) (sID x) t n d4))" for t n
        by (rule UpdateSchedule_inv)
      show ?thesis
        unfolding fire_one_def fireSchedule_def k_def[symmetric] Inr sum.case Some option.case Let_def
          j_def[symmetric] 1 prod.case 2 3 s3_def[symmetric] 4
        using d1 d5 by (auto split: sum.split prod.split) (metis fst_conv)+
    qed (use Inr assms in \<open>simp add: fire_one_def fireSchedule_def Let_def\<close>)
  qed (use assms in \<open>simp add: fire_one_def fireSchedule_def\<close>)
qed

lemma expandCron_inv:
  assumes "others_keep db_inv W" "db_inv (fst st)"
  shows "db_inv (fst (expandCron R ustr cron ids scan W st))"
proof -
  have "db_inv (fst (for_each (fire_one R ustr cron ids W) 0 xs (wOthers W 0 st)))" for xs
    by (rule for_each_inv[where P = "\<lambda>st. db_inv (fst st)"])
      (use fire_one_inv[OF assms(1)] others_first[OF assms] in auto)
  then show ?thesis
    using others_first[OF assms, of 0] by (simp add: expandCron_def Let_def split: sum.split)
qed

lemma loop_body_inv:
  assumes "others_keep db_inv (tiWorld t)" "others_keep db_inv (tiWorld2 t)" "db_inv (fst (fst x))"
  shows "db_inv (fst (fst (loop_body S l t x)))"
proof -
  obtain st ps where x: "x = (st, ps)" by (rule prod.exhaust)
  then show ?thesis
    using assms polls_inv[OF assms(1), of st] polls_inv[OF assms(2)] lists_inv[OF assms(1), of st]
      expandCron_inv[OF assms(1), of st]
    by (cases l) (simp_all add: duePoll_def)
qed


text \<open>A loop returns exactly when it sees the end of its context, and keeps the database consistent.\<close>

lemma ticker_returns: "snd (ticker body ws x) \<longleftrightarrow> CtxDone \<in> set ws"
  by (induction body ws x rule: ticker.induct) auto

lemma ticker_inv:
  assumes "\<And>t y. ok t \<Longrightarrow> P y \<Longrightarrow> P (body t y)" "P x" "\<forall>t. Ticked t \<in> set ws \<longrightarrow> ok t"
  shows "P (fst (ticker body ws x))"
  using assms(2,3)
proof (induction ws arbitrary: x)
  case (Cons w ws)
  then show ?case using assms(1) by (cases w) auto
qed simp

definition tick_ok :: "'r tick \<Rightarrow> bool" where
  "tick_ok t \<longleftrightarrow> others_keep db_inv (tiWorld t) \<and> others_keep db_inv (tiWorld2 t)"

lemma loops_consistent:
  assumes "db_inv (fst (fst x))" "\<forall>t. Ticked t \<in> set ws \<longrightarrow> tick_ok t" "tick_ok t0"
  shows "db_inv (fst (fst (fst (runDuePoll S ws x))))" "db_inv (fst (fst (fst (runStaleReaper S ws x))))"
    "db_inv (fst (fst (fst (runDeadLetterPromoter S ws x))))" "db_inv (fst (fst (fst (runPendingReconciler S ws x))))"
    "db_inv (fst (fst (fst (runPartitionMaintainer S t0 ws x))))" "db_inv (fst (fst (fst (runCronExpander S t0 ws x))))"
proof -
  have b: "db_inv (fst (fst (loop_body S l t y)))" if "tick_ok t" "db_inv (fst (fst y))" for l t y
    using loop_body_inv[of t y S l] that by (simp add: tick_ok_def)
  have r: "db_inv (fst (fst (fst (ticker (loop_body S l) ws y))))" if "db_inv (fst (fst y))" for l y
    using ticker_inv[where P = "\<lambda>z. db_inv (fst (fst z))" and ok = tick_ok, OF b that assms(2)] .
  show "db_inv (fst (fst (fst (runDuePoll S ws x))))" "db_inv (fst (fst (fst (runStaleReaper S ws x))))"
    "db_inv (fst (fst (fst (runDeadLetterPromoter S ws x))))" "db_inv (fst (fst (fst (runPendingReconciler S ws x))))"
    "db_inv (fst (fst (fst (runPartitionMaintainer S t0 ws x))))" "db_inv (fst (fst (fst (runCronExpander S t0 ws x))))"
    unfolding runDuePoll_def runStaleReaper_def runDeadLetterPromoter_def runPendingReconciler_def
      runPartitionMaintainer_def runCronExpander_def
    using r assms(1) b[OF assms(3,1)] by blast+
qed

section \<open>A reference election\<close>

text \<open>A server whose state is the holder; the session of a node may expire at any time.\<close>

definition simple_election :: "nat option election" where
  "simple_election =
     \<lparr>Won = (\<lambda>i e e'. e = None \<and> e' = Some i),
      Expired = (\<lambda>i e e'. e' = (if e = Some i then None else e)),
      Left = (\<lambda>i e e'. e' = (if e = Some i then None else e))\<rparr>"

lemma simple_election_ok: "election_ok simple_election (\<lambda>e. e)"
  by (simp add: election_ok_def simple_election_def)

definition standby :: node where
  "standby = \<lparr>nPc = AtLoop, nCtx = False, nLost = False, nGauge = 0\<rparr>"

definition leading :: node where
  "leading = \<lparr>nPc = Leading UNIV False, nCtx = False, nLost = False, nGauge = 1\<rparr>"

definition demo_cluster :: "'r shared \<Rightarrow> (nat option, 'r) cluster" where
  "demo_cluster x = \<lparr>clEtcd = None, clNode = (\<lambda>_. standby), clData = x\<rparr>"

definition demo_site :: "mem site" where
  "demo_site = \<lparr>siRedis = mem_redis, siUstr = ref_ustr, siCron = demo_cron, siJobs = (\<lambda>t. t), siSchedules = (\<lambda>t. t)\<rparr>"

lemma take_over:
  assumes "clEtcd c = None" "clNode c i = standby"
  shows "(cluster_step S simple_election)\<^sup>*\<^sup>* c (set_node i leading (c\<lparr>clEtcd := Some i\<rparr>))"
proof -
  let ?n = "standby\<lparr>nPc := InCampaign\<rparr>"
  have "cluster_step S simple_election c (set_node i ?n c)"
    by (rule enter) (simp_all add: assms standby_def)
  moreover have "cluster_step S simple_election (set_node i ?n c)
      (set_node i (?n\<lparr>nPc := Leading UNIV False, nLost := False, nGauge := 1\<rparr>) ((set_node i ?n c)\<lparr>clEtcd := Some i\<rparr>))"
    by (rule win[of _ _ _ None None]) (simp_all add: assms simple_election_def)
  moreover have "set_node i (?n\<lparr>nPc := Leading UNIV False, nLost := False, nGauge := 1\<rparr>) ((set_node i ?n c)\<lparr>clEtcd := Some i\<rparr>) =
      set_node i leading (c\<lparr>clEtcd := Some i\<rparr>)"
    by (simp add: set_node_def leading_def standby_def)
  ultimately show ?thesis by (metis rtranclp.simps)
qed

text \<open>Node 0 leads, its session expires, and node 1 takes over before node 0 has noticed.\<close>

definition overlap :: "'r shared \<Rightarrow> (nat option, 'r) cluster" where
  "overlap x = set_node 1 leading (set_node 0 (leading\<lparr>nLost := True\<rparr>) ((demo_cluster x)\<lparr>clEtcd := Some 1\<rparr>))"

lemma overlap_reach: "(cluster_step S simple_election)\<^sup>*\<^sup>* (demo_cluster x) (overlap x)"
proof -
  define c1 where "c1 = set_node 0 leading ((demo_cluster x)\<lparr>clEtcd := Some 0\<rparr>)"
  define c2 where "c2 = set_node 0 (leading\<lparr>nLost := True\<rparr>) (c1\<lparr>clEtcd := None\<rparr>)"
  have "(cluster_step S simple_election)\<^sup>*\<^sup>* (demo_cluster x) c1"
    unfolding c1_def by (rule take_over) (simp_all add: demo_cluster_def)
  moreover have "cluster_step S simple_election c1 c2"
    unfolding c2_def by (rule expire) (simp_all add: c1_def simple_election_def)
  moreover have "(cluster_step S simple_election)\<^sup>*\<^sup>* c2 (set_node 1 leading (c2\<lparr>clEtcd := Some 1\<rparr>))"
    by (rule take_over) (simp_all add: c2_def c1_def demo_cluster_def)
  moreover have "set_node 1 leading (c2\<lparr>clEtcd := Some 1\<rparr>) = overlap x"
    by (simp add: c2_def c1_def overlap_def set_node_def fun_eq_iff)
  ultimately show ?thesis by (metis rtranclp_trans rtranclp.rtrancl_into_rtrancl)
qed

lemma overlap_running: "running (overlap x) 0" "running (overlap x) 1"
  by (simp_all add: running_def overlap_def leading_def)

section \<open>Properties\<close>

text \<open>C19. Leadership is exclusive as long as sessions live: in every state a cluster of schedulers can
  reach, if the loops of two schedulers are running at the same time, then one of the two has lost its
  session. In particular an orderly hand-over has no overlap, because a leader resigns only after all
  its loops have returned.\<close>

theorem leader_exclusive:
  assumes "election_ok E holder" "cluster_init c" "(cluster_step S E)\<^sup>*\<^sup>* c c'"
    and "running c' i" "running c' k" "i \<noteq> k"
  shows "nLost (clNode c' i) \<or> nLost (clNode c' k)"
proof (rule ccontr)
  assume "\<not> ?thesis"
  moreover have "leaders_hold holder c'" by (rule leaders_hold_reach[OF assms(1,3,2)])
  ultimately have "holder (clEtcd c') = Some i" "holder (clEtcd c') = Some k"
    using assms(4,5) by (auto simp: running_def leaders_hold_def split: pc.splits)
  with assms(6) show False by simp
qed

theorem leader_exclusive_witness:
  "\<exists>c'. (cluster_step demo_site simple_election)\<^sup>*\<^sup>* (demo_cluster ((demo_empty, mem_empty), [])) c' \<and> running c' 0 \<and>
     running c' 1 \<and> (nLost (clNode c' 0) \<or> nLost (clNode c' 1))"
proof -
  let ?x = "((demo_empty, mem_empty), []) :: mem shared"
  have i: "cluster_init (demo_cluster ?x)" by (simp add: cluster_init_def demo_cluster_def standby_def)
  have "nLost (clNode (overlap ?x) 0) \<or> nLost (clNode (overlap ?x) 1)"
    using leader_exclusive[OF simple_election_ok i overlap_reach[of demo_site] overlap_running] by simp
  with overlap_reach overlap_running show ?thesis by blast
qed

text \<open>A single active scheduler is not guaranteed: with an election that keeps its promises, a
  session that expires lets another scheduler win and start its loops while the loops of the first are
  still running, since the leader context is cancelled only afterwards and a loop finishes its tick. The
  comments of leader.go and scheduler.go say that only one instance runs the loops at a time.\<close>

lemma leaders_overlap:
  "\<exists>c'. (cluster_step S simple_election)\<^sup>*\<^sup>* (demo_cluster x) c' \<and> running c' 0 \<and> running c' 1"
  using overlap_reach overlap_running by blast

text \<open>Overlapping leaders do no harm to the tables: whatever number of schedulers run their loops at
  the same time, with ticks, elections, expiries and the operations of other processes interleaved in
  any order and any call failing, the database stays consistent.\<close>

lemma cluster_keeps_consistent:
  assumes "(cluster_step S E)\<^sup>*\<^sup>* c c'" "db_inv (fst (fst (clData c)))"
  shows "db_inv (fst (fst (clData c')))"
  using assms(1)
proof (induction rule: rtranclp_induct)
  case (step c1 c2)
  from step(2,3) show ?case
  proof (induction rule: cluster_step.induct)
    case (work c i ls b l t)
    then show ?case using loop_body_inv[of t "clData c"] by simp
  next
    case (other c d s ps x s')
    then show ?case using db_inv_step[of d x] by simp
  qed simp_all
qed (rule assms(2))

end
