(* ===== verification/Refinement.thy ===== *)
theory Refinement
  imports Claims "HOL-Library.Sublist"
begin

text \<open>
  What the storage layer promises of a job, without tables, transactions or errors: an abstract
  lifecycle (\<open>life\<close>), a function of each event on it (\<open>life_op\<close>), and the proof that the operations
  of internal/storage/storage.go and of the admin tool implement it: every operation changes what the
  jobs table shows as its event does or leaves it as it is, and on a healthy server it does its event. The
  runs of a job are not part of the lifecycle: \<open>CompleteJob\<close> and \<open>FailJob\<close> close the run in a statement of its own,
  which may fail when the job is already settled.
\<close>

section \<open>The abstract lifecycle\<close>

datatype phase = Waiting | Ready | Held uuid time | Backoff | Done | Buried

record ajob =
  aTenant :: uuid
  aKey :: "string option"
  aPhase :: phase
  aUsed :: int
  aBudget :: int

type_synonym life = "uuid \<Rightarrow> ajob option"

datatype event =
    Submit uuid ajob | Claim uuid uuid time | Beat uuid uuid time | Finish uuid uuid | GiveUp uuid uuid
  | Lapse uuid time | Cancel uuid uuid | Replay uuid uuid | Reset uuid | Wake uuid | Retry uuid | Kill uuid
  | Silent

text \<open>An event of one job; the result \<open>None\<close> removes the job.\<close>

definition on_job :: "uuid \<Rightarrow> (ajob \<Rightarrow> ajob option) \<Rightarrow> life \<Rightarrow> life" where
  "on_job i f m = (case m i of None \<Rightarrow> m | Some a \<Rightarrow> m(i := f a))"

definition goto :: "phase \<Rightarrow> phase \<Rightarrow> ajob \<Rightarrow> ajob option" where
  "goto from to a = Some (if aPhase a = from then a\<lparr>aPhase := to\<rparr> else a)"

text \<open>The holder of a claim acts on its job; anyone else does not.\<close>

definition held_by :: "uuid \<Rightarrow> (ajob \<Rightarrow> ajob) \<Rightarrow> ajob \<Rightarrow> ajob option" where
  "held_by t f a = Some (case aPhase a of Held t' dl \<Rightarrow> if t' = t then f a else a | _ \<Rightarrow> a)"

text \<open>An attempt is spent: the job is buried when that was the last one.\<close>

definition spend :: "phase \<Rightarrow> ajob \<Rightarrow> ajob" where
  "spend next a =
     a\<lparr>aPhase := (if aBudget a \<le> aUsed a + 1 then Buried else next), aUsed := aUsed a + 1\<rparr>"

definition revive :: "ajob \<Rightarrow> ajob" where
  "revive a = (if aPhase a = Buried then a\<lparr>aPhase := Ready, aUsed := 0\<rparr> else a)"

definition clashes :: "life \<Rightarrow> ajob \<Rightarrow> bool" where
  "clashes m a \<longleftrightarrow> aKey a \<noteq> None \<and> (\<exists>i b. m i = Some b \<and> aTenant b = aTenant a \<and> aKey b = aKey a)"

fun life_op :: "event \<Rightarrow> life \<Rightarrow> life" where
  "life_op (Submit i a) m = (if m i \<noteq> None \<or> clashes m a then m else m(i := Some a))"
| "life_op (Claim i t dl) m = on_job i (goto Ready (Held t dl)) m"
| "life_op (Beat i t dl) m = on_job i (held_by t (\<lambda>a. a\<lparr>aPhase := Held t dl\<rparr>)) m"
| "life_op (Finish i t) m = on_job i (held_by t (\<lambda>a. a\<lparr>aPhase := Done\<rparr>)) m"
| "life_op (GiveUp i t) m = on_job i (held_by t (spend Backoff)) m"
| "life_op (Lapse i now) m =
     on_job i (\<lambda>a. Some (case aPhase a of Held t dl \<Rightarrow> if dl < now then spend Ready a else a | _ \<Rightarrow> a)) m"
| "life_op (Cancel i tn) m =
     on_job i (\<lambda>a. if aTenant a = tn \<and> (aPhase a = Ready \<or> aPhase a = Waiting) then None else Some a) m"
| "life_op (Replay i tn) m = on_job i (\<lambda>a. Some (if aTenant a = tn then revive a else a)) m"
| "life_op (Reset i) m = on_job i (\<lambda>a. Some (revive a)) m"
| "life_op (Wake i) m = on_job i (goto Waiting Ready) m"
| "life_op (Retry i) m = on_job i (goto Backoff Ready) m"
| "life_op (Kill i) m =
     on_job i (\<lambda>a. Some (if aPhase a = Done \<or> aPhase a = Waiting then a else a\<lparr>aPhase := Buried\<rparr>)) m"
| "life_op Silent m = m"

section \<open>The abstraction of the database\<close>

definition phase_of :: "job \<Rightarrow> phase" where
  "phase_of j =
     (case jState j of
        StatePending \<Rightarrow> Ready | StateScheduled \<Rightarrow> Waiting
      | StateClaimed \<Rightarrow> Held (the (jClaimToken j)) (the (jDeadline j))
      | StateRunning \<Rightarrow> Held (the (jClaimToken j)) (the (jDeadline j))
      | StateSucceeded \<Rightarrow> Done | StateFailed \<Rightarrow> Backoff | StateDead \<Rightarrow> Buried)"

definition view :: "job \<Rightarrow> ajob" where
  "view j = \<lparr>aTenant = jTenantID j, aKey = jIdempotencyKey j, aPhase = phase_of j, aUsed = jAttempt j,
     aBudget = jMaxRetries j\<rparr>"

definition life_of :: "db \<Rightarrow> life" where
  "life_of d i = map_option view (lookup jID i (jobs d))"

fun op_event :: "op \<Rightarrow> event" where
  "op_event (Op_InsertJob e j) = Submit (jID j) (view (inserted_row j))"
| "op_event (Op_TryClaim e r i w t dl) = Claim i t dl"
| "op_event (Op_MarkRunning e i t) = Silent"
| "op_event (Op_ExtendDeadline e i t dl) = Beat i t dl"
| "op_event (Op_CompleteJob e i r t) = Finish i t"
| "op_event (Op_FailJob e i r t m n) = GiveUp i t"
| "op_event (Op_RequeueStaleJob e i) = Lapse i (pg_now e)"
| "op_event (Op_MoveToDeadLetter e i) = Silent"
| "op_event (Op_CancelJob e i tn) = Cancel i tn"
| "op_event (Op_ReplayJob e e' i tn) = Replay i tn"
| "op_event (Op_PromoteScheduledToPending e i) = Wake i"
| "op_event (Op_PromoteFailedToPending e i) = Retry i"
| "op_event (Op_CliReset e i) = Reset i"
| "op_event (Op_CliForceFail e i) = Kill i"

text \<open>
  An operation on a healthy server: no statement fails, the values fit their columns, the row is
  not locked by another transaction, and the duration of the run to close fits its column.
\<close>

definition closable :: "env \<Rightarrow> (job_run \<Rightarrow> bool) \<Rightarrow> db \<Rightarrow> bool" where
  "closable e p d \<longleftrightarrow> (\<forall>r \<in> set (job_runs d). p r \<longrightarrow> duration_ms (go_now e) (rStartedAt r) \<noteq> None)"

fun op_calm :: "db \<Rightarrow> op \<Rightarrow> bool" where
  "op_calm d (Op_InsertJob e j) =
     (calm e \<and> jPayload j \<noteq> None \<and> int2_ok (jPriority j) \<and> int4_ok (jAttempt j) \<and> int4_ok (jMaxRetries j) \<and>
      int4_ok (jBackoffSeconds j))"
| "op_calm d (Op_TryClaim e r i w t dl) = (calm e \<and> \<not> locked e)"
| "op_calm d (Op_MarkRunning e i t) = calm e"
| "op_calm d (Op_ExtendDeadline e i t dl) = calm e"
| "op_calm d (Op_CompleteJob e i r t) = calm e"
| "op_calm d (Op_FailJob e i r t m n) = (calm e \<and> closable e (\<lambda>x. rID x = r) d)"
| "op_calm d (Op_RequeueStaleJob e i) = (calm e \<and> closable e (\<lambda>x. rJobID x = i \<and> rFinishedAt x = None) d)"
| "op_calm d (Op_MoveToDeadLetter e i) = calm e"
| "op_calm d (Op_CancelJob e i tn) = calm e"
| "op_calm d (Op_ReplayJob e e' i tn) = calm e"
| "op_calm d (Op_PromoteScheduledToPending e i) = calm e"
| "op_calm d (Op_PromoteFailedToPending e i) = calm e"
| "op_calm d (Op_CliReset e i) = calm e"
| "op_calm d (Op_CliForceFail e i) = calm e"

section \<open>Statements as events\<close>

lemma life_of_jobs: "jobs d' = jobs d \<Longrightarrow> life_of d' = life_of d"
  by (simp add: life_of_def fun_eq_iff)

lemma life_update:
  assumes "db_inv d" "jobs d' = sql_update p f (jobs d)" "\<And>r. jID (f r) = jID r"
    and "\<And>r. r \<in> set (jobs d) \<Longrightarrow> p r \<Longrightarrow> jID r = i"
    and "\<And>r. r \<in> set (jobs d) \<Longrightarrow> job_wf r \<Longrightarrow> jID r = i \<Longrightarrow> g (view r) = Some (view (if p r then f r else r))"
  shows "life_of d' = on_job i g (life_of d)"
proof
  fix k
  have l: "lookup jID k (jobs d') = map_option (\<lambda>r. if p r then f r else r) (lookup jID k (jobs d))"
    unfolding assms(2) by (rule jt.lookup_update) (rule assms(3))
  show "life_of d' k = on_job i g (life_of d) k"
  proof (cases "lookup jID k (jobs d)")
    case None
    then show ?thesis by (auto simp: life_of_def l on_job_def split: option.split)
  next
    case (Some r)
    then have r: "r \<in> set (jobs d)" "jID r = k" "job_wf r"
      using assms(1) by (auto simp: db_inv_def dest: jt.lookup_SomeD)
    have "life_of d' k = Some (view (if p r then f r else r))" unfolding life_of_def l Some by simp
    moreover have "life_of d k = Some (view r)" unfolding life_of_def Some by simp
    ultimately show ?thesis
      using r(2) assms(4)[OF r(1)] assms(5)[OF r(1,3)]
      by (cases "k = i") (auto simp: on_job_def split: option.split)
  qed
qed

lemma life_noop:
  assumes "db_inv d" "\<And>r. r \<in> set (jobs d) \<Longrightarrow> job_wf r \<Longrightarrow> jID r = i \<Longrightarrow> g (view r) = Some (view r)"
  shows "on_job i g (life_of d) = life_of d"
  using life_update[OF assms(1), of d "\<lambda>_. False" "\<lambda>r. r" i g] assms(2) by (simp add: sql_update_noop)

lemmas view_simps = view_def phase_of_def row_defs goto_def held_by_def spend_def revive_def

lemma view_sel [simp]:
  "aTenant (view j) = jTenantID j" "aKey (view j) = jIdempotencyKey j" "aPhase (view j) = phase_of j"
  "aUsed (view j) = jAttempt j" "aBudget (view j) = jMaxRetries j"
  by (simp_all add: view_def)

lemma phase_of_iff:
  "phase_of j = Ready \<longleftrightarrow> jState j = StatePending" "phase_of j = Waiting \<longleftrightarrow> jState j = StateScheduled"
  "phase_of j = Backoff \<longleftrightarrow> jState j = StateFailed" "phase_of j = Done \<longleftrightarrow> jState j = StateSucceeded"
  "phase_of j = Buried \<longleftrightarrow> jState j = StateDead"
  by (auto simp: phase_of_def split: State.splits)

lemma phase_of_held:
  assumes "job_wf j" "in_flight (jState j)"
  obtains t dl where "phase_of j = Held t dl" "jClaimToken j = Some t" "jDeadline j = Some dl"
  using assms by (auto simp: job_wf_def phase_of_def in_flight_def)

lemma not_held: "\<not> in_flight (jState j) \<Longrightarrow> phase_of j \<noteq> Held t dl"
  by (auto simp: phase_of_def in_flight_def split: State.splits)

lemma held_by_view:
  assumes "job_wf r" "jID r = i" "owns i t r \<Longrightarrow> f (view r) = view (g r)"
  shows "held_by t f (view r) = Some (view (if owns i t r then g r else r))"
proof (cases "in_flight (jState r)")
  case True
  with assms(1) show ?thesis
    using assms(2,3) by (auto simp: held_by_def owns_def view_def elim!: phase_of_held)
next
  case False
  then show ?thesis
    using not_held[OF False] by (auto simp: held_by_def owns_def view_def split: phase.split)
qed


lemma on_job_Some [simp]: "on_job i Some m = m"
  by (auto simp: on_job_def fun_eq_iff split: option.split)

text \<open>The statements of the operations, each as its event.\<close>

lemma effect_start:
  assumes "db_inv d" "jobs d' = sql_update (\<lambda>j. jID j = i \<and> jClaimToken j = Some t \<and> jState j = StateClaimed)
      (\<lambda>j. j\<lparr>jState := StateRunning\<rparr>) (jobs d)"
  shows "life_of d' = life_of d"
  using life_update[OF assms, of i Some] by (simp add: view_simps)

lemma effect_beat:
  assumes "db_inv d" "jobs d' = sql_update (owns i t) (\<lambda>j. j\<lparr>jDeadline := Some dl\<rparr>) (jobs d)"
  shows "life_of d' = life_op (Beat i t dl) (life_of d)"
  unfolding life_op.simps
  by (rule life_update[OF assms], simp, simp add: owns_def, rule held_by_view)
    (auto simp: view_simps owns_def in_flight_def)

lemma effect_finish:
  assumes "db_inv d" "jobs d' = sql_update (owns i t) (complete_row now) (jobs d)"
  shows "life_of d' = life_op (Finish i t) (life_of d)"
  unfolding life_op.simps
  by (rule life_update[OF assms], simp, simp add: owns_def, rule held_by_view)
    (auto simp: view_simps owns_def in_flight_def)

lemma effect_give_up:
  assumes "db_inv d" "cur \<in> set (jobs d)" "owns i t cur"
    and "st = (if jMaxRetries cur \<le> jAttempt cur + 1 then StateDead else StateFailed)"
    and "jobs d' = sql_update (\<lambda>j. jID j = i) (fail_row st (jAttempt cur + 1) m n) (jobs d)"
  shows "life_of d' = life_op (GiveUp i t) (life_of d)"
  unfolding life_op.simps
proof (rule life_update[OF assms(1,5)])
  fix r assume r: "r \<in> set (jobs d)" "job_wf r" "jID r = i"
  then have "r = cur"
    using same_row[of "jobs d" r cur] assms(1-3) by (simp add: db_inv_def owns_def)
  then show "held_by t (spend Backoff) (view r) =
      Some (view (if jID r = i then fail_row st (jAttempt cur + 1) m n r else r))"
    using held_by_view[OF r(2,3), of t "spend Backoff" "fail_row st (jAttempt cur + 1) m n"] assms(3,4) r(3)
    by (simp add: view_simps)
qed simp_all

lemma effect_lapse:
  assumes "db_inv d" "jobs d' = sql_update (\<lambda>j. jID j = i \<and> expired now j) reap_row (jobs d)"
  shows "life_of d' = life_op (Lapse i now) (life_of d)"
  unfolding life_op.simps
proof (rule life_update[OF assms])
  fix r assume r: "job_wf r" "jID r = i"
  show "Some (case aPhase (view r) of Held t dl \<Rightarrow> if dl < now then spend Ready (view r) else view r | _ \<Rightarrow> view r) =
      Some (view (if jID r = i \<and> expired now r then reap_row r else r))"
  proof (cases "in_flight (jState r)")
    case True
    then obtain t dl where "phase_of r = Held t dl" "jDeadline r = Some dl"
      using phase_of_held[OF r(1)] by blast
    with True r(2) show ?thesis
      by (auto simp: expired_def view_def spend_def reap_row_def reap_state_def phase_of_def)
  next
    case False
    then show ?thesis
      using not_held[OF False] by (auto simp: expired_def view_def split: phase.split)
  qed
qed simp_all

lemma effect_claim:
  assumes "db_inv d" "j \<in> set (jobs d)" "jID j = i" "jState j = StatePending"
    and "jobs d' = sql_update (\<lambda>j. jID j = i) (claim_row now w t dl) (jobs d)"
  shows "life_of d' = life_op (Claim i t dl) (life_of d)"
  unfolding life_op.simps
proof (rule life_update[OF assms(1,5)])
  fix r assume r: "r \<in> set (jobs d)" "jID r = i"
  then have "r = j" using same_row[of "jobs d" r j] assms(1-3) by (simp add: db_inv_def)
  then show "goto Ready (Held t dl) (view r) = Some (view (if jID r = i then claim_row now w t dl r else r))"
    using assms(3,4) by (simp add: view_simps)
qed simp_all

lemma effect_promote:
  assumes "db_inv d"
  shows "jobs d' = sql_update (\<lambda>j. jID j = i \<and> jState j = StateScheduled) (\<lambda>j. j\<lparr>jState := StatePending\<rparr>) (jobs d) \<Longrightarrow>
      life_of d' = life_op (Wake i) (life_of d)"
    "jobs d' = sql_update (\<lambda>j. jID j = i \<and> jState j = StateFailed) (\<lambda>j. j\<lparr>jState := StatePending, jRunAt := now\<rparr>)
        (jobs d) \<Longrightarrow> life_of d' = life_op (Retry i) (life_of d)"
  unfolding life_op.simps
  by (rule life_update[OF assms], assumption, simp, simp, simp add: goto_def view_def phase_of_iff,
      simp add: phase_of_def)+

lemma revive_view: "revive (view r) = view (if jState r = StateDead then reset_job r else r)"
  by (simp add: revive_def view_def phase_of_iff) (simp add: reset_job_def phase_of_def)

lemma effect_revive:
  assumes "db_inv d"
  shows "jobs d' = sql_update (\<lambda>j. jID j = i \<and> jTenantID j = tn \<and> jState j = StateDead) reset_job (jobs d) \<Longrightarrow>
      life_of d' = life_op (Replay i tn) (life_of d)"
    "jobs d' = sql_update (\<lambda>j. jID j = i \<and> jState j = StateDead) reset_job (jobs d) \<Longrightarrow>
      life_of d' = life_op (Reset i) (life_of d)"
proof -
  assume j: "jobs d' = sql_update (\<lambda>j. jID j = i \<and> jTenantID j = tn \<and> jState j = StateDead) reset_job (jobs d)"
  show "life_of d' = life_op (Replay i tn) (life_of d)"
    unfolding life_op.simps by (rule life_update[OF assms j]) (simp_all add: revive_view)
next
  assume j: "jobs d' = sql_update (\<lambda>j. jID j = i \<and> jState j = StateDead) reset_job (jobs d)"
  show "life_of d' = life_op (Reset i) (life_of d)"
    unfolding life_op.simps by (rule life_update[OF assms j]) (simp_all add: revive_view)
qed

lemma effect_kill:
  assumes "db_inv d" "jobs d' = sql_update (\<lambda>j. jID j = i \<and> can_force_fail (jState j)) force_failed (jobs d)"
  shows "life_of d' = life_op (Kill i) (life_of d)"
  unfolding life_op.simps
  by (rule life_update[OF assms])
    (auto simp: can_force_fail_def force_failed_def view_def phase_of_def split: State.split)

lemma effect_cancel:
  assumes "db_inv d" "jobs d' = sql_delete (\<lambda>j. jID j = i \<and> jTenantID j = tn \<and>
      (jState j = StatePending \<or> jState j = StateScheduled)) (jobs d)"
  shows "life_of d' = life_op (Cancel i tn) (life_of d)"
proof
  fix k
  have u: "unique_key jID (jobs d)" using assms(1) by (simp add: db_inv_def)
  show "life_of d' k = life_op (Cancel i tn) (life_of d) k"
    unfolding life_of_def assms(2) jt.lookup_delete[OF u] life_op.simps on_job_def
    by (auto simp: view_def phase_of_iff split: option.split dest: jt.lookup_SomeD)
qed

lemma clash_iff:
  assumes "db_inv d"
  shows "unique_violated d j \<longleftrightarrow> life_of d (jID j) \<noteq> None \<or> clashes (life_of d) (view (inserted_row j))"
proof -
  have u: "unique_key jID (jobs d)" using assms by (simp add: db_inv_def)
  have "life_of d (jID j) \<noteq> None \<longleftrightarrow> (\<exists>r \<in> set (jobs d). jID r = jID j)"
    using jt.lookup_None[of "jID j" "jobs d"] by (auto simp: life_of_def image_iff intro: sym)
  moreover have "clashes (life_of d) (view (inserted_row j)) \<longleftrightarrow>
      (\<exists>r \<in> set (jobs d). jTenantID r = jTenantID j \<and> jIdempotencyKey j \<noteq> None \<and>
        jIdempotencyKey r = jIdempotencyKey j)"
    unfolding clashes_def life_of_def map_option_eq_Some jt.lookup_iff[OF u]
    by (simp add: inserted_row_def) (metis view_sel(1,2))
  ultimately show ?thesis unfolding unique_violated_def by blast
qed

lemma effect_insert:
  assumes "db_inv d" "\<not> unique_violated d j" "jobs d' = jobs d @ [inserted_row j]"
  shows "life_of d' = life_op (Submit (jID j) (view (inserted_row j))) (life_of d)"
proof
  fix k
  have n: "lookup jID (jID j) (jobs d) = None"
    using assms(2) by (auto simp: unique_violated_def jt.lookup_None)
  have k: "jID (inserted_row j) = jID j" by (simp add: inserted_row_def)
  have "life_op (Submit (jID j) (view (inserted_row j))) (life_of d) =
      (life_of d)(jID j := Some (view (inserted_row j)))"
    using clash_iff[OF assms(1), of j] assms(2) by simp
  then show "life_of d' k = life_op (Submit (jID j) (view (inserted_row j))) (life_of d) k"
    using n k by (simp add: life_of_def assms(3) jt.lookup_append split: option.split)
qed


section \<open>Every operation implements its event\<close>

lemma implements_either:
  "d' \<in> {d, d''} \<Longrightarrow> life_of d'' = m \<Longrightarrow> life_of d' = life_of d \<or> life_of d' = m"
  by auto

text \<open>Whatever fails, an operation does nothing to the lifecycle or exactly its event.\<close>

lemma implements_insert:
  assumes "db_inv d"
  shows "life_of (fst (InsertJob e j d)) = life_of d \<or>
    life_of (fst (InsertJob e j d)) = life_op (Submit (jID j) (view (inserted_row j))) (life_of d)"
proof (cases "fst (InsertJob e j d) = d")
  case False
  then show ?thesis
    using effect_insert[OF assms, of j "fst (InsertJob e j d)"] cases_insert[OF False] by auto
qed simp

lemma implements_claim:
  assumes "db_inv d"
  shows "life_of (fst (TryClaim e r i w t dl d)) = life_of d \<or>
    life_of (fst (TryClaim e r i w t dl d)) = life_op (Claim i t dl) (life_of d)"
proof (cases rule: TryClaim_cases[of e r i w t dl d])
  case (claimed j)
  then show ?thesis
    by (intro disjI2 effect_claim[OF assms claimed(1-3)]) (simp add: claimed_db_def Let_def)
qed simp

lemma implements_finish:
  assumes "db_inv d"
  shows "life_of (fst (CompleteJob e i r t d)) = life_of d \<or>
    life_of (fst (CompleteJob e i r t d)) = life_op (Finish i t) (life_of d)"
proof (cases rule: CompleteJob_cases[of e i r t d])
  case (completed rs)
  then show ?thesis by (intro disjI2 effect_finish[OF assms]) simp
qed simp

lemma implements_give_up:
  assumes "db_inv d"
  shows "life_of (fst (FailJob e i r t m n d)) = life_of d \<or>
    life_of (fst (FailJob e i r t m n d)) = life_op (GiveUp i t) (life_of d)"
proof (cases rule: FailJob_cases[of e i r t m n d])
  case (failed cur st rs)
  then show ?thesis by (intro disjI2 effect_give_up[OF assms failed(1-3)]) simp
qed simp

lemma implements_lapse:
  assumes "db_inv d"
  shows "life_of (fst (RequeueStaleJob e i d)) = life_of d \<or>
    life_of (fst (RequeueStaleJob e i d)) = life_op (Lapse i (pg_now e)) (life_of d)"
proof (cases rule: RequeueStaleJob_cases[of e i d])
  case (reaped rs)
  then show ?thesis by (intro disjI2 effect_lapse[OF assms]) simp
qed simp

lemma implements_statement:
  assumes "db_inv d"
  shows "life_of (fst (MarkRunning e i t d)) = life_of d"
    "life_of (fst (ExtendDeadline e i t dl d)) = life_of d \<or> life_of (fst (ExtendDeadline e i t dl d)) = life_op (Beat i t dl) (life_of d)"
    "life_of (fst (ReplayJob e e' i tn d)) = life_of d \<or> life_of (fst (ReplayJob e e' i tn d)) = life_op (Replay i tn) (life_of d)"
    "life_of (fst (PromoteScheduledToPending e i d)) = life_of d \<or> life_of (fst (PromoteScheduledToPending e i d)) = life_op (Wake i) (life_of d)"
    "life_of (fst (PromoteFailedToPending e i d)) = life_of d \<or> life_of (fst (PromoteFailedToPending e i d)) = life_op (Retry i) (life_of d)"
    "life_of (fst (cli_reset e i d)) = life_of d \<or> life_of (fst (cli_reset e i d)) = life_op (Reset i) (life_of d)"
    "life_of (fst (cli_force_fail e i d)) = life_of d \<or> life_of (fst (cli_force_fail e i d)) = life_op (Kill i) (life_of d)"
    "life_of (fst (CancelJob e i tn d)) = life_of d \<or> life_of (fst (CancelJob e i tn d)) = life_op (Cancel i tn) (life_of d)"
proof -
  have "life_of (fst (MarkRunning e i t d)) = life_of d \<or> life_of (fst (MarkRunning e i t d)) = life_of d"
    by (rule implements_either[OF cases_1(1) effect_start[OF assms]]) simp
  then show "life_of (fst (MarkRunning e i t d)) = life_of d" by simp
qed (rule implements_either, rule cases_1 cases_cancel, rule effect_beat[OF assms] effect_revive[OF assms]
    effect_promote[OF assms] effect_kill[OF assms] effect_cancel[OF assms], simp)+

lemma op_implements:
  assumes "db_inv d"
  shows "life_of (apply_op x d) = life_of d \<or> life_of (apply_op x d) = life_op (op_event x) (life_of d)"
proof (cases x)
  case (Op_MoveToDeadLetter e i)
  then show ?thesis using life_of_jobs[of "fst (MoveToDeadLetter e i d)" d] cases_dead_letter[of e i d] by simp
qed (simp_all only: apply_op.simps op_event.simps implements_insert[OF assms] implements_claim[OF assms]
    implements_finish[OF assms] implements_give_up[OF assms] implements_lapse[OF assms]
    implements_statement[OF assms] simp_thms)

lemma closable_try:
  "closable e p d \<Longrightarrow> \<exists>rs. sql_update_try p (close_run st (go_now e) m) (job_runs d) = Some rs"
  by (auto simp: closable_def sql_update_try_def close_run_def)

lemma not_owned_noop:
  assumes "db_inv d" "\<forall>j \<in> set (jobs d). \<not> owns i t j"
  shows "on_job i (held_by t f) (life_of d) = life_of d"
proof (rule life_noop[OF assms(1)])
  fix r assume r: "r \<in> set (jobs d)" "job_wf r" "jID r = i"
  then show "held_by t f (view r) = Some (view r)"
    using held_by_view[OF r(2,3), of t f id] assms(2) by simp
qed

lemma exact_insert:
  assumes "db_inv d" "op_calm d (Op_InsertJob e j)"
  shows "life_of (fst (InsertJob e j d)) = life_op (Submit (jID j) (view (inserted_row j))) (life_of d)"
proof (cases "unique_violated d j")
  case True
  then have "life_of (fst (InsertJob e j d)) = life_of d"
    using assms(2) by (simp add: InsertJob_def calm_def Let_def)
  then show ?thesis using True clash_iff[OF assms(1), of j] by simp
next
  case False
  then show ?thesis
    using assms(2) by (intro effect_insert[OF assms(1)]) (simp_all add: InsertJob_def calm_def Let_def)
qed

lemma exact_claim:
  assumes "db_inv d" "calm e" "\<not> locked e"
  shows "life_of (fst (TryClaim e r i w t dl d)) = life_op (Claim i t dl) (life_of d)"
proof (cases "\<exists>j \<in> set (jobs d). jID j = i \<and> jState j = StatePending")
  case True
  then have "fst (TryClaim e r i w t dl d) = claimed_db (go_now e) r i w t dl d"
    using assms(2,3) by (simp add: TryClaim_def)
  then show ?thesis
    using True effect_claim[OF assms(1), of _ i] by (auto simp: claimed_db_def Let_def)
next
  case False
  then have "fst (TryClaim e r i w t dl d) = d" using assms(2) by (auto simp: TryClaim_def)
  then show ?thesis
    using False life_noop[OF assms(1), of i "goto Ready (Held t dl)"]
    by (auto simp: goto_def view_def phase_of_iff)
qed

lemma exact_give_up:
  assumes "db_inv d" "calm e" "closable e (\<lambda>x. rID x = r) d"
  shows "life_of (fst (FailJob e i r t m n d)) = life_op (GiveUp i t) (life_of d)"
proof (cases "find (owns i t) (jobs d)")
  case None
  then have "fst (FailJob e i r t m n d) = d" using assms(2) by (simp add: FailJob_def)
  moreover have "\<forall>j \<in> set (jobs d). \<not> owns i t j" using None by (auto simp: find_None_iff)
  ultimately show ?thesis using not_owned_noop[OF assms(1)] by simp
next
  case (Some cur)
  then have cur: "cur \<in> set (jobs d)" "owns i t cur" by (auto simp: find_Some_iff)
  define st where "st = (if jMaxRetries cur \<le> jAttempt cur + 1 then StateDead else StateFailed)"
  define ra where "ra = (if jMaxRetries cur \<le> jAttempt cur + 1 then None else n)"
  obtain rs where "sql_update_try (\<lambda>x. rID x = r) (close_run st (go_now e) (Some m)) (job_runs d) = Some rs"
    using closable_try[OF assms(3)] by blast
  then have "jobs (fst (FailJob e i r t m n d)) =
      sql_update (\<lambda>j. jID j = i) (fail_row st (jAttempt cur + 1) m ra) (jobs d)"
    using assms(2) by (simp add: FailJob_def Some Let_def st_def ra_def)
  then show ?thesis unfolding life_op.simps(5)[symmetric]
    by (rule effect_give_up[OF assms(1) cur st_def])
qed

lemma exact_lapse:
  assumes "db_inv d" "calm e" "closable e (\<lambda>x. rJobID x = i \<and> rFinishedAt x = None) d"
  shows "life_of (fst (RequeueStaleJob e i d)) = life_op (Lapse i (pg_now e)) (life_of d)"
proof -
  obtain rs where "sql_update_try (\<lambda>x. rJobID x = i \<and> rFinishedAt x = None)
      (close_run StateFailed (go_now e) (Some ''worker heartbeat expired'')) (job_runs d) = Some rs"
    using closable_try[OF assms(3)] by blast
  then have "jobs (fst (RequeueStaleJob e i d)) =
      sql_update (\<lambda>j. jID j = i \<and> expired (pg_now e) j) reap_row (jobs d)"
    using assms(2)
    by (auto simp: RequeueStaleJob_def Let_def find_None_iff sql_update_noop split: option.split)
  then show ?thesis by (rule effect_lapse[OF assms(1)])
qed

lemma exact_finish:
  assumes "db_inv d" "calm e"
  shows "life_of (fst (CompleteJob e i r t d)) = life_op (Finish i t) (life_of d)"
proof (rule effect_finish[OF assms(1)])
  show "jobs (fst (CompleteJob e i r t d)) = sql_update (owns i t) (complete_row (go_now e)) (jobs d)"
    using assms(2) by (auto simp: CompleteJob_def calm_def Let_def autocommit_def split: option.split)
qed

lemma exact_statement:
  assumes "db_inv d" "calm e"
  shows "life_of (fst (MarkRunning e i t d)) = life_of d"
    "life_of (fst (ExtendDeadline e i t dl d)) = life_op (Beat i t dl) (life_of d)"
    "life_of (fst (ReplayJob e e' i tn d)) = life_op (Replay i tn) (life_of d)"
    "life_of (fst (PromoteScheduledToPending e i d)) = life_op (Wake i) (life_of d)"
    "life_of (fst (PromoteFailedToPending e i d)) = life_op (Retry i) (life_of d)"
    "life_of (fst (cli_reset e i d)) = life_op (Reset i) (life_of d)"
    "life_of (fst (cli_force_fail e i d)) = life_op (Kill i) (life_of d)"
    "life_of (fst (CancelJob e i tn d)) = life_op (Cancel i tn) (life_of d)"
  unfolding MarkRunning_def ExtendDeadline_def ReplayJob_def PromoteScheduledToPending_def
    PromoteFailedToPending_def cli_reset_def cli_force_fail_def CancelJob_def Let_def
    autocommit_calm[OF assms(2)] fst_conv
  by (rule effect_start[OF assms(1)] effect_beat[OF assms(1)] effect_revive[OF assms(1)]
      effect_promote[OF assms(1)] effect_kill[OF assms(1)] effect_cancel[OF assms(1)], simp)+

text \<open>On a healthy server an operation does exactly its event.\<close>

lemma op_exact:
  assumes "db_inv d" "op_calm d x"
  shows "life_of (apply_op x d) = life_op (op_event x) (life_of d)"
proof (cases x)
  case (Op_InsertJob e j)
  then show ?thesis using exact_insert[OF assms(1), of e j] assms(2) by (simp del: life_op.simps)
next
  case (Op_MoveToDeadLetter e i)
  then show ?thesis using life_of_jobs[of "fst (MoveToDeadLetter e i d)" d] cases_dead_letter[of e i d] by simp
qed (use assms(2) in \<open>simp_all only: apply_op.simps op_event.simps op_calm.simps life_op.simps(13)
    exact_claim[OF assms(1)] exact_give_up[OF assms(1)] exact_lapse[OF assms(1)] exact_finish[OF assms(1)]
    exact_statement[OF assms(1)] simp_thms\<close>)

section \<open>Simulation\<close>

text \<open>
  A system whose every operation does nothing or an abstract event, and exactly the event when the
  operation is undisturbed. Whole histories then follow the abstract system: all the events that
  took effect, in order, and no others.
\<close>

locale simulation = invariant_of init ok step inv
  for init :: "'s \<Rightarrow> bool" and ok :: "'s \<Rightarrow> 'o \<Rightarrow> bool" and step :: "'o \<Rightarrow> 's \<Rightarrow> 's"
    and inv :: "'s \<Rightarrow> bool" +
  fixes abs :: "'s \<Rightarrow> 'a" and ev :: "'o \<Rightarrow> 'e" and astep :: "'e \<Rightarrow> 'a \<Rightarrow> 'a" and fair :: "'s \<Rightarrow> 'o \<Rightarrow> bool"
  assumes sim: "inv s \<Longrightarrow> ok s x \<Longrightarrow> abs (step x s) = abs s \<or> abs (step x s) = astep (ev x) (abs s)"
    and exact: "inv s \<Longrightarrow> ok s x \<Longrightarrow> fair s x \<Longrightarrow> abs (step x s) = astep (ev x) (abs s)"
begin

lemma run_sim:
  "inv s \<Longrightarrow> run_ok ok step xs s \<Longrightarrow>
    \<exists>es. subseq es (map ev xs) \<and> abs (run step xs s) = run astep es (abs s)"
proof (induction xs arbitrary: s)
  case (Cons x xs)
  have i: "inv (step x s)" using Cons.prems by (auto intro: inv_step)
  obtain es where es: "subseq es (map ev xs)" "abs (run step xs (step x s)) = run astep es (abs (step x s))"
    using Cons.IH[OF i] Cons.prems by auto
  consider "abs (step x s) = abs s" | "abs (step x s) = astep (ev x) (abs s)"
    using sim[of s x] Cons.prems by auto
  then show ?case
  proof cases
    case 1
    with es show ?thesis by (intro exI[of _ es]) auto
  next
    case 2
    with es show ?thesis by (intro exI[of _ "ev x # es"]) auto
  qed
qed (simp add: exI[of _ "[]"])

lemma run_sim_step:
  assumes "inv s" "run_ok ok step xs s" "i < length xs"
  shows "abs (run step (take (Suc i) xs) s) = abs (run step (take i xs) s) \<or>
    abs (run step (take (Suc i) xs) s) = astep (ev (xs ! i)) (abs (run step (take i xs) s))"
  using assms
proof (induction xs arbitrary: s i)
  case (Cons x xs)
  have o: "ok s x" "run_ok ok step xs (step x s)" using Cons.prems(2) by simp_all
  then show ?case
    using sim[OF Cons.prems(1) o(1)] Cons.IH[OF inv_step[OF Cons.prems(1) o(1)] o(2)] Cons.prems(3) by (cases i) simp_all
qed simp

lemma run_exact:
  "inv s \<Longrightarrow> run_ok (\<lambda>s x. ok s x \<and> fair s x) step xs s \<Longrightarrow>
    abs (run step xs s) = run astep (map ev xs) (abs s)"
proof (induction xs arbitrary: s)
  case (Cons x xs)
  then show ?case using exact[of s x] Cons.IH[OF inv_step[of s x]] by simp
qed simp

end

interpretation rf: simulation db_init op_ok apply_op db_inv life_of op_event life_op op_calm
  by unfold_locales (rule op_implements, assumption, rule op_exact, assumption+)


section \<open>Properties\<close>

text \<open>C5. Refinement, whatever fails: in every history of the storage operations, with any statement
  failing, any reply lost and any row locked, the jobs table goes through a history of the abstract
  lifecycle. Each operation changes what the table shows of the jobs (tenant, key, phase with claim
  token and deadline, attempts) exactly as its event does, or not at all, so the jobs at the end are
  what some of the events, in their order, make of the jobs at the beginning. The runs are not in this
  view: an operation that settles a job may fail to close its run.\<close>

theorem history_refines:
  assumes "db_inv d" "run_ok op_ok apply_op xs d"
  shows "(\<forall>i < length xs. life_of (run apply_op (take (Suc i) xs) d) \<in>
       {life_of (run apply_op (take i xs) d), life_op (op_event (xs ! i)) (life_of (run apply_op (take i xs) d))}) \<and>
    (\<exists>es. subseq es (map op_event xs) \<and> life_of (run apply_op xs d) = run life_op es (life_of d))"
  using rf.run_sim[OF assms] rf.run_sim_step[OF assms] by blast

lemma run_ok_conj:
  "run_ok (\<lambda>s x. p s x \<and> q s x) step xs s \<longleftrightarrow> run_ok p step xs s \<and> run_ok q step xs s"
  by (induction xs arbitrary: s) auto

lemma demo_calm: "calm (demo_env t)"
  by (simp add: calm_def demo_env_def)

definition demo_late :: op where
  "demo_late = Op_CompleteJob (demo_env 120) 7 3 4"

theorem history_refines_witness:
  "\<exists>es. subseq es (map op_event [demo_insert, demo_claim 3 4 10, demo_reap, demo_late]) \<and>
     life_of (run apply_op [demo_insert, demo_claim 3 4 10, demo_reap, demo_late] demo_empty) =
       run life_op es (life_of demo_empty)"
proof (rule history_refines[THEN conjunct2])
  show "db_inv demo_empty" by (rule db_inv_init[OF demo_init])
  show "run_ok op_ok apply_op [demo_insert, demo_claim 3 4 10, demo_reap, demo_late] demo_empty" by code_simp
qed

text \<open>C6. Functional refinement: on a healthy server (no statement fails, no row is locked by another
  transaction, values and durations fit their columns) a history of storage operations is exactly the
  history of their events: what the tables say of every job is what the abstract lifecycle computes
  from all the events in order.\<close>

theorem healthy_history_exact:
  assumes "db_inv d" "run_ok (\<lambda>d x. op_ok d x \<and> op_calm d x) apply_op xs d"
  shows "life_of (run apply_op xs d) = run life_op (map op_event xs) (life_of d)"
  using assms by (rule rf.run_exact)

theorem healthy_history_exact_witness:
  "let xs = [demo_insert, demo_claim 3 4 10, demo_reap, demo_late] in
   life_of (run apply_op xs demo_empty) = run life_op (map op_event xs) (life_of demo_empty) \<and>
   map_option aPhase (life_of (run apply_op xs demo_empty) 7) = Some Ready \<and>
   map_option aUsed (life_of (run apply_op xs demo_empty) 7) = Some 1"
proof -
  let ?xs = "[demo_insert, demo_claim 3 4 10, demo_reap, demo_late]"
  have "run_ok op_calm apply_op ?xs demo_empty"
    unfolding demo_insert_def demo_claim_def demo_reap_def demo_late_def run_ok.simps op_calm.simps
    by (intro conjI TrueI demo_calm) code_simp+
  moreover have "run_ok op_ok apply_op ?xs demo_empty" by code_simp
  ultimately have "run_ok (\<lambda>d x. op_ok d x \<and> op_calm d x) apply_op ?xs demo_empty"
    by (simp only: run_ok_conj)
  from healthy_history_exact[OF db_inv_init[OF demo_init] this]
  have "life_of (run apply_op ?xs demo_empty) = run life_op (map op_event ?xs) (life_of demo_empty)" .
  moreover have "map_option aPhase (life_of (run apply_op ?xs demo_empty) 7) = Some Ready" by code_simp
  moreover have "map_option aUsed (life_of (run apply_op ?xs demo_empty) 7) = Some 1" by code_simp
  ultimately show ?thesis by (simp only: Let_def simp_thms)
qed

end
