(* ===== verification/Columns.thy ===== *)
theory Columns
  imports Claims
begin

text \<open>
  The column types of migrations/000001_init.up.sql: every value the operations write fits its column,
  so that no \<open>UPDATE\<close> of a counter can fail for being out of range.
\<close>

definition job_fits :: "job \<Rightarrow> bool" where
  "job_fits j \<longleftrightarrow> jPayload j \<noteq> None \<and> int2_ok (jPriority j) \<and> int4_ok (jAttempt j) \<and> int4_ok (jMaxRetries j) \<and>
     int4_ok (jBackoffSeconds j)"

definition run_fits :: "job_run \<Rightarrow> bool" where
  "run_fits r \<longleftrightarrow> int4_ok (rAttempt r) \<and> (case rDurationMs r of None \<Rightarrow> True | Some v \<Rightarrow> int4_ok v)"

definition columns_fit :: "db \<Rightarrow> bool" where
  "columns_fit d \<longleftrightarrow> (\<forall>j \<in> set (jobs d). job_fits j) \<and> (\<forall>r \<in> set (job_runs d). run_fits r) \<and>
     (\<forall>x \<in> set (dead_letter d). int4_ok (dlAttemptCount x))"

section \<open>Jobs\<close>

lemma attempt_fits: "job_wf j \<Longrightarrow> jState j \<noteq> StateDead \<Longrightarrow> int4_ok (jMaxRetries j) \<Longrightarrow> int4_ok (jAttempt j + 1)"
  by (auto simp: job_wf_def int4_ok_def)

lemma job_step_fits: "job_step T rp j j' \<Longrightarrow> job_wf j \<Longrightarrow> job_fits j \<Longrightarrow> job_fits j'"
proof (induction rule: job_step.induct)
  case (fail j m t)
  then have "jState j \<noteq> StateDead" by (auto simp: in_flight_def)
  with fail show ?case using attempt_fits[of j] by (simp add: job_fits_def fail_row_def)
next
  case (exhaust j m)
  then have "jState j \<noteq> StateDead" by (auto simp: in_flight_def)
  with exhaust show ?case using attempt_fits[of j] by (simp add: job_fits_def fail_row_def)
next
  case (reap j)
  then have "jState j \<noteq> StateDead" by (auto simp: in_flight_def)
  with reap show ?case using attempt_fits[of j] by (simp add: job_fits_def reap_row_def)
qed (simp_all add: job_fits_def row_defs int4_ok_def)

lemma insert_fits: "fst (InsertJob e j d) \<noteq> d \<Longrightarrow> job_fits (inserted_row j)"
  by (auto simp: InsertJob_def Let_def job_fits_def inserted_row_def split: if_splits)

lemma jobs_fit_step:
  assumes "db_inv d" "\<forall>j \<in> set (jobs d). job_fits j"
  shows "\<forall>j \<in> set (jobs (apply_op x d)). job_fits j"
proof (cases "is_insert x \<or> is_cancel x")
  case False
  have "unique_key jID (jobs d)" "\<forall>j \<in> set (jobs d). job_wf j" using assms(1) by (simp_all add: db_inv_def)
  then show ?thesis
    using False assms(2) rows_step_in[OF apply_op_rows] job_step_fits by blast
next
  case True
  then show ?thesis
  proof (cases x)
    case (Op_InsertJob e j)
    then show ?thesis
      using assms(2) cases_insert[of e j d] insert_fits[of e j d] by (cases "fst (InsertJob e j d) = d") auto
  next
    case (Op_CancelJob e i tn)
    then show ?thesis using assms(2) cases_cancel[of e i tn d] by (auto simp: sql_delete_def)
  qed auto
qed

section \<open>Runs and dead letters\<close>

lemma close_fits: "close_run st now m r = Some r' \<Longrightarrow> run_fits r \<Longrightarrow> run_fits r'"
  by (auto simp: close_run_def run_fits_def duration_ms_def Let_def split: if_splits)

lemma try_fits:
  assumes "sql_update_try p (close_run st now m) rs = Some rs'" "\<forall>r \<in> set rs. run_fits r"
  shows "\<forall>r \<in> set rs'. run_fits r"
  using assms close_fits by (fastforce simp: sql_update_try_def split: if_splits)

lemma claim_fits:
  assumes "\<forall>r \<in> set (job_runs d). run_fits r" "\<forall>j \<in> set (jobs d). job_fits j"
  shows "\<forall>r' \<in> set (job_runs (claimed_db now r i w t dl d)). run_fits r'"
proof -
  have n: "run_fits (new_run r now j) \<longleftrightarrow> int4_ok (jAttempt j)" for j
    by (simp add: run_fits_def new_run_def)
  have "int4_ok (jAttempt j)" if "j \<in> set (sql_update (\<lambda>j. jID j = i) (claim_row now w t dl) (jobs d))" for j
    using that assms(2) unfolding set_sql_update by (auto simp: claim_row_def job_fits_def)
  with assms(1) n show ?thesis by (auto simp: claimed_db_def Let_def)
qed

lemma runs_fit_step:
  assumes "columns_fit d"
  shows "\<forall>r \<in> set (job_runs (apply_op x d)). run_fits r"
proof (cases x)
  case (Op_InsertJob e j)
  then show ?thesis
    using assms cases_insert[of e j d] by (cases "fst (InsertJob e j d) = d") (simp_all add: columns_fit_def)
next
  case (Op_TryClaim e r i w t dl)
  then show ?thesis
    using assms claim_fits[of d]
    by (cases rule: TryClaim_cases[of e r i w t dl d]) (simp_all add: columns_fit_def)
next
  case (Op_CompleteJob e i r t)
  then show ?thesis
    using assms try_fits[of _ _ _ _ "job_runs d"]
    by (cases rule: CompleteJob_cases[of e i r t d]) (auto simp: columns_fit_def)
next
  case (Op_FailJob e i r t m n)
  then show ?thesis
    using assms try_fits[of _ _ _ _ "job_runs d"]
    by (cases rule: FailJob_cases[of e i r t m n d]) (auto simp: columns_fit_def)
next
  case (Op_RequeueStaleJob e i)
  then show ?thesis
    using assms try_fits[of _ _ _ _ "job_runs d"]
    by (cases rule: RequeueStaleJob_cases[of e i d]) (auto simp: columns_fit_def)
next
  case (Op_CancelJob e i tn)
  then show ?thesis using assms runs_either[OF cases_cancel[of e i tn d]] by (simp add: columns_fit_def)
qed (use assms in \<open>simp_all add: columns_fit_def cases_dead_letter runs_either[OF cases_1(1)] runs_either[OF cases_1(2)]
    runs_either[OF cases_1(3)] runs_either[OF cases_1(4)] runs_either[OF cases_1(5)]
    runs_either[OF cases_1(6)] runs_either[OF cases_1(7)]\<close>)

lemma dead_letter_fits:
  assumes "columns_fit d"
  shows "\<forall>x \<in> set (dead_letter (fst (MoveToDeadLetter e i d))). int4_ok (dlAttemptCount x)"
  using assms unfolding MoveToDeadLetter_def in_tx_def autocommit_def
  by (auto simp: columns_fit_def job_fits_def split: option.split)

lemma columns_fit_step:
  assumes "db_inv d" "columns_fit d"
  shows "columns_fit (apply_op x d)"
proof -
  have "\<forall>y \<in> set (dead_letter (apply_op x d)). int4_ok (dlAttemptCount y)"
  proof (cases "\<exists>e i. x = Op_MoveToDeadLetter e i")
    case True
    then show ?thesis using dead_letter_fits[OF assms(2)] by auto
  next
    case False
    then show ?thesis using dead_letter_other[of x d] assms(2) by (simp add: columns_fit_def)
  qed
  moreover have "\<forall>j \<in> set (jobs (apply_op x d)). job_fits j"
    using assms(2) by (intro jobs_fit_step[OF assms(1)]) (simp add: columns_fit_def)
  ultimately show ?thesis using runs_fit_step[OF assms(2), of x] by (simp add: columns_fit_def)
qed

interpretation col: invariant_of db_init op_ok apply_op "\<lambda>d. db_inv d \<and> columns_fit d"
proof
  show "db_init d \<Longrightarrow> db_inv d \<and> columns_fit d" for d
    by (simp add: db_inv_init) (simp add: db_init_def columns_fit_def)
  show "db_inv d \<and> columns_fit d \<Longrightarrow> op_ok d x \<Longrightarrow> db_inv (apply_op x d) \<and> columns_fit (apply_op x d)" for d x
    using db_inv_step columns_fit_step by blast
qed

section \<open>Properties\<close>

text \<open>C9. Type safety of the tables: in every state that the operations can reach, with any faults, each
  value fits its column (payloads are not null, priorities fit \<open>SMALLINT\<close>, attempt counters, retry limits,
  backoffs and durations fit \<open>INT\<close>), and the attempt counter of a job that is not dead can be
  incremented without leaving its column, so no \<open>UPDATE attempt = attempt + 1\<close> is out of range.\<close>

theorem columns_always_fit:
  assumes "reach db_init op_ok apply_op d"
  shows "columns_fit d \<and> (\<forall>j \<in> set (jobs d). jState j \<noteq> StateDead \<longrightarrow> int4_ok (jAttempt j + 1))"
proof -
  have i: "db_inv d" "columns_fit d" using col.reach_inv[OF assms] by simp_all
  then have "int4_ok (jAttempt j + 1)" if "j \<in> set (jobs d)" "jState j \<noteq> StateDead" for j
    using attempt_fits[of j] that by (simp add: db_inv_def columns_fit_def job_fits_def)
  with i(2) show ?thesis by blast
qed

theorem columns_always_fit_witness:
  "let d = run apply_op [demo_insert, demo_claim 3 4 10, demo_reap] demo_empty in
   columns_fit d \<and> (\<forall>j \<in> set (jobs d). jState j \<noteq> StateDead \<longrightarrow> int4_ok (jAttempt j + 1)) \<and>
   map jAttempt (jobs d) = [1]"
proof -
  let ?d = "run apply_op [demo_insert, demo_claim 3 4 10, demo_reap] demo_empty"
  have r: "reach db_init op_ok apply_op ?d" by (rule demo_reach) code_simp
  have "map jAttempt (jobs ?d) = [1]" by code_simp
  then show ?thesis unfolding Let_def using columns_always_fit[OF r] by blast
qed

end
