(* ===== verification/Dashboard.thy ===== *)
theory Dashboard
  imports Requests
begin

text \<open>
  The dashboard of internal/api: the statistics endpoint against what is really queued, and the stream
  of snapshots of \<open>handleWebSocket\<close>.
\<close>

section \<open>The stream of snapshots\<close>

type_synonym snapshot = "queue_depth list \<times> (string \<times> nat) list \<times> time"

text \<open>What the select of the loop sees: a tick, with the result of \<open>WriteMessage\<close>, or the end of the context.\<close>

datatype 'r ws_event = WsTick "'r world" bool | WsDone

text \<open>The snapshots that reach the client, and whether the handler returned.\<close>

fun ws_stream ::
    "'r redis \<Rightarrow> (uuid \<Rightarrow> string) \<Rightarrow> (Tenant list \<Rightarrow> Tenant list) \<Rightarrow> 'r ws_event list \<Rightarrow> db \<times> 'r \<Rightarrow>
     (db \<times> 'r) \<times> snapshot list \<times> bool" where
  "ws_stream R ustr tscan [] st = (st, [], False)"
| "ws_stream R ustr tscan (WsDone # evs) st = (st, [], True)"
| "ws_stream R ustr tscan (WsTick W ok # evs) st =
     (case ws_tick R ustr tscan W st of
        (st1, None) \<Rightarrow> ws_stream R ustr tscan evs st1
      | (st1, Some m) \<Rightarrow>
          if ok then (case ws_stream R ustr tscan evs st1 of (st2, ms, e) \<Rightarrow> (st2, m # ms, e))
          else (st1, [], True))"

definition handleWebSocket ::
    "'r redis \<Rightarrow> (uuid \<Rightarrow> string) \<Rightarrow> (Tenant list \<Rightarrow> Tenant list) \<Rightarrow> bool \<Rightarrow> 'r ws_event list \<Rightarrow> db \<times> 'r \<Rightarrow>
     (db \<times> 'r) \<times> snapshot list \<times> bool" where
  "handleWebSocket R ustr tscan upgraded evs st =
     (if \<not> upgraded then (st, [], True) else ws_stream R ustr tscan evs st)"

section \<open>The depths that are true\<close>

definition lanes :: "(string \<times> int) list" where
  "lanes = [(''high'', PriorityHigh), (''normal'', PriorityNormal), (''low'', PriorityLow)]"

text \<open>For every tenant and lane, the number of entries in the list \<open>Enqueue\<close> pushes to.\<close>

definition true_depths ::
    "(uuid \<Rightarrow> string) \<Rightarrow> (string \<Rightarrow> string list) \<Rightarrow> Tenant list \<Rightarrow> queue_depth list" where
  "true_depths ustr m ts =
     concat (map (\<lambda>t. map (\<lambda>(label, p). \<lparr>qdTenantID = tID t, qdTenant = tName t, qdPriority = label,
       qdDepth = int (length (m (queue_key ustr (bucketForPriority p) (tID t))))\<rparr>) lanes) ts)"

definition llen_ok :: "'r redis \<Rightarrow> bool" where
  "llen_ok R \<longleftrightarrow> (\<forall>k s. \<exists>s' n. LLen R k s = (s', Inr n))"

lemma read_depths_true:
  assumes "lists_ok R L" "llen_ok R" "read_depths R ks s = (s', out)"
  shows "L s' = L s \<and> out = map (\<lambda>(t, label, key). \<lparr>qdTenantID = tID t, qdTenant = tName t, qdPriority = label,
    qdDepth = int (length (L s key))\<rparr>) ks"
  using assms(3)
proof (induction ks arbitrary: s s' out)
  case (Cons x ks)
  obtain t l k where x: "x = (t, l, k)" by (cases x)
  obtain s1 n where q: "LLen R k s = (s1, Inr n)" using assms(2) unfolding llen_ok_def by blast
  obtain s2 o2 where r: "read_depths R ks s1 = (s2, o2)" by (rule prod.exhaust)
  have "n = int (length (L s k))" "L s1 = L s"
    using LLen_value[OF assms(1) q] LLen_lists[OF assms(1) q] by simp_all
  then show ?case using Cons.IH[OF r] Cons.prems x q r by auto
qed simp

lemma lane_keys_true:
  "map (\<lambda>(t, label, key). \<lparr>qdTenantID = tID t, qdTenant = tName t, qdPriority = label,
     qdDepth = int (length (m key))\<rparr>) (lane_keys ustr ts) = true_depths ustr m ts"
  by (induction ts) (simp_all add: lane_keys_def true_depths_def lanes_def queue_key_def bucketForPriority_def
      PriorityHigh_def PriorityNormal_def PriorityLow_def)

lemma queueDepths_true:
  assumes "lists_ok R L" "llen_ok R" "calm e"
  obtains s' where "queueDepths R ustr tscan e (d, s) =
      ((d, s'), Inr (true_depths ustr (L s) (sql_select tscan active (tenants d))))" "L s' = L s"
proof -
  let ?ts = "sql_select tscan active (tenants d)"
  obtain s' out where r: "read_depths R (lane_keys ustr ?ts) s = (s', out)" by (rule prod.exhaust)
  show thesis
    by (rule that[of s'])
      (use r read_depths_true[OF assms(1,2) r] assms(3) lane_keys_true in
        \<open>simp_all add: queueDepths_def GetTenants_def query_def calm_def\<close>)
qed

lemma sum_nonzero:
  fixes f :: "'a \<Rightarrow> nat"
  shows "sum_list (map f (filter (\<lambda>x. f x \<noteq> 0) xs)) = sum_list (map f xs)"
  by (induction xs) auto

lemma counts_total:
  assumes "calm e"
  obtains cs where "CountJobsByState e d = Inr cs" "sum_list (map snd cs) = length (jobs d)"
proof -
  let ?n = "\<lambda>st. rows_affected (\<lambda>j. jState j = st) (jobs d)"
  have "sum_list (map ?n (filter (\<lambda>st. ?n st \<noteq> 0) all_states)) = sum_list (map ?n all_states)"
    by (rule sum_nonzero)
  then show thesis
    by (intro that[of "map (\<lambda>st. (state_string st, ?n st)) (filter (\<lambda>st. ?n st \<noteq> 0) all_states)"])
      (use assms sum_states[of "jobs d"] in \<open>simp_all add: CountJobsByState_def query_def calm_def comp_def\<close>)
qed

lemma ws_tick_true:
  assumes "lists_ok R L" "llen_ok R" "quiet W"
  obtains s' cs where "ws_tick R ustr tscan W (d, s) =
      ((d, s'), Some (true_depths ustr (L s) (sql_select tscan active (tenants d)), cs, go_now (wEnv W 2)))"
    "L s' = L s" "sum_list (map snd cs) = length (jobs d)"
proof -
  obtain s' where q: "queueDepths R ustr tscan (wEnv W 1) (d, s) =
      ((d, s'), Inr (true_depths ustr (L s) (sql_select tscan active (tenants d))))" "L s' = L s"
    by (rule queueDepths_true[OF assms(1,2) quietD(1)[OF assms(3)]])
  obtain cs where c: "CountJobsByState (wEnv W 2) d = Inr cs" "sum_list (map snd cs) = length (jobs d)"
    by (rule counts_total[OF quietD(1)[OF assms(3)]])
  show thesis
    by (rule that[OF _ q(2) c(2)]) (use q(1) c(1) in \<open>simp add: ws_tick_def quietD(2)[OF assms(3)]\<close>)
qed

text \<open>While the client reads and the servers answer, every tick sends one true snapshot.\<close>

lemma ws_stream_true:
  assumes "lists_ok R L" "llen_ok R" "\<forall>e \<in> set evs. \<exists>W. e = WsTick W True \<and> quiet W"
  shows "\<exists>s' ms. handleWebSocket R ustr tscan True evs (d, s) = ((d, s'), ms, False) \<and> L s' = L s \<and>
    length ms = length evs \<and> (\<forall>m \<in> set ms. fst m = true_depths ustr (L s) (sql_select tscan active (tenants d)))"
  using assms(3)
proof (induction evs arbitrary: s)
  case (Cons e evs)
  then obtain W where W: "e = WsTick W True" "quiet W" by auto
  obtain s1 cs where t: "ws_tick R ustr tscan W (d, s) =
      ((d, s1), Some (true_depths ustr (L s) (sql_select tscan active (tenants d)), cs, go_now (wEnv W 2)))"
    "L s1 = L s" by (rule ws_tick_true[OF assms(1,2) W(2)])
  obtain s' ms where r: "ws_stream R ustr tscan evs (d, s1) = ((d, s'), ms, False)" "L s' = L s"
    "length ms = length evs" "\<forall>m \<in> set ms. fst m = true_depths ustr (L s) (sql_select tscan active (tenants d))"
    using Cons.IH[of s1] Cons.prems t(2) by (auto simp: handleWebSocket_def)
  then show ?case using W(1) t by (simp add: handleWebSocket_def)
qed (simp add: handleWebSocket_def)

section \<open>Properties\<close>

text \<open>C32. The statistics are the truth: on a healthy system the statistics endpoint answers 200 with, for every active
  tenant and every lane, exactly the number of entries in the list that \<open>Enqueue\<close> pushes jobs of that
  tenant and priority to, and with counts per state that add up to all jobs; it changes nothing.\<close>

theorem handleStats_exact:
  assumes "quiet W" "lists_ok R L" "llen_ok R"
  shows "\<exists>s' cs. handleStats R ustr tscan W (d, s) =
      ((d, s'), writeJSON 200 (StatsBody (true_depths ustr (L s) (sql_select tscan active (tenants d))) cs)) \<and>
    L s' = L s \<and> sum_list (map snd cs) = length (jobs d)"
proof -
  obtain s' where q: "queueDepths R ustr tscan (wEnv W 1) (d, s) =
      ((d, s'), Inr (true_depths ustr (L s) (sql_select tscan active (tenants d))))" "L s' = L s"
    by (rule queueDepths_true[OF assms(2,3) quietD(1)[OF assms(1)]])
  obtain cs where c: "CountJobsByState (wEnv W 2) d = Inr cs" "sum_list (map snd cs) = length (jobs d)"
    by (rule counts_total[OF quietD(1)[OF assms(1)]])
  have "handleStats R ustr tscan W (d, s) =
      ((d, s'), writeJSON 200 (StatsBody (true_depths ustr (L s) (sql_select tscan active (tenants d))) cs))"
    using q(1) c(1) by (simp add: handleStats_def quietD(2)[OF assms(1)])
  with q(2) c(2) show ?thesis by blast
qed

theorem handleStats_exact_witness:
  "let d = demo_empty\<lparr>tenants := [demo_tenant], jobs := [demo_job 7]\<rparr>; s = fst (Enqueue mem_redis ref_ustr 1 7 10 mem_empty) in
   (\<exists>s' cs. handleStats mem_redis ref_ustr (\<lambda>t. t) demo_world (d, s) =
      ((d, s'), writeJSON 200 (StatsBody (true_depths ref_ustr (mLists s) (sql_select (\<lambda>t. t) active (tenants d))) cs)) \<and>
    mLists s' = mLists s \<and> sum_list (map snd cs) = length (jobs d)) \<and>
   map qdDepth (true_depths ref_ustr (mLists s) (sql_select (\<lambda>t. t) active (tenants d))) = [0, 0, 1]"
proof -
  have l: "llen_ok mem_redis" by (simp add: llen_ok_def mem_redis_def)
  show ?thesis unfolding Let_def
    by (intro conjI handleStats_exact[OF demo_world_quiet mem_redis_lists_ok l]) code_simp
qed

end
