(* ===== verification/Progress.thy ===== *)
theory Progress
  imports Recovery Claims
begin

text \<open>
  The loops of the scheduler together: one round of the reconciler, the due poll and the reaper leaves
  no job behind.
\<close>

section \<open>What a round finds\<close>

text \<open>Time \<open>T\<close> is later than everything the database waits for.\<close>

definition settled :: "time \<Rightarrow> db \<Rightarrow> bool" where
  "settled T d \<longleftrightarrow> (\<forall>j \<in> set (jobs d). jRunAt j \<le> T - minute \<and> (\<forall>dl. jDeadline j = Some dl \<longrightarrow> dl < T))"

text \<open>No kind of waiting job is more numerous than a batch.\<close>

definition small :: "db \<Rightarrow> bool" where
  "small d \<longleftrightarrow> (\<forall>st. rows_affected (\<lambda>j. jState j = st) (jobs d) \<le> 500)"

text \<open>The clocks of the calls of an activity are at \<open>T\<close> or later and do not run back before its first call.\<close>

definition clocks_from :: "time \<Rightarrow> 'r world \<Rightarrow> bool" where
  "clocks_from T W \<longleftrightarrow> (\<forall>i. T \<le> pg_now (wEnv W 0) \<and> pg_now (wEnv W 0) \<le> pg_now (wEnv W i))"

text \<open>A job that can make progress: pending with an entry in its queue, or dead.\<close>

definition served :: "(uuid \<Rightarrow> string) \<Rightarrow> (string \<Rightarrow> string list) \<Rightarrow> job \<Rightarrow> bool" where
  "served ustr m j \<longleftrightarrow> jState j = StateDead \<or> jState j = StatePending \<and> ustr (jID j) \<in> set (m (job_key ustr j))"

lemma full_batch:
  assumes "is_batch p 500 d batch" "unique_key jID (jobs d)" "rows_affected p (jobs d) \<le> 500"
  shows "set batch = {j \<in> set (jobs d). p j}"
proof (rule card_subset_eq)
  show "card (set batch) = card {j \<in> set (jobs d). p j}"
    using assms by (simp add: is_batch_def distinct_card card_rows)
qed (use assms(1) in \<open>simp_all add: is_batch_def\<close>)

lemma rows_affected_mono: "(\<And>r. p r \<Longrightarrow> q r) \<Longrightarrow> rows_affected p t \<le> rows_affected q t"
  unfolding rows_affected_def by (induction t) auto

lemma small_batch: "small d \<Longrightarrow> (\<And>r. p r \<Longrightarrow> jState r = st) \<Longrightarrow> rows_affected p (jobs d) \<le> 500"
  using rows_affected_mono[of p "\<lambda>j. jState j = st" "jobs d"] by (simp add: small_def) (meson order_trans)

lemma job_key_upd [simp]:
  "job_key ustr (j\<lparr>jState := st\<rparr>) = job_key ustr j" "job_key ustr (j\<lparr>jState := st, jRunAt := t\<rparr>) = job_key ustr j"
  "job_key ustr (reap_row j) = job_key ustr j"
  by (simp_all add: job_key_def reap_row_def)

section \<open>The steps of a round\<close>

lemma reconcile_round:
  assumes "quiet W" "lists_ok R L" "no_errors R" "scan_ok scan" "settled T d" "small d" "clocks_from T W"
    and "reconcilePending R ustr scan W (d, s) = (d', s')"
  shows "d' = d" "set (L s q) \<subseteq> set (L s' q)"
    "j \<in> set (jobs d) \<Longrightarrow> jState j = StatePending \<Longrightarrow> ustr (jID j) \<in> set (L s' (job_key ustr j))"
proof -
  let ?t = "pg_now (wEnv W 0)" let ?b = "poll_batch scan (overdue ?t) 500 d"
  note b = reconcile_batch[OF assms(1-4,8)]
  show "d' = d" "set (L s q) \<subseteq> set (L s' q)" using b by auto
  have "rows_affected (overdue ?t) (jobs d) \<le> 500"
    using small_batch[OF assms(6), of "overdue ?t" StatePending] by (simp add: overdue_def)
  then have s: "set ?b = {j \<in> set (jobs d). overdue ?t j}" using batch_all[OF assms(4), of "overdue ?t" d 500] by simp
  assume j: "j \<in> set (jobs d)" "jState j = StatePending"
  then have "overdue ?t j" using assms(5,7) by (fastforce simp: settled_def clocks_from_def overdue_def)
  with j(1) s have "j \<in> set ?b" by blast
  from pushes_in[OF this, of ustr] b show "ustr (jID j) \<in> set (L s' (job_key ustr j))" by simp
qed

lemma scheduled_round:
  assumes "quiet W" "lists_ok R L" "no_errors R" "scan_ok scan" "settled T d" "small d" "clocks_from T W"
    and "unique_key jID (jobs d)" "pollScheduledJobs R ustr scan W (d, s) = (d', s')"
    and "lookup jID k (jobs d) = Some j"
  shows "set (L s q) \<subseteq> set (L s' q)"
    "lookup jID k (jobs d') = Some (if jState j = StateScheduled then j\<lparr>jState := StatePending\<rparr> else j)"
    "jState j = StateScheduled \<Longrightarrow> ustr k \<in> set (L s' (job_key ustr j))"
proof -
  let ?p = "due (pg_now (wEnv W 0)) StateScheduled"
  obtain b where b: "is_batch ?p 500 d b" "\<forall>k. lookup jID k (jobs d') =
      map_option (\<lambda>j. if j \<in> set b then j\<lparr>jState := StatePending\<rparr> else j) (lookup jID k (jobs d))"
    "\<forall>q. L s' q = pushes ustr b q @ L s q"
    using pollScheduledJobs_outcome[OF assms(1-4,8,9)] by blast
  have "rows_affected ?p (jobs d) \<le> 500"
    using small_batch[OF assms(6), of ?p StateScheduled] by (simp add: due_def)
  then have s: "set b = {j \<in> set (jobs d). ?p j}" by (rule full_batch[OF b(1) assms(8)])
  have j: "j \<in> set (jobs d)" "jID j = k" using jt.lookup_SomeD[OF assms(10)] by auto
  have "?p j \<longleftrightarrow> jState j = StateScheduled"
    using assms(5,7) j(1) by (fastforce simp: settled_def clocks_from_def due_def minute_def second_def)
  then have m: "j \<in> set b \<longleftrightarrow> jState j = StateScheduled" using s j(1) by blast
  show "set (L s q) \<subseteq> set (L s' q)" using b(3) by auto
  show "lookup jID k (jobs d') = Some (if jState j = StateScheduled then j\<lparr>jState := StatePending\<rparr> else j)"
    using b(2) assms(10) m by simp
  show "jState j = StateScheduled \<Longrightarrow> ustr k \<in> set (L s' (job_key ustr j))"
    using pushes_in[of j b ustr] m j(2) b(3) by simp
qed

lemma failed_round:
  assumes "quiet W" "lists_ok R L" "no_errors R" "scan_ok scan" "clocks_from T W"
    and "unique_key jID (jobs d)" "pollFailedJobs R ustr scan W (d, s) = (d', s')"
    and "rows_affected (\<lambda>j. jState j = StateFailed) (jobs d) \<le> 500"
    and "lookup jID k (jobs d) = Some j" "jRunAt j \<le> T"
  shows "set (L s q) \<subseteq> set (L s' q)"
    "\<exists>t. lookup jID k (jobs d') = Some (if jState j = StateFailed then j\<lparr>jState := StatePending, jRunAt := t\<rparr> else j)"
    "jState j = StateFailed \<Longrightarrow> ustr k \<in> set (L s' (job_key ustr j))"
proof -
  let ?p = "due (pg_now (wEnv W 0)) StateFailed"
  obtain b where b: "is_batch ?p 500 d b" "\<forall>k j. lookup jID k (jobs d) = Some j \<longrightarrow> (\<exists>m. lookup jID k (jobs d') =
      Some (if j \<in> set b then j\<lparr>jState := StatePending, jRunAt := pg_now (wEnv W m)\<rparr> else j))"
    "\<forall>q. L s' q = pushes ustr b q @ L s q"
    using pollFailedJobs_outcome[OF assms(1-4,6,7)] by blast
  have "rows_affected ?p (jobs d) \<le> 500"
    using rows_affected_mono[of ?p "\<lambda>j. jState j = StateFailed" "jobs d"] assms(8) by (simp add: due_def)
  then have s: "set b = {j \<in> set (jobs d). ?p j}" by (rule full_batch[OF b(1) assms(6)])
  have j: "j \<in> set (jobs d)" "jID j = k" using jt.lookup_SomeD[OF assms(9)] by auto
  have "?p j \<longleftrightarrow> jState j = StateFailed"
    using assms(5,10) by (fastforce simp: clocks_from_def due_def)
  then have m: "j \<in> set b \<longleftrightarrow> jState j = StateFailed" using s j(1) by blast
  show "set (L s q) \<subseteq> set (L s' q)" using b(3) by auto
  show "\<exists>t. lookup jID k (jobs d') = Some (if jState j = StateFailed then j\<lparr>jState := StatePending, jRunAt := t\<rparr> else j)"
  proof -
    obtain i where "lookup jID k (jobs d') =
        Some (if j \<in> set b then j\<lparr>jState := StatePending, jRunAt := pg_now (wEnv W i)\<rparr> else j)"
      using b(2) assms(9) by blast
    then show ?thesis unfolding m by blast
  qed
  show "jState j = StateFailed \<Longrightarrow> ustr k \<in> set (L s' (job_key ustr j))"
    using pushes_in[of j b ustr] m j(2) b(3) by simp
qed

lemma reap_round:
  assumes "quiet W" "lists_ok R L" "no_errors R" "scan_ok scan" "clocks_from T W" "unique_key jID (jobs d)"
    and "\<And>i. open_closable (go_now (wEnv W i)) d" "reapStaleClaims R ustr scan W (d, s) = (d', s')"
    and "lookup jID k (jobs d) = Some j" "in_flight (jState j) \<Longrightarrow> \<exists>dl. jDeadline j = Some dl \<and> dl < T"
  shows "set (L s q) \<subseteq> set (L s' q)"
    "lookup jID k (jobs d') = Some (if in_flight (jState j) then reap_row j else j)"
    "in_flight (jState j) \<Longrightarrow> served ustr (L s') (reap_row j)"
proof -
  let ?t = "pg_now (wEnv W 0)"
  have c: "?t \<le> pg_now (wEnv W i)" for i using assms(5) by (simp add: clocks_from_def)
  obtain js where r: "\<forall>k. lookup jID k (jobs d') = map_option (\<lambda>j. if expired ?t j then reap_row j else j) (lookup jID k (jobs d))"
    "mset js = filter_mset (\<lambda>j. expired ?t j \<and> jAttempt j + 1 < jMaxRetries j) (mset (jobs d))"
    "\<forall>q. L s' q = pushes ustr js q @ L s q"
    using reap_effect[OF assms(1-4,6) c assms(7,8)] by blast
  have j: "j \<in> set (jobs d)" "jID j = k" using jt.lookup_SomeD[OF assms(9)] by auto
  have e: "expired ?t j \<longleftrightarrow> in_flight (jState j)"
    using assms(5,10) by (fastforce simp: expired_def clocks_from_def)
  show "set (L s q) \<subseteq> set (L s' q)" using r(3) by auto
  show "lookup jID k (jobs d') = Some (if in_flight (jState j) then reap_row j else j)"
    using r(1) assms(9) e by simp
  assume f: "in_flight (jState j)"
  show "served ustr (L s') (reap_row j)"
  proof (cases "jAttempt j + 1 < jMaxRetries j")
    case True
    then have "j \<in> set_mset (mset js)" unfolding r(2) using e f j(1) by simp
    then have "ustr (jID j) \<in> set (L s' (job_key ustr j))" using pushes_in[of j js ustr] r(3) by simp
    with True show ?thesis by (simp add: served_def reap_state_def) (simp add: reap_row_def reap_state_def)
  qed (simp add: served_def reap_row_def reap_state_def)
qed

text \<open>The polls write no run, and the due poll makes no job fail.\<close>

lemma polls_runs:
  assumes "quiet W"
  shows "job_runs (fst (pollScheduledJobs R ustr scan W st)) = job_runs (fst st)"
    "job_runs (fst (pollFailedJobs R ustr scan W st)) = job_runs (fst st)"
proof -
  have o: "others_keep (\<lambda>d. job_runs d = job_runs (fst st)) W" by (simp add: others_keep_def quietD[OF assms])
  have a: "job_runs (fst (PromoteScheduledToPending e i d)) = job_runs d"
    "job_runs (fst (PromoteFailedToPending e i d)) = job_runs d" for e i d
    by (auto simp: PromoteScheduledToPending_def PromoteFailedToPending_def autocommit_def split: option.split)
  show "job_runs (fst (pollScheduledJobs R ustr scan W st)) = job_runs (fst st)"
    "job_runs (fst (pollFailedJobs R ustr scan W st)) = job_runs (fst st)"
    unfolding pollScheduledJobs_def pollFailedJobs_def Let_def quietD(2)[OF assms]
    using loop_inv[OF o refl, of PromoteScheduledToPending] loop_inv[OF o refl, of PromoteFailedToPending] a
    by (simp_all split: sum.split)
qed

lemma no_new_failures:
  assumes "unique_key jID (jobs d)" "unique_key jID (jobs d')"
    and "\<And>k j. lookup jID k (jobs d) = Some j \<Longrightarrow> \<exists>j'. lookup jID k (jobs d') = Some j' \<and> (jState j' = StateFailed \<longrightarrow> j' = j)"
    and "\<And>k. lookup jID k (jobs d) = None \<Longrightarrow> lookup jID k (jobs d') = None"
  shows "rows_affected (\<lambda>j. jState j = StateFailed) (jobs d') \<le> rows_affected (\<lambda>j. jState j = StateFailed) (jobs d)"
proof -
  have "{j \<in> set (jobs d'). jState j = StateFailed} \<subseteq> {j \<in> set (jobs d). jState j = StateFailed}"
  proof
    fix j assume j: "j \<in> {j \<in> set (jobs d'). jState j = StateFailed}"
    then have l: "lookup jID (jID j) (jobs d') = Some j" using jt.lookup_unique[OF assms(2)] by simp
    then obtain r where r: "lookup jID (jID j) (jobs d) = Some r"
      using assms(4)[of "jID j"] by (cases "lookup jID (jID j) (jobs d)") auto
    from assms(3)[OF r] l j have "r = j" by auto
    with r j show "j \<in> {j \<in> set (jobs d). jState j = StateFailed}" using jt.lookup_SomeD[OF r] by simp
  qed
  then have "card {j \<in> set (jobs d'). jState j = StateFailed} \<le> card {j \<in> set (jobs d). jState j = StateFailed}"
    by (intro card_mono) simp_all
  then show ?thesis by (simp add: card_rows[OF assms(1)] card_rows[OF assms(2)])
qed

section \<open>A round\<close>

text \<open>One tick of the reconciler, the due poll and the reaper, each poll with its own world.\<close>

definition scheduler_round ::
    "'r redis \<Rightarrow> (uuid \<Rightarrow> string) \<Rightarrow> (job list \<Rightarrow> job list) \<Rightarrow> (nat \<Rightarrow> 'r world) \<Rightarrow> db \<times> 'r \<Rightarrow> db \<times> 'r" where
  "scheduler_round R ustr scan W st =
     reapStaleClaims R ustr scan (W 3) (duePoll R ustr scan (W 1) (W 2) (reconcilePending R ustr scan (W 0) st))"

text \<open>What the round makes of a row up to the reaper: a waiting job is pending and queued.\<close>

lemma due_round:
  assumes W: "\<And>n. quiet (W n)" "\<And>n. clocks_from T (W n)" and R: "lists_ok R L" "no_errors R" "scan_ok scan"
    and d: "db_inv d" "settled T d" "small d"
    and r: "duePoll R ustr scan (W 1) (W 2) (reconcilePending R ustr scan (W 0) (d, s)) = (d', s')"
    and j: "lookup jID k (jobs d) = Some j"
  shows "\<exists>j'. lookup jID k (jobs d') = Some j' \<and> (if IsTerminal j \<or> in_flight (jState j) then j' = j
      else jState j' = StatePending \<and> served ustr (L s') j')"
    and "db_inv d'" "job_runs d' = job_runs d"
proof -
  obtain d0 s0 where r0: "reconcilePending R ustr scan (W 0) (d, s) = (d0, s0)" by (rule prod.exhaust)
  note c = reconcile_round[OF W(1) R d(2,3) W(2) r0]
  obtain d1 s1 where r1: "pollScheduledJobs R ustr scan (W 1) (d, s0) = (d1, s1)" by (rule prod.exhaust)
  have r2: "pollFailedJobs R ustr scan (W 2) (d1, s1) = (d', s')" using r r0 r1 c(1) by (simp add: duePoll_def)
  have o: "others_keep db_inv (W n)" for n by (simp add: others_keep_def quietD[OF W(1)])
  have i1: "db_inv d1" using polls_inv(1)[OF o, of "(d, s0)"] d(1) r1 by (metis fst_conv)
  show "db_inv d'" using polls_inv(2)[OF o, of "(d1, s1)"] i1 r2 by (metis fst_conv)
  show "job_runs d' = job_runs d" using polls_runs[OF W(1)] r1 r2 by (metis fst_conv)
  note u = db_inv_unique[OF d(1)] db_inv_unique[OF i1]
  note p = scheduled_round[OF W(1) R d(2,3) W(2) u(1) r1]
  have "lookup jID k (jobs d1) = None" if "lookup jID k (jobs d) = None" for k
    using pollScheduledJobs_outcome[OF W(1) R u(1) r1] that by auto
  then have "rows_affected (\<lambda>j. jState j = StateFailed) (jobs d1) \<le> rows_affected (\<lambda>j. jState j = StateFailed) (jobs d)"
    by (intro no_new_failures u) (auto simp: p(2))
  then have f: "rows_affected (\<lambda>j. jState j = StateFailed) (jobs d1) \<le> 500"
    using d(3) unfolding small_def by (meson order_trans)
  have m: "j \<in> set (jobs d)" "jID j = k" using jt.lookup_SomeD[OF j] by auto
  let ?j = "if jState j = StateScheduled then j\<lparr>jState := StatePending\<rparr> else j"
  have "jRunAt ?j \<le> T" using d(2) m(1) by (force simp: settled_def minute_def second_def)
  note q = failed_round[OF W(1) R W(2) u(2) r2 f p(2)[OF j] this]
  obtain t where t: "lookup jID k (jobs d') =
      Some (if jState ?j = StateFailed then ?j\<lparr>jState := StatePending, jRunAt := t\<rparr> else ?j)" using q(2) by blast
  have "jState j = StatePending \<Longrightarrow> ustr k \<in> set (L s' (job_key ustr j))" using c(3)[OF m(1)] p(1)[OF j] q(1) m(2) by blast
  moreover have "jState j = StateScheduled \<Longrightarrow> ustr k \<in> set (L s' (job_key ustr j))" using p(3)[OF j] q(1) by blast
  moreover have "jState j = StateFailed \<Longrightarrow> ustr k \<in> set (L s' (job_key ustr j))" using q(3) by simp
  ultimately show "\<exists>j'. lookup jID k (jobs d') = Some j' \<and> (if IsTerminal j \<or> in_flight (jState j) then j' = j
      else jState j' = StatePending \<and> served ustr (L s') j')"
    using t m(2) by (cases "jState j") (simp_all add: IsTerminal_def in_flight_def served_def)
qed

text \<open>C11. No job is stuck: on a healthy system, once everything the database waits for is past (run times,
  retry times, deadlines) and no state has more jobs than a batch holds, one round of the scheduler leaves
  every job that is neither succeeded nor dead pending with an entry in the queue its workers read;
  the exception is a job in flight whose attempts are used up, which is dead. No matter what happened before (lost
  queue entries, crashed workers, failed pushes), nothing is left behind. Final jobs do not change.\<close>

theorem no_job_stuck:
  assumes "\<And>n. quiet (W n)" "\<And>n. clocks_from T (W n)" "lists_ok R L" "no_errors R" "scan_ok scan"
    and "db_inv d" "settled T d" "small d" "\<And>i. open_closable (go_now (wEnv (W 3) i)) d"
    and "scheduler_round R ustr scan W (d, s) = (d', s')" "lookup jID k (jobs d) = Some j"
  shows "\<exists>j'. lookup jID k (jobs d') = Some j' \<and>
    (if IsTerminal j then j' = j else served ustr (L s') j' \<and>
       (jState j' = StateDead \<longleftrightarrow> in_flight (jState j) \<and> jMaxRetries j \<le> jAttempt j + 1))"
proof -
  obtain d1 s1 where r: "duePoll R ustr scan (W 1) (W 2) (reconcilePending R ustr scan (W 0) (d, s)) = (d1, s1)"
    by (rule prod.exhaust)
  then have r': "reapStaleClaims R ustr scan (W 3) (d1, s1) = (d', s')" using assms(10) by (simp add: scheduler_round_def)
  note p = due_round[OF assms(1-8) r assms(11)]
  obtain j1 where j1: "lookup jID k (jobs d1) = Some j1" "if IsTerminal j \<or> in_flight (jState j) then j1 = j
      else jState j1 = StatePending \<and> served ustr (L s1) j1" using p(1) by blast
  have m: "j \<in> set (jobs d)" using jt.lookup_SomeD[OF assms(11)] by auto
  then have "job_wf j" using assms(6) by (simp add: db_inv_def)
  then have f: "in_flight (jState j1) \<Longrightarrow> \<exists>dl. jDeadline j1 = Some dl \<and> dl < T"
    using j1(2) m assms(7) by (auto simp: job_wf_def settled_def in_flight_def IsTerminal_def split: if_splits)
  have c: "open_closable (go_now (wEnv (W 3) i)) d1" for i using assms(9)[of i] p(3) by (simp add: open_closable_def)
  note q = reap_round[OF assms(1,3-5,2) db_inv_unique[OF p(2)] c r' j1(1) f]
  show ?thesis
  proof (cases "in_flight (jState j)")
    case True
    then show ?thesis using j1(2) q(2,3) by (auto simp: IsTerminal_def in_flight_def reap_row_def reap_state_def)
  next
    case False
    then show ?thesis using j1(2) q(1,2) by (auto simp: IsTerminal_def in_flight_def served_def split: if_splits)
  qed
qed

theorem no_job_stuck_witness:
  "let lost = (demo_job 7)\<lparr>jState := StateRunning, jClaimedAt := Some 0, jClaimedBy := Some ''w'', jClaimToken := Some 4, jDeadline := Some 50\<rparr>;
       d = demo_empty\<lparr>jobs := [lost, (demo_job 8)\<lparr>jIdempotencyKey := None\<rparr>]\<rparr>;
       (d', s') = scheduler_round mem_redis ref_ustr (\<lambda>t. t) (\<lambda>_. alone (\<lambda>_. demo_env minute)) (d, mem_empty) in
   (\<exists>j'. lookup jID 7 (jobs d') = Some j' \<and> served ref_ustr (mLists s') j') \<and>
   (\<exists>j'. lookup jID 8 (jobs d') = Some j' \<and> served ref_ustr (mLists s') j')"
proof -
  let ?l = "(demo_job 7)\<lparr>jState := StateRunning, jClaimedAt := Some 0, jClaimedBy := Some ''w'', jClaimToken := Some 4, jDeadline := Some 50\<rparr>"
  let ?p = "(demo_job 8)\<lparr>jIdempotencyKey := None\<rparr>"
  let ?d = "demo_empty\<lparr>jobs := [?l, ?p]\<rparr>"
  let ?W = "\<lambda>_ :: nat. alone (\<lambda>_. demo_env minute) :: mem world"
  obtain d' s' where r: "scheduler_round mem_redis ref_ustr (\<lambda>t. t) ?W (?d, mem_empty) = (d', s')" by (rule prod.exhaust)
  have q: "quiet (?W n)" "clocks_from minute (?W n)" for n by (simp_all add: quiet_def calm_def clocks_from_def demo_env_def)
  have "job_wf ?l" "job_wf ?p" by code_simp+
  then have i: "db_inv ?d"
    by (simp add: db_inv_def unique_key_def keys_unique_def tokens_unique_def demo_empty_def demo_job_def)
  have s: "settled minute ?d" by (simp add: settled_def demo_job_def demo_empty_def minute_def second_def)
  have b: "small ?d" by (simp add: small_def rows_affected_def)
  have c: "open_closable (go_now (wEnv (?W 3) i)) ?d" for i by (simp add: open_closable_def demo_empty_def)
  have l: "lookup jID 7 (jobs ?d) = Some ?l" "lookup jID 8 (jobs ?d) = Some ?p" "\<not> IsTerminal ?l" "\<not> IsTerminal ?p" by code_simp+
  note o = no_job_stuck[OF q mem_redis_lists_ok mem_redis_no_errors scan_ok_id i s b c r]
  show ?thesis using o[OF l(1)] o[OF l(2)] l(3,4) r by (auto simp: Let_def)
qed

end
