(* ===== verification/WorkerProc.thy ===== *)
theory WorkerProc
  imports Worker Recovery Config
begin

text \<open>
  The worker as a process (internal/worker/worker.go, \<open>runWorker\<close> in cmd/sluice/main.go): what its metrics
  say, what a signal does to the job it executes, and its goroutines: the main goroutine with \<open>Shutdown\<close>,
  the loop \<open>Run\<close>, the refresh of the tenant weights and the handler of SIGHUP with \<open>Reload\<close>.
\<close>

section \<open>The metrics of a run\<close>

definition result_label :: "string \<Rightarrow> bool" where
  "result_label st \<longleftrightarrow> st = ''succeeded'' \<or> st = ''failed'' \<or> st = ''dead''"

text \<open>Lists of such reports, also those of no job.\<close>

definition is_reports :: "metric list \<Rightarrow> bool" where
  "is_reports ms \<longleftrightarrow> (\<exists>rs. ms = reports rs \<and> (\<forall>(ty, st, tn) \<in> set rs. result_label st))"

lemma is_reports_Nil: "is_reports []"
  unfolding is_reports_def by (intro exI[of _ "[]"]) simp

lemma is_reports_append:
  assumes "is_reports ms1" "is_reports ms2"
  shows "is_reports (ms1 @ ms2)"
proof -
  obtain r1 where "ms1 = reports r1" "\<forall>(ty, st, tn) \<in> set r1. result_label st"
    using assms(1) unfolding is_reports_def by blast
  moreover obtain r2 where "ms2 = reports r2" "\<forall>(ty, st, tn) \<in> set r2. result_label st"
    using assms(2) unfolding is_reports_def by blast
  ultimately show ?thesis unfolding is_reports_def by (intro exI[of _ "r1 @ r2"]) (auto simp: reports_def)
qed

lemma result_is_reports:
  "is_reports ([WorkerInFlight 1, WorkerInFlight (- 1)] @ snd (record_result W intn rid token j ee m d))"
proof -
  define l where "l = (if ee = None then ''succeeded'' else if ShouldRetry j then ''failed'' else ''dead'')"
  have "[WorkerInFlight 1, WorkerInFlight (- 1)] @ snd (record_result W intn rid token j ee m d) = reports [(jType j, l, jTenantID j)]"
    by (cases ee; cases "ShouldRetry j"; simp add: record_result_def job_report_def l_def Let_def)
  then show ?thesis
    unfolding is_reports_def by (intro exI[of _ "[(jType j, l, jTenantID j)]"]) (simp add: result_label_def l_def)
qed

lemma process_is_reports:
  "is_reports (snd (process R ustr W w token runID intn exec n i st))"
proof -
  have "is_reports (snd (run_claimed R ustr W w token rid intn exec n i j st))" for rid j st
    unfolding run_claimed_def Let_def case_prod_beta snd_conv by (rule result_is_reports)
  then show ?thesis using is_reports_Nil by (auto simp: process_def Let_def split: prod.split sum.split bool.split)
qed

lemma work_loop_reports:
  assumes "work_loop R ustr uparse w us ts st = Some (st', ms, e)"
  shows "is_reports ms"
  using assms
proof (induction us arbitrary: ts st ms st' e)
  case Nil
  then show ?case by (simp add: is_reports_Nil)
next
  case (Cons u us)
  show ?case
  proof (cases "tuShutdown u \<or> tuDone u")
    case True
    then show ?thesis using Cons.prems by (auto simp: is_reports_Nil)
  next
    case False
    obtain d s where o: "tuOthers u st = (d, s)" by (rule prod.exhaust)
    define ts' where "ts' = fold (\<lambda>(e, scan). loadTenants e scan d) (tuReloads u) ts"
    note w = Cons.prems[unfolded work_loop.simps o Let_def prod.case ts'_def[symmetric]]
    obtain s' r where q: "Dequeue R ustr uparse (tuStart u) (tuPolls u) w ts' dequeueTimeout s = Some (s', r)"
      using w False by (cases "Dequeue R ustr uparse (tuStart u) (tuPolls u) w ts' dequeueTimeout s") auto
    show ?thesis
    proof (cases "\<exists>k. r = Got k \<and> k \<noteq> uuid_nil")
      case True
      then obtain k where k: "r = Got k" "k \<noteq> uuid_nil" by blast
      obtain st1 ms1 where p: "process R ustr (tuWorld u) w (tuToken u) (tuRunID u) (tuIntn u) (tuExec u) (tuBeats u) k (d, s') = (st1, ms1)"
        by (rule prod.exhaust)
      then obtain ms2 where "work_loop R ustr uparse w us ts' st1 = Some (st', ms2, e)" "ms = ms1 @ ms2"
        using w False q k by auto
      then show ?thesis using Cons.IH is_reports_append process_is_reports p by (metis snd_conv)
    next
      case False
      then show ?thesis
        using w \<open>\<not> (tuShutdown u \<or> tuDone u)\<close> q Cons.IH
        by (cases r) (auto simp: is_reports_Nil split: if_splits)
    qed
  qed
qed


text \<open>C22. The metrics of a worker add up: whatever faults and signals its run meets, the gauge of jobs in
  flight is 0 or 1 at every moment and 0 at the end of the turns, every job counted has one observed duration
  under the same labels, and a retry is counted exactly when a failed attempt is.\<close>

theorem Run_metrics_add_up:
  assumes "Run R ustr uparse w first turns st = Some (st', ms, e)"
  shows "(\<forall>pre post. ms = pre @ post \<longrightarrow> in_flight_gauge pre \<in> {0, 1}) \<and> in_flight_gauge ms = 0 \<and>
    (\<forall>ty st tn. shown (JobDurationSeconds ty st tn) ms = shown (JobsTotal ty st tn) ms \<and>
       (shown (JobsTotal ty st tn) ms \<noteq> 0 \<longrightarrow> result_label st) \<and>
       shown (JobRetriesTotal ty tn) ms = shown (JobsTotal ty ''failed'' tn) ms)"
proof -
  obtain rs where rs: "ms = reports rs" "\<forall>(ty, st, tn) \<in> set rs. result_label st"
    using work_loop_reports assms unfolding Run_def is_reports_def by blast
  have "result_label st" if "shown (JobsTotal ty st tn) ms \<noteq> 0" for ty st tn
    using that rs(2) unfolding rs(1) shown_reports by (auto simp: count_list_0_iff)
  moreover have "in_flight_gauge pre \<in> {0, 1}" if "ms = pre @ post" for pre post
    using reports_gauge[of rs pre post] that rs(1) by simp
  ultimately show ?thesis using gauge_reports[of rs] by (simp add: rs(1) shown_reports)
qed

lemma demo_turns_ok:
  "\<forall>u \<in> set [demo_turn, demo_turn\<lparr>tuShutdown := True\<rparr>]. turn_ok u"
  "\<exists>u \<in> set [demo_turn, demo_turn\<lparr>tuShutdown := True\<rparr>]. tuShutdown u \<or> tuDone u"
  using demo_turn_ok by simp_all

theorem Run_metrics_add_up_witness:
  "let d = demo_empty\<lparr>jobs := [demo_job 7], tenants := [\<lparr>tID = 1, tName = ''a'', tAPIKey = ''k'', tRateLimit = 1,
             tWeight = 1, tStatus = ''active''\<rparr>]\<rparr> in
   \<exists>st' ms. Run mem_redis ref_ustr ref_uparse ''w'' (demo_env 0, \<lambda>t. t)
       [demo_turn, demo_turn\<lparr>tuShutdown := True\<rparr>] (d, demo_mem) = Some (st', ms, Stopped) \<and>
     in_flight_gauge ms = 0"
proof -
  let ?d = "demo_empty\<lparr>jobs := [demo_job 7], tenants := [\<lparr>tID = 1, tName = ''a'', tAPIKey = ''k'', tRateLimit = 1,
             tWeight = 1, tStatus = ''active''\<rparr>]\<rparr>"
  obtain st' ms where r: "Run mem_redis ref_ustr ref_uparse ''w'' (demo_env 0, \<lambda>t. t)
      [demo_turn, demo_turn\<lparr>tuShutdown := True\<rparr>] (?d, demo_mem) = Some (st', ms, Stopped)"
    unfolding Run_def using work_loop_stops[OF loadTenants_positive[of "[]"] demo_turns_ok] by fastforce
  show ?thesis unfolding Let_def using r Run_metrics_add_up[OF r] by blast
qed

section \<open>A job interrupted by a signal\<close>

text \<open>
  \<open>runWorker\<close> hands the context that SIGINT and SIGTERM cancel to \<open>Run\<close>, and \<open>process\<close> uses it for every call
  (\<open>ctx_env\<close>, \<open>ctx_redis\<close>). What is known of the libraries: given a context that is done, the driver
  (\<open>stmts_refused\<close>) and the Redis client (\<open>cmds_refused\<close>) return an error and send nothing to the server.
\<close>

definition stmts_refused :: "(env \<Rightarrow> env) \<Rightarrow> bool" where
  "stmts_refused f \<longleftrightarrow> (\<forall>e. (\<forall>i. stmt_err (f e) i \<noteq> None) \<and> \<not> applied (f e))"

definition refused :: "('r \<Rightarrow> 'r \<times> (redis_error + 'a)) \<Rightarrow> bool" where
  "refused f \<longleftrightarrow> (\<forall>s. fst (f s) = s \<and> isl (snd (f s)))"

definition cmds_refused :: "('r redis \<Rightarrow> 'r redis) \<Rightarrow> bool" where
  "cmds_refused f \<longleftrightarrow> (\<forall>R.
     (\<forall>k v. refused (LPush (f R) k v)) \<and> (\<forall>k q. refused (LMoveRL (f R) k q)) \<and> (\<forall>k v. refused (LRem0 (f R) k v)) \<and>
     (\<forall>k. refused (LLen (f R) k)) \<and> (\<forall>k v t. refused (SetEx (f R) k v t)) \<and> (\<forall>k. refused (Incr (f R) k)) \<and>
     (\<forall>k t. refused (Expire (f R) k t)) \<and> (\<forall>k. refused (Del (f R) k)))"

lemma record_result_refused:
  assumes "wDone W i" "stmts_refused (wCutEnv W)"
  shows "fst (record_result W intn runID token j ee i d) = d"
proof -
  obtain m where "stmt_err (ctx_env W i) 0 = Some m" "\<not> applied (ctx_env W i)"
    using assms by (auto simp: stmts_refused_def ctx_env_def)
  then show ?thesis by (cases ee) (simp_all add: record_result_def CompleteJob_def FailJob_def in_tx_def Let_def)
qed

lemma leave_processing_refused:
  assumes "wDone W i" "cmds_refused (wCutRedis W)" "wOthers W i st = st"
  shows "leave_processing R ustr W w jobID i st = st"
proof -
  have "fst (LRem0 (wCutRedis W R) k v s) = s" for k v s using assms(2) by (simp add: cmds_refused_def refused_def)
  then have "fst (RemoveFromProcessing (wCutRedis W R) ustr w jobID s) = s" for s
    by (simp add: RemoveFromProcessing_def split: prod.split sum.split) (metis fst_conv)
  then show ?thesis using assms(1,3) by (simp add: leave_processing_def ctx_redis_def case_prod_beta)
qed

text \<open>C20. A signal loses the result of the job in flight. SIGTERM makes the context done while a job executes:
  since \<open>process\<close> records the result with that context, then whatever the execution returns, success included, the result
  is not recorded, the entry stays in the processing list, and the metrics count the result all the same. The job stays
  running until its deadline passes; the reaper then counts a failed attempt, so that a job on its last
  attempt ends dead although it may have been executed with success. The shutdown timeout does not help, as
  nothing that \<open>process\<close> does during it can reach the database.\<close>

theorem shutdown_loses_result:
  assumes "stmts_refused (wCutEnv W)" "cmds_refused (wCutRedis W)"
    and "\<And>x. x < n + 3 \<Longrightarrow> calm_at W x" "\<And>x. n + 3 \<le> x \<Longrightarrow> wDone W x" "\<And>x st. wOthers W x st = st"
    and "lists_ok R L" "db_inv d" "lookup jID i (jobs d) = Some j"
    and "jState j = StatePending" "\<not> locked (wEnv W 0)" "fresh_claim token runID d"
    and "process R ustr W w token runID intn exec n i (d, s) = ((d', s'), ms)"
    and "quiet V" "lists_ok R' L'" "no_errors R'" "scan_ok scan" "\<And>x. pg_now (wEnv V 0) \<le> pg_now (wEnv V x)"
    and "\<And>x. open_closable (go_now (wEnv V x)) d'"
    and "\<And>x dl. lookup jID i (jobs d') = Some x \<Longrightarrow> jDeadline x = Some dl \<Longrightarrow> dl < pg_now (wEnv V 0)"
    and "reapStaleClaims R' ustr scan V (d', s1) = (d2, s2)"
  shows "L s' = L s \<and> ms = job_report (jType j)
      (if exec (claimed_by W w token j) = None then ''succeeded'' else if ShouldRetry j then ''failed'' else ''dead'') (jTenantID j) \<and>
    (\<exists>x. lookup jID i (jobs d') = Some x \<and> jState x = StateRunning \<and> jClaimToken x = Some token) \<and>
    (\<exists>y. lookup jID i (jobs d2) = Some y \<and> jAttempt y = jAttempt j + 1 \<and>
       jState y = (if jAttempt j + 1 < jMaxRetries j then StatePending else StateDead))"
proof -
  let ?row = "claimed_by W w token j"
  obtain d4 s4 dl where p: "process R ustr W w token runID intn exec n i (d, s) =
      (case wOthers W (n + 3) (d4, s4) of (d4, s4) \<Rightarrow>
       case record_result W intn runID token ?row (exec ?row) (n + 3) d4 of
         (d5, ms) \<Rightarrow> (leave_processing R ustr W w i (n + 4) (d5, s4), [WorkerInFlight 1, WorkerInFlight (- 1)] @ ms))"
    and d4: "L s4 = L s" "lookup jID i (jobs d4) = Some (?row\<lparr>jState := StateRunning, jDeadline := dl\<rparr>)" "db_inv d4"
    by (rule process_executed[where n = n and ustr = ustr and w = w and intn = intn and exec = exec and s = s,
          OF assms(3) assms(6-11)]) (assumption, rule that, assumption+)
  have r: "fst (record_result W intn runID token ?row (exec ?row) (n + 3) d4) = d4"
    by (rule record_result_refused[OF assms(4) assms(1)]) simp
  have e: "d' = d4" "s' = s4"
    "ms = [WorkerInFlight 1, WorkerInFlight (- 1)] @ snd (record_result W intn runID token ?row (exec ?row) (n + 3) d4)"
    using p r assms(12) leave_processing_refused[OF assms(4) assms(2,5), of "n + 4"]
    by (auto simp: assms(5) split: prod.splits)
  let ?x = "?row\<lparr>jState := StateRunning, jDeadline := dl\<rparr>"
  have "job_wf ?x" using d4(2,3) jt.lookup_SomeD[OF d4(2)] by (auto simp: db_inv_def)
  then obtain t where t: "dl = Some t" by (auto simp: job_wf_def in_flight_def)
  then have "expired (pg_now (wEnv V 0)) ?x" using assms(19)[of ?x t] d4(2) e(1) by (simp add: expired_def in_flight_def)
  moreover have "lookup jID i (jobs d2) =
      map_option (\<lambda>j. if expired (pg_now (wEnv V 0)) j then reap_row j else j) (lookup jID i (jobs d'))"
    using reap_effect[OF assms(13-16) _ assms(17,18,20)] d4(3) e(1) by (simp add: db_inv_def)
  ultimately have y: "lookup jID i (jobs d2) = Some (reap_row ?x)" using d4(2) e(1) by simp
  have "ms = job_report (jType j)
      (if exec ?row = None then ''succeeded'' else if ShouldRetry j then ''failed'' else ''dead'') (jTenantID j)"
    unfolding e(3) by (cases "exec ?row"; cases "ShouldRetry j")
      (simp_all add: record_result_def job_report_def claimed_by_fields Let_def ShouldRetry_def)
  moreover have "lookup jID i (jobs d') = Some ?x" using d4(2) e(1) by simp
  ultimately show ?thesis using y d4(1) e(2) by (simp add: reap_row_def reap_state_def claimed_by_fields)
qed

text \<open>A worker that is signalled during the execution, and the reaper some time later.\<close>

definition cut_off :: "'r redis \<Rightarrow> 'r redis" where
  "cut_off R = (let no = RedisErr ''context canceled'' in
     \<lparr>LPush = (\<lambda>k v s. (s, Inl no)), LMoveRL = (\<lambda>k q s. (s, Inl no)), LRem0 = (\<lambda>k v s. (s, Inl no)),
      LLen = (\<lambda>k s. (s, Inl no)), SetEx = (\<lambda>k v t s. (s, Inl no)), Incr = (\<lambda>k s. (s, Inl no)),
      Expire = (\<lambda>k t s. (s, Inl no)), Del = (\<lambda>k s. (s, Inl no))\<rparr>)"

definition demo_signal :: "mem world" where
  "demo_signal = (alone (\<lambda>_. demo_env 0))\<lparr>wDone := \<lambda>i. 3 \<le> i,
     wCutEnv := \<lambda>e. e\<lparr>stmt_err := \<lambda>_. Some ''context canceled'', applied := False\<rparr>, wCutRedis := cut_off\<rparr>"

definition demo_later :: "mem world" where
  "demo_later = alone (\<lambda>_. demo_env (100 * second))"

definition demo_last :: db where
  "demo_last = demo_empty\<lparr>jobs := [(demo_job 7)\<lparr>jMaxRetries := 1\<rparr>]\<rparr>"

lemma demo_signal_props:
  "stmts_refused (wCutEnv demo_signal)" "cmds_refused (wCutRedis demo_signal)"
  "x < 0 + 3 \<Longrightarrow> calm_at demo_signal x" "0 + 3 \<le> x \<Longrightarrow> wDone demo_signal x" "wOthers demo_signal x st = st"
  "\<not> locked (wEnv demo_signal 0)"
  by (simp_all add: demo_signal_def calm_at_def calm_def demo_env_def stmts_refused_def cmds_refused_def refused_def cut_off_def Let_def)

lemma demo_later_props:
  "quiet demo_later" "wEnv demo_later x = demo_env (100 * second)"
  by (simp_all add: demo_later_def quiet_def calm_def demo_env_def)

lemma demo_last_inv: "db_inv demo_last"
proof -
  have "job_wf ((demo_job 7)\<lparr>jMaxRetries := 1\<rparr>)" by code_simp
  then show ?thesis by (simp add: demo_last_def db_inv_def unique_key_def keys_unique_def tokens_unique_def demo_empty_def)
qed

theorem shutdown_loses_result_witness:
  "let ((d', s'), ms) = process mem_redis ref_ustr demo_signal ''w'' 4 3 (\<lambda>_. 0) (\<lambda>_. None) 0 7 (demo_last, mem_empty);
       (d2, s2) = reapStaleClaims mem_redis ref_ustr (\<lambda>t. t) demo_later (d', mem_empty) in
   ms = job_report ''webhook'' ''succeeded'' 1 \<and> map_option jState (lookup jID 7 (jobs d2)) = Some StateDead"
proof -
  let ?j = "(demo_job 7)\<lparr>jMaxRetries := 1\<rparr>"
  obtain d' s' ms where p: "process mem_redis ref_ustr demo_signal ''w'' 4 3 (\<lambda>_. 0) (\<lambda>_. None) 0 7
      (demo_last, mem_empty) = ((d', s'), ms)" by (metis prod.exhaust)
  obtain d2 s2 where q: "reapStaleClaims mem_redis ref_ustr (\<lambda>t. t) demo_later (d', mem_empty) = (d2, s2)" by (rule prod.exhaust)
  have j: "lookup jID 7 (jobs demo_last) = Some ?j" "jState ?j = StatePending" "fresh_claim 4 3 demo_last" by code_simp+
  have "case process mem_redis ref_ustr demo_signal ''w'' 4 3 (\<lambda>_. 0) (\<lambda>_. None) 0 7 (demo_last, mem_empty) of
      ((d', s'), ms) \<Rightarrow> open_closable (100 * second) d' \<and>
        map_option jDeadline (lookup jID 7 (jobs d')) = Some (Some (60 * second))" by code_simp
  then have d: "open_closable (100 * second) d'" "map_option jDeadline (lookup jID 7 (jobs d')) = Some (Some (60 * second))"
    using p by simp_all
  have e: "open_closable (go_now (wEnv demo_later x)) d'" "pg_now (wEnv demo_later 0) \<le> pg_now (wEnv demo_later x)" for x
    using d(1) by (simp_all add: demo_later_props demo_env_def)
  have f: "lookup jID 7 (jobs d') = Some x \<Longrightarrow> jDeadline x = Some dl \<Longrightarrow> dl < pg_now (wEnv demo_later 0)" for x dl
    using d(2) by (simp add: demo_later_props demo_env_def second_def)
  have m: "jType ?j = ''webhook''" "jTenantID ?j = 1" "\<not> jAttempt ?j + 1 < jMaxRetries ?j" by code_simp+
  note s = shutdown_loses_result[OF demo_signal_props(1-5) mem_redis_lists_ok demo_last_inv j(1,2)
      demo_signal_props(6) j(3) p demo_later_props(1) mem_redis_lists_ok mem_redis_no_errors
      scan_ok_id e(2,1) f q]
  have "ms = job_report ''webhook'' ''succeeded'' 1" using s m(1,2) by simp
  moreover have "map_option jState (lookup jID 7 (jobs d2)) = Some StateDead" using s m(3) by force
  ultimately show ?thesis by (simp add: p q)
qed

section \<open>The goroutines of the process\<close>

text \<open>
  Where each goroutine is. The main goroutine waits for the context, then for the end of \<open>Run\<close> or the
  timeout in \<open>Shutdown\<close> (since the given time), then returns, which ends the process. \<open>Run\<close> loads the tenants, then
  alternates between its select, \<open>Dequeue\<close> and \<open>process\<close>.
\<close>

datatype main_pc = MainWaits | MainStops time | MainReturned time

datatype run_pc = RunStarts | RunSelect | RunDequeue | RunProcess uuid | RunReturned

datatype refresh_pc = NotStarted | RefreshSelect | RefreshLoads | RefreshReturned

text \<open>
  The channels: \<open>shutdown\<close> and \<open>done\<close> are closed or not, \<open>reload\<close> and the channel of SIGHUP have one slot. \<open>wpLoads\<close>
  counts the calls of \<open>loadTenants\<close> begun, \<open>wpJobs\<close> those of \<open>process\<close>.
\<close>

record wproc =
  wpCtxDone :: bool
  wpShutdown :: bool
  wpDone :: bool
  wpReload :: bool
  wpHup :: bool
  wpMain :: main_pc
  wpRun :: run_pc
  wpRefresh :: refresh_pc
  wpLoads :: nat
  wpJobs :: nat
  wpNow :: time

definition New_worker :: "time \<Rightarrow> wproc" where
  "New_worker now = \<lparr>wpCtxDone = False, wpShutdown = False, wpDone = False, wpReload = False, wpHup = False,
     wpMain = MainWaits, wpRun = RunStarts, wpRefresh = NotStarted, wpLoads = 0, wpJobs = 0, wpNow = now\<rparr>"

text \<open>\<open>Reload\<close>: a send that does nothing when the slot is full. \<open>Shutdown\<close> up to its select. The deferred close of \<open>Run\<close>.\<close>

definition Reload :: "wproc \<Rightarrow> wproc" where
  "Reload p = (if wpReload p then p else p\<lparr>wpReload := True\<rparr>)"

definition Shutdown :: "wproc \<Rightarrow> wproc" where
  "Shutdown p = p\<lparr>wpShutdown := True, wpMain := MainStops (wpNow p)\<rparr>"

definition Run_returns :: "wproc \<Rightarrow> wproc" where
  "Run_returns p = p\<lparr>wpRun := RunReturned, wpDone := True\<rparr>"

text \<open>
  The steps of the goroutines, of the clock and of the signals. A select takes any case that is ready, and the
  default case only if none is. What \<open>Dequeue\<close> returns and how long \<open>process\<close> takes is open.
\<close>

inductive goroutine_step :: "duration \<Rightarrow> wproc \<Rightarrow> wproc \<Rightarrow> bool" for timeout where
  clock: "wpNow p \<le> t \<Longrightarrow> goroutine_step timeout p (p\<lparr>wpNow := t\<rparr>)"
| sigterm: "goroutine_step timeout p (p\<lparr>wpCtxDone := True\<rparr>)"
| sighup: "goroutine_step timeout p (p\<lparr>wpHup := True\<rparr>)"
| hup_loop: "wpHup p \<Longrightarrow> goroutine_step timeout p (Reload (p\<lparr>wpHup := False\<rparr>))"
| run_start: "wpRun p = RunStarts \<Longrightarrow>
    goroutine_step timeout p (p\<lparr>wpRun := RunSelect, wpRefresh := RefreshSelect, wpLoads := wpLoads p + 1\<rparr>)"
| refresh_stop: "wpRefresh p = RefreshSelect \<Longrightarrow> wpCtxDone p \<Longrightarrow> goroutine_step timeout p (p\<lparr>wpRefresh := RefreshReturned\<rparr>)"
| refresh_tick: "wpRefresh p = RefreshSelect \<Longrightarrow>
    goroutine_step timeout p (p\<lparr>wpRefresh := RefreshLoads, wpLoads := wpLoads p + 1\<rparr>)"
| refresh_reload: "wpRefresh p = RefreshSelect \<Longrightarrow> wpReload p \<Longrightarrow>
    goroutine_step timeout p (p\<lparr>wpReload := False, wpRefresh := RefreshLoads, wpLoads := wpLoads p + 1\<rparr>)"
| refresh_loaded: "wpRefresh p = RefreshLoads \<Longrightarrow> goroutine_step timeout p (p\<lparr>wpRefresh := RefreshSelect\<rparr>)"
| run_stop: "wpRun p = RunSelect \<Longrightarrow> wpShutdown p \<or> wpCtxDone p \<Longrightarrow> goroutine_step timeout p (Run_returns p)"
| run_default: "wpRun p = RunSelect \<Longrightarrow> \<not> wpShutdown p \<Longrightarrow> \<not> wpCtxDone p \<Longrightarrow>
    goroutine_step timeout p (p\<lparr>wpRun := RunDequeue\<rparr>)"
| dequeue_failed: "wpRun p = RunDequeue \<Longrightarrow> wpCtxDone p \<Longrightarrow> goroutine_step timeout p (Run_returns p)"
| dequeue_continue: "wpRun p = RunDequeue \<Longrightarrow> goroutine_step timeout p (p\<lparr>wpRun := RunSelect\<rparr>)"
| dequeue_got: "wpRun p = RunDequeue \<Longrightarrow> jobID \<noteq> uuid_nil \<Longrightarrow>
    goroutine_step timeout p (p\<lparr>wpRun := RunProcess jobID, wpJobs := wpJobs p + 1\<rparr>)"
| processed: "wpRun p = RunProcess jobID \<Longrightarrow> goroutine_step timeout p (p\<lparr>wpRun := RunSelect\<rparr>)"
| main_signalled: "wpMain p = MainWaits \<Longrightarrow> wpCtxDone p \<Longrightarrow> goroutine_step timeout p (Shutdown p)"
| main_done: "wpMain p = MainStops t \<Longrightarrow> wpDone p \<Longrightarrow> goroutine_step timeout p (p\<lparr>wpMain := MainReturned t\<rparr>)"
| main_timeout: "wpMain p = MainStops t \<Longrightarrow> t + timeout \<le> wpNow p \<Longrightarrow>
    goroutine_step timeout p (p\<lparr>wpMain := MainReturned t\<rparr>)"

text \<open>The return of the main goroutine ends the others.\<close>

definition alive :: "wproc \<Rightarrow> bool" where
  "alive p \<longleftrightarrow> (\<forall>t. wpMain p \<noteq> MainReturned t)"

definition worker_step :: "duration \<Rightarrow> wproc \<Rightarrow> wproc \<Rightarrow> bool" where
  "worker_step timeout p p' \<longleftrightarrow> alive p \<and> goroutine_step timeout p p'"

text \<open>What is left to do for \<open>Run\<close> and the main goroutine once the context is cancelled.\<close>

fun run_rank :: "run_pc \<Rightarrow> nat" where
  "run_rank RunDequeue = 3" | "run_rank (RunProcess jobID) = 2" | "run_rank RunStarts = 2" | "run_rank RunSelect = 1" | "run_rank RunReturned = 0"

fun main_rank :: "main_pc \<Rightarrow> nat" where
  "main_rank MainWaits = 2" | "main_rank (MainStops t) = 1" | "main_rank (MainReturned t) = 0"

definition exit_rank :: "wproc \<Rightarrow> nat" where
  "exit_rank p = run_rank (wpRun p) + main_rank (wpMain p)"

definition wproc_inv :: "duration \<Rightarrow> wproc \<Rightarrow> bool" where
  "wproc_inv timeout p \<longleftrightarrow> (wpDone p \<longleftrightarrow> wpRun p = RunReturned) \<and> (wpShutdown p \<longleftrightarrow> wpMain p \<noteq> MainWaits) \<and>
     (wpShutdown p \<longrightarrow> wpCtxDone p) \<and>
     (\<forall>t. wpMain p = MainReturned t \<longrightarrow> wpRun p = RunReturned \<or> t + timeout \<le> wpNow p)"

lemma wproc_inv_step:
  assumes "worker_step timeout p p'" "wproc_inv timeout p"
  shows "wproc_inv timeout p'"
proof -
  have s: "goroutine_step timeout p p'" and a: "\<forall>t. wpMain p \<noteq> MainReturned t" using assms(1) by (simp_all add: worker_step_def alive_def)
  show ?thesis using s assms(2) a unfolding wproc_inv_def
    by cases (simp_all add: Reload_def Shutdown_def Run_returns_def)
qed

lemma wproc_inv_reach:
  assumes "(worker_step timeout)\<^sup>*\<^sup>* (New_worker now) p"
  shows "wproc_inv timeout p"
  using assms
proof (induction rule: rtranclp_induct)
  case base
  show ?case by (simp add: wproc_inv_def New_worker_def)
qed (rule wproc_inv_step)

text \<open>After the signal no step moves away from the exit, and a dequeue under way yields the last job.\<close>

lemma signalled_step:
  assumes "worker_step timeout p p'" "wpCtxDone p"
  shows "wpCtxDone p' \<and> exit_rank p' \<le> exit_rank p \<and> run_rank (wpRun p') \<le> run_rank (wpRun p) \<and>
    wpJobs p' + (if wpRun p' = RunDequeue then 1 else 0) \<le> wpJobs p + (if wpRun p = RunDequeue then 1 else 0)"
proof -
  have "goroutine_step timeout p p'" using assms(1) by (simp add: worker_step_def)
  then show ?thesis using assms(2) by cases (simp_all add: exit_rank_def Reload_def Shutdown_def Run_returns_def)
qed

lemma signalled_steps:
  assumes "(worker_step timeout)\<^sup>*\<^sup>* p p'" "wpCtxDone p"
  shows "wpCtxDone p' \<and> exit_rank p' \<le> exit_rank p \<and> run_rank (wpRun p') \<le> run_rank (wpRun p) \<and>
    wpJobs p' + (if wpRun p' = RunDequeue then 1 else 0) \<le> wpJobs p + (if wpRun p = RunDequeue then 1 else 0)"
  using assms(1)
proof (induction rule: rtranclp_induct)
  case (step q q')
  then show ?case using signalled_step[of timeout q q'] by linarith
qed (simp add: assms(2))

lemma exit_progress:
  assumes "wproc_inv timeout p" "wpCtxDone p" "alive p"
  shows "\<exists>p'. worker_step timeout p p' \<and> exit_rank p' < exit_rank p"
proof (cases "wpRun p")
  case RunReturned
  then have d: "wpDone p" using assms(1) by (simp add: wproc_inv_def)
  show ?thesis
  proof (cases "wpMain p")
    case MainWaits
    then show ?thesis using assms(2,3) main_signalled[of p timeout]
      by (intro exI[of _ "Shutdown p"]) (simp add: worker_step_def exit_rank_def Shutdown_def)
  next
    case (MainStops t)
    then show ?thesis using assms(3) d main_done[of p t timeout]
      by (intro exI[of _ "p\<lparr>wpMain := MainReturned t\<rparr>"]) (simp add: worker_step_def exit_rank_def)
  qed (use assms(3) in \<open>simp add: alive_def\<close>)
next
  case RunSelect
  then show ?thesis using assms(2,3) run_stop[of p timeout]
    by (intro exI[of _ "Run_returns p"]) (simp add: worker_step_def exit_rank_def Run_returns_def)
next
  case RunDequeue
  then show ?thesis using assms(2,3) dequeue_failed[of p timeout]
    by (intro exI[of _ "Run_returns p"]) (simp add: worker_step_def exit_rank_def Run_returns_def)
next
  case (RunProcess k)
  then show ?thesis using assms(3) processed[of p k timeout]
    by (intro exI[of _ "p\<lparr>wpRun := RunSelect\<rparr>"]) (simp add: worker_step_def exit_rank_def)
next
  case RunStarts
  then show ?thesis using assms(3) run_start[of p timeout]
    by (intro exI[of _ "p\<lparr>wpRun := RunSelect, wpRefresh := RefreshSelect, wpLoads := wpLoads p + 1\<rparr>"])
      (simp add: worker_step_def exit_rank_def)
qed


text \<open>SIGHUP is not lost: once it has been delivered, the tenant weights are loaded again by a call that begins
  later, as long as the signal is not still waiting in one of the two channels. Several signals may share one
  load.\<close>

lemma sighup_reloads:
  assumes "(worker_step timeout)\<^sup>*\<^sup>* p p'" "wpHup p"
  shows "wpLoads p \<le> wpLoads p' \<and> (wpHup p' \<or> wpReload p' \<or> wpLoads p < wpLoads p')"
  using assms(1)
proof (induction rule: rtranclp_induct)
  case (step q q')
  have "goroutine_step timeout q q'" using step.hyps(2) by (simp add: worker_step_def)
  then show ?case using step.IH by cases (auto simp: Reload_def Shutdown_def Run_returns_def)
qed (simp add: assms(2))

text \<open>C21. The worker process stops in an orderly way: from the moment the signal has cancelled the context, at
  most one more job is begun, and only if a dequeue was under way; no step of any goroutine moves \<open>Run\<close> or the
  main goroutine away from its end, and as long as the process lives one of them can move closer to it;
  when the process exits, \<open>Run\<close> has returned, or the whole shutdown timeout has passed.\<close>

theorem worker_shutdown:
  assumes "(worker_step timeout)\<^sup>*\<^sup>* (New_worker now) p" "wpCtxDone p" "(worker_step timeout)\<^sup>*\<^sup>* p p'"
  shows "wpJobs p' \<le> wpJobs p + (if wpRun p = RunDequeue then 1 else 0) \<and> exit_rank p' \<le> exit_rank p \<and>
    (alive p' \<longrightarrow> (\<exists>q. worker_step timeout p' q \<and> exit_rank q < exit_rank p')) \<and>
    (\<forall>t. wpMain p' = MainReturned t \<longrightarrow> wpRun p' = RunReturned \<or> t + timeout \<le> wpNow p')"
proof -
  have i: "wproc_inv timeout p'" using wproc_inv_reach rtranclp_trans[OF assms(1,3)] by blast
  have s: "wpCtxDone p'" "exit_rank p' \<le> exit_rank p"
    "wpJobs p' + (if wpRun p' = RunDequeue then 1 else 0) \<le> wpJobs p + (if wpRun p = RunDequeue then 1 else 0)"
    using signalled_steps[OF assms(3,2)] by simp_all
  have "wpJobs p' \<le> wpJobs p + (if wpRun p = RunDequeue then 1 else 0)" using s(3) by (simp split: if_splits)
  moreover have "\<forall>t. wpMain p' = MainReturned t \<longrightarrow> wpRun p' = RunReturned \<or> t + timeout \<le> wpNow p'"
    using i by (simp add: wproc_inv_def)
  ultimately show ?thesis using s(2) exit_progress[OF i s(1)] by blast
qed

text \<open>A worker that takes a job and is signalled while it executes it.\<close>

definition demo_busy :: wproc where
  "demo_busy = \<lparr>wpCtxDone = True, wpShutdown = False, wpDone = False, wpReload = False, wpHup = False,
     wpMain = MainWaits, wpRun = RunProcess 7, wpRefresh = RefreshSelect, wpLoads = 1, wpJobs = 1, wpNow = 0\<rparr>"

lemma demo_busy_reachable: "(worker_step second)\<^sup>*\<^sup>* (New_worker 0) demo_busy"
proof -
  let ?a = "(New_worker 0)\<lparr>wpRun := RunSelect, wpRefresh := RefreshSelect, wpLoads := wpLoads (New_worker 0) + 1\<rparr>"
  let ?b = "?a\<lparr>wpRun := RunDequeue\<rparr>" let ?c = "?b\<lparr>wpRun := RunProcess 7, wpJobs := wpJobs ?b + 1\<rparr>"
  have "goroutine_step second (New_worker 0) ?a" by (rule run_start) (simp add: New_worker_def)
  moreover have "goroutine_step second ?a ?b" by (rule run_default) (simp_all add: New_worker_def)
  moreover have "goroutine_step second ?b ?c" by (rule dequeue_got) (simp_all add: New_worker_def uuid_nil_def)
  moreover have "goroutine_step second ?c (?c\<lparr>wpCtxDone := True\<rparr>)" by (rule sigterm)
  moreover have "alive (New_worker 0)" "alive ?a" "alive ?b" "alive ?c" by (simp_all add: alive_def New_worker_def)
  moreover have "?c\<lparr>wpCtxDone := True\<rparr> = demo_busy" by (simp add: New_worker_def demo_busy_def)
  ultimately show ?thesis
    unfolding worker_step_def by (metis (no_types, lifting) converse_rtranclp_into_rtranclp rtranclp.rtrancl_refl)
qed

theorem worker_shutdown_witness:
  "let p = Shutdown demo_busy in (worker_step second)\<^sup>*\<^sup>* (New_worker 0) p \<and> wpCtxDone p \<and>
     wpJobs p \<le> 1 \<and> (\<exists>q. worker_step second p q \<and> exit_rank q < exit_rank p)"
proof -
  let ?p = "Shutdown demo_busy"
  have a: "alive demo_busy" "alive ?p" "wpCtxDone demo_busy" "wpJobs demo_busy = 1" "wpRun demo_busy \<noteq> RunDequeue"
    by (simp_all add: alive_def demo_busy_def Shutdown_def)
  have "goroutine_step second demo_busy ?p" by (rule main_signalled) (simp_all add: demo_busy_def)
  then have s: "(worker_step second)\<^sup>*\<^sup>* demo_busy ?p" using a(1) by (intro r_into_rtranclp) (simp add: worker_step_def)
  show ?thesis
    unfolding Let_def
    using worker_shutdown[OF demo_busy_reachable a(3) s] a rtranclp_trans[OF demo_busy_reachable s]
    by (simp add: Shutdown_def demo_busy_def)
qed

end
