(* ===== verification/Rows.thy ===== *)
theory Rows
  imports Store_Admin
begin

text \<open>
  internal/storage/storage.go: how the rows of an answer become values (\<open>scanJob\<close>, \<open>collectJobs\<close>, \<open>scanSchedule\<close> and the
  loops over rows). \<open>row.Scan\<close> belongs to the driver: a row is given by what it yields. The storage theories
  take the rows of a table as they are; the lemmas here say that this is what the code reads.
\<close>

section \<open>Scanning\<close>

text \<open>The result of \<open>row.Scan\<close>: no row, an error, or the values of the columns.\<close>

datatype 'c scanned = NoRows | ScanError string | Scanned 'c

text \<open>
  The columns of a job: all fields but the state, which is a text. The column has an enumeration type whose
  values are those of \<open>job.State\<close>; another text is not a state and would be an error of the driver.
\<close>

type_synonym job_row = "(job \<times> string) scanned"

fun scanJob :: "job_row \<Rightarrow> job res" where
  "scanJob NoRows = Inl (Driver ''no rows in result set'')"
| "scanJob (ScanError m) = Inl (Driver m)"
| "scanJob (Scanned (j, state)) =
     (case parse_state state of
        None \<Rightarrow> Inl (Driver ''invalid enum value'')
      | Some st \<Rightarrow> Inr (j\<lparr>jState := st\<rparr>))"

fun scanSchedule :: "Schedule scanned \<Rightarrow> Schedule res" where
  "scanSchedule NoRows = Inl ErrNotFound"
| "scanSchedule (ScanError m) = Inl (Wrapped ''scan schedule'' (Driver m))"
| "scanSchedule (Scanned s) = Inr s"

text \<open>\<open>for rows.Next()\<close> with the error of \<open>rows.Err()\<close> after the last row, if there is one.\<close>

fun scan_rows :: "('c \<Rightarrow> 'a res) \<Rightarrow> 'c list \<Rightarrow> string option \<Rightarrow> 'a list res" where
  "scan_rows f [] err = (case err of None \<Rightarrow> Inr [] | Some m \<Rightarrow> Inl (Driver m))"
| "scan_rows f (r # rs) err =
     (case f r of
        Inl x \<Rightarrow> Inl x
      | Inr a \<Rightarrow> (case scan_rows f rs err of Inl x \<Rightarrow> Inl x | Inr as \<Rightarrow> Inr (a # as)))"

definition collectJobs :: "job_row list \<Rightarrow> string option \<Rightarrow> job list res" where
  "collectJobs rows err =
     scan_rows (\<lambda>r. case scanJob r of Inl x \<Rightarrow> Inl (Wrapped ''scan job row'' x) | Inr j \<Rightarrow> Inr j) rows err"

section \<open>What is stored is read\<close>

text \<open>A list is read as a whole or not at all: no caller acts on the part of a list that came before a fault.\<close>

lemma scan_rows_whole: "scan_rows f rs err = Inr as \<longleftrightarrow> err = None \<and> map f rs = map Inr as"
proof (induction rs arbitrary: as)
  case Nil
  then show ?case by (auto split: option.split)
next
  case (Cons r rs)
  show ?case
  proof (cases "scan_rows f rs err")
    case (Inl x)
    then have "\<not> (err = None \<and> map f rs = map Inr bs)" for bs using Cons.IH[of bs] by simp
    with Inl show ?thesis by (cases as) (auto split: sum.split)
  next
    case (Inr bs)
    then have "err = None \<and> map f rs = map Inr bs" using Cons.IH[of bs] by simp
    with Inr show ?thesis by (cases as) (auto simp: inj_map_eq_map split: sum.split)
  qed
qed

text \<open>The columns of a stored job.\<close>

definition job_columns :: "job \<Rightarrow> job_row" where
  "job_columns j = Scanned (j, state_string (jState j))"

lemma scanJob_columns: "scanJob (job_columns j) = Inr j"
  by (cases "jState j") (simp_all add: job_columns_def parse_state_def all_states_def)

lemma collectJobs_columns: "collectJobs (map job_columns js) None = Inr js"
  unfolding collectJobs_def scan_rows_whole by (simp add: scanJob_columns)

lemma collectJobs_fault:
  assumes "collectJobs (map job_columns js @ ScanError m # rows) err = r"
  shows "r = Inl (Wrapped ''scan job row'' (Driver m))"
  using assms by (induction js arbitrary: r) (auto simp: collectJobs_def scanJob_columns)

lemma schedules_columns: "scan_rows scanSchedule (map Scanned ss) None = Inr ss"
  unfolding scan_rows_whole by simp

text \<open>The lists of the scheduler are what \<open>collectJobs\<close> makes of the selected rows.\<close>

lemma GetDueJobs_collects:
  assumes "calm e"
  shows "GetDueJobs e scan limit d = collectJobs (map job_columns (order_limit (\<lambda>j. (jPriority j, jRunAt j)) limit
    (sql_select scan (\<lambda>j. jState j = StateScheduled \<and> jRunAt j \<le> pg_now e) (jobs d)))) None"
  using assms by (simp add: GetDueJobs_def query_def calm_def collectJobs_columns)

lemma GetStaleClaims_collects:
  assumes "calm e"
  shows "GetStaleClaims e scan d = collectJobs (map job_columns (sql_select scan (expired (pg_now e)) (jobs d))) None"
  using assms by (simp add: GetStaleClaims_def query_def calm_def collectJobs_columns)

end
