(* ===== verification/Spec2Isabelle.thy ===== *)
theory Spec2Isabelle
  imports Admin Worker Submission Leader Refinement Columns Config Dashboard Progress WorkerProc Rows
begin

text \<open>
  A verification development of Sluice, a distributed job scheduler written in Go. Producers submit jobs over
  HTTP; jobs live in Postgres and wait in Redis lists; workers take them, claim them in Postgres, execute
  webhooks and record the outcome; one elected scheduler promotes due jobs, reaps the claims of dead
  workers, fires cron schedules and repairs lost queue entries.

  \<^bold>\<open>The parts and their theories\<close> (sources relative to the repository)

  \<^item> \<open>Prelude\<close>, \<open>GoInt\<close>, \<open>GoText\<close>, \<open>Json\<close>, \<open>Calendar\<close>, \<open>Rfc3339\<close>: the language and its standard library as the
    program uses them. SQL tables are lists of rows (\<open>sql_update\<close>, \<open>sql_select\<close>, \<open>order_limit\<close>, keys by
    \<open>lookup\<close> and the interface \<open>keyed_table\<close>), integers wrap at 64 bits, JSON is decoded by value, dates are
    computed in the proleptic Gregorian calendar.
  \<^item> \<open>Job\<close> (internal/job/job.go): the job record, its states, \<open>NextRetryAt\<close> with its rounding and overflow guards.
  \<^item> \<open>Store\<close>, \<open>Store_Admin\<close>, \<open>Rows\<close> (internal/storage/storage.go): every exported operation, and the scanning of rows. An operation is a function
    of the database and of an environment that says which statement fails, whether a lost reply was
    applied, what the clocks show and whether a row is locked; \<open>autocommit\<close> and \<open>in_tx\<close> are the two ways a
    statement runs.
  \<^item> \<open>Queue\<close>, \<open>Dequeue\<close> (internal/queue/queue.go): \<open>Enqueue\<close>, the weighted shuffle, the polling loop. Redis and the
    uuid package are parameters; \<open>lists_ok\<close>, \<open>no_errors\<close> and \<open>uuid_ok\<close> are what their documentation promises.
  \<^item> \<open>World\<close>: the surroundings of one activity: the environment of each of its calls, what other processes
    do in between, and whether its context is done (\<open>ctx_env\<close>, \<open>ctx_redis\<close>).
  \<^item> \<open>Trace\<close>, \<open>Lifecycle\<close>, \<open>Claims\<close>, \<open>Columns\<close>, \<open>Outcomes\<close>, \<open>Refinement\<close>: the storage operations as steps
    (\<open>apply_op\<close>), the transitions of a job (\<open>job_step\<close>), the invariant of the tables (\<open>db_inv\<close>), the claim
    token as a lock (interface \<open>claim_lock\<close>), column types, the result of each operation on each branch, and
    the refinement of an abstract lifecycle (interface \<open>simulation\<close>).
  \<^item> \<open>Scheduler\<close>, \<open>Recovery\<close>, \<open>Progress\<close>, \<open>Cron\<close>, \<open>Partition\<close>, \<open>Leader\<close> (internal/scheduler/scheduler.go,
    internal/leader/leader.go): the ticks of the six loops, the loops themselves, and the cluster of
    schedulers that compete for leadership (\<open>cluster_step\<close>). The cron package and etcd are parameters.
  \<^item> \<open>Webhook\<close>, \<open>Metrics\<close>, \<open>Worker\<close>, \<open>WorkerProc\<close> (internal/worker/worker.go, internal/metrics/metrics.go, \<open>runWorker\<close> of
    cmd/sluice/main.go): the request a payload describes, the observations of the metrics, \<open>process\<close>, the
    heartbeat, \<open>Run\<close>, and the goroutines of the process with its signals (\<open>goroutine_step\<close>). The HTTP client is a
    parameter.
  \<^item> \<open>Context\<close> (internal/tenant, internal/telemetry): the values of a context (interface \<open>context_slot\<close>), the attributes of a
    log line, the start of tracing with OpenTelemetry as a parameter.
  \<^item> \<open>RateLimit\<close> (internal/ratelimit/ratelimit.go), \<open>Api\<close>, \<open>Requests\<close>, \<open>Submission\<close>, \<open>Dashboard\<close> (internal/api):
    the limiter, middlewares, handlers and routing (\<open>serve\<close>), and what whole requests do.
  \<^item> \<open>Cli\<close>, \<open>Admin\<close> (cmd/sluice-cli/main.go): the commands of the admin tool and what they print.
  \<^item> \<open>Config\<close> (cmd/sluice/main.go): the configuration, the choice of the role, the end of the API process and the exit
    status.

  \<^bold>\<open>What the theorems show\<close>

  \<^item> Claims are exclusive over whole histories with arbitrary faults, late workers are fenced, starts are
    bounded, succeeded jobs are final, no operation loses a job or changes its work, and every reachable database is consistent and fits its columns.
  \<^item> The storage layer refines the abstract lifecycle, as far as the jobs table shows it: with faults up to
    omitted events, on a healthy server exactly.
  \<^item> Each tick, the processing of a job and any interleaving of several leaders keep the database consistent;
    a worker records only what it did, whatever fails; on a healthy system the polls, the reaper, the reconciler and the cron loop do what they are for, one
    round of them leaves no job stuck, and a submitted job runs to success.
  \<^item> Requests: unknown keys are rejected, tenants are isolated, submissions are idempotent and answer
    truthfully, run times survive printing and reading, statistics are exact.
  \<^item> A worker process that is signalled begins at most one more job and can always move on to its end; its
    metrics add up; a reload signal is not lost.
  \<^item> The rate limiter is exact for every tenant and second although its counters expire on the server.
  \<^item> The limits of the design, as theorems: priorities do not cross tenants, blocked cron schedules and dead
    letters starve, a live run can be closed by the reaper, \<open>queue-depth\<close> always shows zero, leaders can
    overlap, a port that is not a number becomes 0, and a signal loses the result of the job in flight, although
    the documentation promises that workers drain.

  \<^bold>\<open>Bounds and fuel\<close>. Loops over rows and keys are structural. The shuffle and the loops over a SCAN cursor are
  \<open>partial_function (option)\<close>; that they return is proved (\<open>weightedShuffle_total\<close>, \<open>drain_loop_effect\<close>,
  \<open>scan_depths_effect\<close>). \<open>Dequeue\<close>, the worker's \<open>Run\<close> and the scheduler loops are driven by the list of what
  their selects see, which is as long as the run one looks at; \<open>Dequeue_returns\<close>, \<open>ticker_returns\<close> and
  a property of \<open>Run\<close> say when they return.

  \<^bold>\<open>Abstractions\<close>. A timestamp is a number of nanoseconds; the truncation to microseconds by Postgres is left
  out, so that what is said of a stored time holds up to the microsecond, and a JSON document is stored as it
  is given, without the normal form of JSONB. Case folding and padding treat text as ASCII. Responses keep the encoded value instead of its bytes.
  Partition bounds are in UTC. Statements of one call run one after the other with other processes only in
  between, as single statements and transactions on one row do; in particular no other process works on the
  lists between the commands of one \<open>Dequeue\<close>. A round of the scheduler is one serial order of its loops.

  \<^bold>\<open>Not modelled\<close>: the text of log lines, the names, help texts and buckets of the collectors, the HTTP servers, the
  router and the WebSocket connection, the delivery of signals by the system, spans and the export of traces,
  parsing of the command line by the package flag, \<open>row.Scan\<close> of the driver (a row that cannot be read
  is an error of its statement), the SQL of the migrations (its types and constraints are in the storage
  theories), and the web dashboard and deployment files.
\<close>

section \<open>From submission to success\<close>

text \<open>C10. A submitted job runs to success: when a tenant submits a job that is due (answer 201, pending) to an idle system,
  then one turn of a worker that loads the tenant weights from the database, draws the tenants
  in any order and executes the job without error takes exactly this job from its queue, and leaves it
  succeeded with its run closed; the queue and the processing list are empty again.\<close>

theorem submit_to_success:
  assumes "quiet W" "lists_ok R L" "no_errors R" "limiter_lists R L" "uuid_ok ustr uparse" "db_inv d"
    and "t \<in> set (tenants d)" "active t" "newID \<notin> rJobID ` set (job_runs d)" "newID \<noteq> uuid_nil" "\<And>k. L s k = []"
    and "handleSubmitJob R ustr limited W newID rq t (d, s) = ((d1, s1), r)" "rsCode r = 201" "rsBody r = JobBody j"
    and "jState j = StatePending"
    and "quiet (tuWorld u)" "\<not> locked (wEnv (tuWorld u) 0)" "\<not> tuShutdown u" "\<not> tuDone u" "tuOthers u = (\<lambda>st. st)" "tuReloads u = []"
    and "tuPolls u = p # ps" "pClock p < tuStart u + dequeueTimeout" "\<not> pDone p" "draws_ok (pDraws p)"
    and "fresh_claim (tuToken u) (tuRunID u) d" "calm e" "scan_ok scan"
    and "duration_ms (go_now (wEnv (tuWorld u) (tuBeats u + 3))) (go_now (wEnv (tuWorld u) 0)) = Some ms"
    and "\<And>x. jType x = jType j \<Longrightarrow> jPayload x = jPayload j \<Longrightarrow> tuExec u x = None"
  shows "\<exists>d2 s2. Run R ustr uparse w (e, scan) [u] (d1, s1) = Some ((d2, s2), job_report (jType j) ''succeeded'' (tID t), Running) \<and>
    map_option jState (lookup jID newID (jobs d2)) = Some StateSucceeded \<and>
    map_option rState (lookup rID (tuRunID u) (job_runs d2)) = Some StateSucceeded \<and> (\<forall>k. L s2 k = [])"
proof -
  obtain q where "rsBody r = JobBody (submitted_job newID t (go_now (wEnv W 2)) q)"
    and d1': "d1 = d\<lparr>jobs := jobs d @ [submitted_job newID t (go_now (wEnv W 2)) q]\<rparr>"
    "d1 = apply_op (Op_InsertJob (wEnv W 2) (submitted_job newID t (go_now (wEnv W 2)) q)) d"
    "\<not> unique_violated d (submitted_job newID t (go_now (wEnv W 2)) q)"
    "\<And>k. L s1 k = (if jState (submitted_job newID t (go_now (wEnv W 2)) q) = StatePending \<and>
          job_key ustr (submitted_job newID t (go_now (wEnv W 2)) q) = k then ustr newID # L s k else L s k)"
    by (rule submit_created[OF assms(1,4,2,3,12,13)]) (rule that, assumption+)
  then have jq: "j = submitted_job newID t (go_now (wEnv W 2)) q" using assms(14) by simp
  note d1 = d1'[folded jq]
  have f: "jID j = newID" "jTenantID j = tID t" "jClaimToken j = None" "jAttempt j = 0"
    by (simp_all add: jq submitted_job_def split: option.split)
  define key where "key = job_key ustr j"
  have l1: "L s1 k = (if k = key then [ustr newID] else [])" for k using d1(4) assms(11,15) by (simp add: key_def)
  define ts where "ts = loadTenants e scan d1 []"
  have "tenants d1 = tenants d" by (simp add: d1(1))
  then have tin: "tID t \<in> twID ` set ts"
    using assms(7,8,27,28) by (auto simp: ts_def loadTenants_def GetTenants_def set_sql_select intro!: image_eqI[of _ twID])
  have pos: "\<forall>x \<in> set ts. 0 < twWeight x" unfolding ts_def by (rule loadTenants_positive) simp
  obtain os where os: "weightedShuffle (pDraws p) ts = Some (Returns os)" "mset os = mset (map twID ts)"
    using weightedShuffle_permutes[OF pos assms(25)] by blast
  have "tID t \<in> set os" using os(2) tin by (metis mset_eq_setD set_map)
  then have "key \<in> set (poll_keys ustr os)"
    using bucket_in_buckets[of "jPriority j"] by (auto simp: poll_keys_def key_def job_key_def f)
  then obtain pre post where sp: "poll_keys ustr os = pre @ key # post" "key \<notin> set pre" by (meson split_list_first)
  have e1: "ts \<noteq> []" "\<forall>k \<in> set pre. L s1 k = []" "L s1 key = [] @ [ustr newID]" "uparse (ustr newID) = Some newID"
    using tin sp(2) assms(5) l1 by (auto simp: uuid_ok_def)
  obtain s' where q: "Dequeue R ustr uparse (tuStart u) (p # ps) w ts dequeueTimeout s1 = Some (s', Got newID)"
      "L s' = moved key (processingPrefix @ w) (L s1)"
    using Dequeue_first_key[where L = L and s = s1 and q = "[]" and v = "ustr newID" and uparse = uparse,
        OF assms(2,3) e1(1) assms(23,24) os(1) sp(1) e1(2-4)] by blast
  have inv: "db_inv d1" unfolding d1(2) using assms(6,9,15) f by (intro db_inv_step) auto
  have row: "lookup jID newID (jobs d1) = Some j"
    using d1(3) f by (auto simp: d1(1) jt.lookup_append jt.lookup_None unique_violated_def split: option.split dest!: jt.lookup_SomeD)
  have fresh: "fresh_claim (tuToken u) (tuRunID u) d1" using assms(26) f by (simp add: d1(1) fresh_claim_def)
  obtain d2 s2 where pr: "process R ustr (tuWorld u) w (tuToken u) (tuRunID u) (tuIntn u) (tuExec u) (tuBeats u) newID (d1, s') =
      ((d2, s2), job_report (jType j) ''succeeded'' (jTenantID j))"
    "map_option jState (lookup jID newID (jobs d2)) = Some StateSucceeded"
    "map_option rState (lookup rID (tuRunID u) (job_runs d2)) = Some StateSucceeded"
    "L s2 = (L s')(processingPrefix @ w := removeAll (ustr newID) (L s' (processingPrefix @ w)))"
    using process_success[where ustr = ustr and w = w and intn = "tuIntn u" and s = s',
        OF assms(16,2,3) inv row assms(15,17) fresh assms(29,30)] by force
  have "L s2 k = []" for k
    using pr(4) q(2) l1 by (auto simp: moved_def Let_def)
  moreover have "Run R ustr uparse w (e, scan) [u] (d1, s1) = Some ((d2, s2), job_report (jType j) ''succeeded'' (tID t), Running)"
    using assms(10,18-22) q(1) pr(1) f(2) by (simp add: Run_def ts_def [symmetric])
  ultimately show ?thesis using pr(2,3) by blast
qed


theorem submit_to_success_witness:
  "let d = demo_empty\<lparr>tenants := [demo_tenant]\<rparr>;
       (st1, r) = handleSubmitJob mem_redis ref_ustr True demo_world 7 (demo_request [] demo_body) demo_tenant (d, mem_empty) in
   rsCode r = 201 \<and>
   (\<exists>d2 s2 ms. Run mem_redis ref_ustr ref_uparse ''w'' (demo_env 0, \<lambda>t. t) [demo_turn] st1 = Some ((d2, s2), ms, Running) \<and>
      map_option jState (lookup jID 7 (jobs d2)) = Some StateSucceeded)"
proof -
  let ?d = "demo_empty\<lparr>tenants := [demo_tenant]\<rparr>" and ?rq = "demo_request [] demo_body"
  obtain d1 s1 r where h: "handleSubmitJob mem_redis ref_ustr True demo_world 7 ?rq demo_tenant (?d, mem_empty) = ((d1, s1), r)"
    by (metis prod.exhaust)
  have "case handleSubmitJob mem_redis ref_ustr True demo_world 7 ?rq demo_tenant (?d, mem_empty) of
      (st, r) \<Rightarrow> rsCode r = 201 \<and> (case rsBody r of JobBody j \<Rightarrow> jState j = StatePending | _ \<Rightarrow> False)" by code_simp
  then obtain j where r: "rsCode r = 201" "rsBody r = JobBody j" "jState j = StatePending"
    unfolding h prod.case by (auto split: body.splits)
  have inv: "db_inv ?d"
    by (simp add: db_inv_def unique_key_def keys_unique_def tokens_unique_def demo_empty_def)
  have c: "demo_tenant \<in> set (tenants ?d)" "active demo_tenant" "7 \<notin> rJobID ` set (job_runs ?d)" "(7 :: uuid) \<noteq> uuid_nil"
    "fresh_claim (tuToken demo_turn) (tuRunID demo_turn) ?d" "\<not> tuShutdown demo_turn" "\<not> tuDone demo_turn" "\<not> pDone demo_poll"
    "pClock demo_poll < tuStart demo_turn + dequeueTimeout" "\<not> locked (wEnv (tuWorld demo_turn) 0)"
    "duration_ms (go_now (wEnv (tuWorld demo_turn) (tuBeats demo_turn + 3))) (go_now (wEnv (tuWorld demo_turn) 0)) = Some 0"
    by code_simp+
  have t: "tuOthers demo_turn = (\<lambda>st. st)" "tuReloads demo_turn = []" "tuPolls demo_turn = demo_poll # [demo_poll\<lparr>pClock := 5 * second\<rparr>]"
    "tuExec demo_turn x = None" "quiet (tuWorld demo_turn)" for x
    by (simp_all add: demo_turn_def quiet_def calm_def demo_env_def)
  have e: "calm (demo_env 0)" "mLists mem_empty k = []" for k by (simp_all add: calm_def demo_env_def mem_empty_def)
  show ?thesis
    unfolding Let_def h prod.case
    using r(1) submit_to_success[OF demo_world_quiet mem_redis_lists_ok mem_redis_no_errors mem_redis_limiter ref_uuid_ok inv c(1-4) e(2)
        h r t(5) c(10,6,7) t(1-3) c(9,8) demo_draws c(5) e(1) scan_ok_id c(11) t(4)] by blast
qed

end
